(* ===== verification/Prelude.thy ===== *)
theory Prelude
  imports Main "HOL-Library.Word"
begin

text \<open>
  What every component of the development shares: the machine types, the fallible results, byte
  strings and their integer encodings, slices and chunks of a byte string.

  A Rust \<open>u8\<close>, \<open>u32\<close> or \<open>u64\<close> is a word of that width, so that \<open>+\<close> and \<open>*\<close> wrap as the
  release build does. A \<open>usize\<close> that is the length of an object in memory is a \<open>nat\<close>. A \<open>Vec<u8>\<close>
  is a list of bytes. A Rust \<open>String\<close> is an Isabelle \<open>string\<close> holding its UTF-8 bytes: \<open>len\<close> counts
  bytes, and every delimiter the program looks for is ASCII, so splitting at the byte is splitting at
  the character.
\<close>

lemma unat_bound: "unat (w :: 'a::len word) < 2 ^ LENGTH('a)"
  by (rule unsigned_less)

named_theorems wire "encodings of integers as bytes: lengths and round trips"

type_synonym byte = "8 word"
type_synonym bytes = "byte list"
type_synonym u16 = "16 word"
type_synonym u32 = "32 word"
type_synonym u64 = "64 word"
type_synonym i64 = "64 word"

section \<open>Fallible results\<close>

text \<open>\<open>Result<T, E>\<close> is a sum with the error on the left; \<open>rbind\<close> is the question mark operator.\<close>

fun rbind :: "'e + 'a \<Rightarrow> ('a \<Rightarrow> 'e + 'b) \<Rightarrow> 'e + 'b" where
  "rbind (Inl e) k = Inl e"
| "rbind (Inr x) k = k x"

lemma rbind_Inr_iff: "rbind m k = Inr y \<longleftrightarrow> (\<exists>x. m = Inr x \<and> k x = Inr y)"
  by (cases m) auto

lemma rbind_InlE:
  assumes "rbind m k = Inl e"
  obtains "m = Inl e" | x where "m = Inr x" and "k x = Inl e"
  using assms by (cases m) auto

lemma rbind_assoc: "rbind (rbind m k) h = rbind m (\<lambda>x. rbind (k x) h)"
  by (cases m) auto

lemma rbind_split: "P (rbind m k) \<longleftrightarrow> (\<forall>e. m = Inl e \<longrightarrow> P (Inl e)) \<and> (\<forall>x. m = Inr x \<longrightarrow> P (k x))"
  by (cases m) auto

text \<open>\<open>ok_or\<close>: an absent value becomes the given error.\<close>

fun ok_or :: "'e \<Rightarrow> 'a option \<Rightarrow> 'e + 'a" where
  "ok_or e None = Inl e"
| "ok_or e (Some x) = Inr x"

lemma ok_or_Inr_iff [simp]: "ok_or e m = Inr x \<longleftrightarrow> m = Some x"
  by (cases m) auto

lemma ok_or_Inl_iff [simp]: "ok_or e m = Inl e' \<longleftrightarrow> m = None \<and> e' = e"
  by (cases m) auto

text \<open>\<open>collect::<Result<Vec<_>, _>>\<close>: stops at the first error.\<close>

fun rmap :: "('a \<Rightarrow> 'e + 'b) \<Rightarrow> 'a list \<Rightarrow> 'e + 'b list" where
  "rmap f [] = Inr []"
| "rmap f (x # xs) = rbind (f x) (\<lambda>y. rbind (rmap f xs) (\<lambda>ys. Inr (y # ys)))"

lemma rmap_map: "(\<And>x. x \<in> set xs \<Longrightarrow> f x = Inr (g x)) \<Longrightarrow> rmap f xs = Inr (map g xs)"
  by (induction xs) auto

lemma rmap_append: "rmap f (xs @ ys) = rbind (rmap f xs) (\<lambda>us. rbind (rmap f ys) (\<lambda>vs. Inr (us @ vs)))"
proof (induction xs)
  case Nil
  then show ?case by (cases "rmap f ys") auto
next
  case (Cons x xs)
  show ?case
    by (cases "f x"; cases "rmap f xs"; cases "rmap f ys") (simp_all add: Cons.IH)
qed

lemma rmap_length: "rmap f xs = Inr ys \<Longrightarrow> length ys = length xs"
  by (induction xs arbitrary: ys) (auto simp: rbind_Inr_iff)

section \<open>Slices\<close>

text \<open>\<open>&xs[i..j]\<close> for \<open>i \<le> j \<le> xs.len()\<close>.\<close>

definition cut :: "nat \<Rightarrow> nat \<Rightarrow> 'a list \<Rightarrow> 'a list" where
  "cut i j xs = take (j - i) (drop i xs)"

lemma length_cut [simp]: "length (cut i j xs) = min (j - i) (length xs - i)"
  by (simp add: cut_def min.commute)

lemma cut_all [simp]: "cut 0 (length xs) xs = xs"
  by (simp add: cut_def)

lemma cut_take: "j \<le> m \<Longrightarrow> cut i j (take m xs) = cut i j xs"
  by (auto simp: cut_def drop_take min_def)

lemma cut_eq_drop_take: "cut i j xs = drop i (take j xs)"
  by (simp add: cut_def drop_take)

lemma cut_append_right: "length xs \<le> i \<Longrightarrow> cut i j (xs @ ys) = cut (i - length xs) (j - length xs) ys"
  by (simp add: cut_def)

section \<open>Chunks\<close>

text \<open>
  \<open>xs.chunks(n)\<close>: consecutive pieces of \<open>n\<close> elements, the last one shorter when \<open>n\<close> does not divide
  the length. Rust panics for \<open>n = 0\<close>; no caller passes it.
\<close>

function chunks :: "nat \<Rightarrow> 'a list \<Rightarrow> 'a list list" where
  "chunks n xs = (if n = 0 \<or> xs = [] then [] else take n xs # chunks n (drop n xs))"
  by pat_completeness auto
termination
  by (relation "measure (\<lambda>(n, xs). length xs)") auto

declare chunks.simps [simp del]

lemma chunks_Nil [simp]: "chunks n [] = []"
  by (simp add: chunks.simps)

lemma chunks_step: "0 < n \<Longrightarrow> xs \<noteq> [] \<Longrightarrow> chunks n xs = take n xs # chunks n (drop n xs)"
  by (simp add: chunks.simps [of n xs])

lemma chunks_append:
  "0 < n \<Longrightarrow> length xs = n \<Longrightarrow> chunks n (xs @ ys) = xs # chunks n ys"
  by (subst chunks_step) auto

lemma chunks_short: "0 < n \<Longrightarrow> xs \<noteq> [] \<Longrightarrow> length xs \<le> n \<Longrightarrow> chunks n xs = [xs]"
  by (subst chunks_step) auto

lemma concat_chunks [simp]: "0 < n \<Longrightarrow> concat (chunks n xs) = xs"
proof (induction n xs rule: chunks.induct)
  case (1 n xs)
  then show ?case
    by (cases "xs = []") (auto simp: chunks_step)
qed

text \<open>Pieces of the full length, with at most one shorter piece at the end, are what \<open>chunks\<close> returns.\<close>

lemma chunks_concat:
  assumes "0 < n" and "\<forall>x \<in> set xs. length x = n" and "length y \<le> n"
  shows "chunks n (concat xs @ y) = xs @ (if y = [] then [] else [y])"
  using assms by (induction xs) (auto simp: chunks_append chunks_short)

lemma chunks_of_pieces:
  assumes "0 < n" and "\<forall>x \<in> set (butlast xs). length x = n"
    and "xs \<noteq> [] \<Longrightarrow> last xs \<noteq> [] \<and> length (last xs) \<le> n"
  shows "chunks n (concat xs) = xs"
proof (cases "xs = []")
  case True
  then show ?thesis by simp
next
  case False
  then have xs: "xs = butlast xs @ [last xs]" by simp
  have "chunks n (concat (butlast xs) @ last xs) = butlast xs @ [last xs]"
    using chunks_concat [OF assms(1,2), of "last xs"] assms(3) False by simp
  then show ?thesis using xs by (metis concat.simps concat_append append_Nil2)
qed

text \<open>Cutting a concatenation where its pieces have one length.\<close>

lemma concat_cut:
  assumes "\<forall>x \<in> set (take q xs). length x = w" and "q \<le> length xs"
  shows "take (q * w) (concat xs) = concat (take q xs)" and "drop (q * w) (concat xs) = concat (drop q xs)"
    and "length (concat (take q xs)) = q * w"
proof -
  show len: "length (concat (take q xs)) = q * w"
    using assms
  proof (induction q arbitrary: xs)
    case 0
    then show ?case by simp
  next
    case (Suc q)
    then obtain x ys where "xs = x # ys" by (cases xs) auto
    with Suc show ?case by simp
  qed
  have "concat xs = concat (take q xs) @ concat (drop q xs)"
    by (metis append_take_drop_id concat_append)
  with len show "take (q * w) (concat xs) = concat (take q xs)" "drop (q * w) (concat xs) = concat (drop q xs)"
    by (metis append_eq_conv_conj)+
qed

lemma concat_split: "concat xs = concat (take q xs) @ concat (take m (drop q xs)) @ concat (drop m (drop q xs))"
  by (simp del: drop_drop flip: concat_append)

text \<open>The pieces by index: piece \<open>i\<close> starts at \<open>i * n\<close>.\<close>

lemma chunks_nth:
  assumes "0 < n"
  shows "chunks n xs = map (\<lambda>i. take n (drop (i * n) xs)) [0..<(length xs + n - 1) div n]"
  using assms
proof (induction n xs rule: chunks.induct)
  case (1 n xs)
  show ?case
  proof (cases "xs = []")
    case True
    with \<open>0 < n\<close> show ?thesis by simp
  next
    case False
    define q where "q = (length (drop n xs) + n - 1) div n"
    have q: "(length xs + n - 1) div n = Suc q"
    proof (cases "length xs \<le> n")
      case True
      have "length xs + n - 1 = n + (length xs - 1)" using False by (cases xs) auto
      moreover have "(length xs - 1) div n = 0" using True False \<open>0 < n\<close> by (cases xs) auto
      ultimately have "(length xs + n - 1) div n = Suc 0" using \<open>0 < n\<close> by (simp only: div_add_self1)
      moreover have "q = 0" using True \<open>0 < n\<close> by (simp add: q_def)
      ultimately show ?thesis by simp
    next
      case False
      then have "length xs + n - 1 = n + (length (drop n xs) + n - 1)" by simp
      then show ?thesis using \<open>0 < n\<close> unfolding q_def by (simp only: div_add_self1)
    qed
    have "chunks n xs = take n xs # chunks n (drop n xs)"
      using False \<open>0 < n\<close> by (simp add: chunks_step)
    also have "chunks n (drop n xs) = map (\<lambda>i. take n (drop (i * n) (drop n xs))) [0..<q]"
      unfolding q_def using 1 False by simp
    also have "\<dots> = map (\<lambda>i. take n (drop (i * n) xs)) [1..<Suc q]"
      by (simp add: map_Suc_upt [symmetric] o_def add.commute del: upt_Suc)
    finally show ?thesis
      unfolding q by (subst upt_conv_Cons) auto
  qed
qed

section \<open>Integers as bytes\<close>

text \<open>\<open>to_le_bytes\<close> and \<open>from_le_bytes\<close>, for any width; the big-endian forms are their reverse.\<close>

fun nat_to_le :: "nat \<Rightarrow> nat \<Rightarrow> bytes" where
  "nat_to_le 0 n = []"
| "nat_to_le (Suc k) n = word_of_nat n # nat_to_le k (n div 256)"

fun le_to_nat :: "bytes \<Rightarrow> nat" where
  "le_to_nat [] = 0"
| "le_to_nat (b # bs) = unat b + 256 * le_to_nat bs"

lemma length_nat_to_le [simp, wire]: "length (nat_to_le k n) = k"
  by (induction k arbitrary: n) auto

lemma unat_of_nat_byte: "unat (word_of_nat n :: byte) = n mod 256"
  by (simp add: unat_of_nat)

lemma le_to_nat_of_nat [wire]: "n < 256 ^ k \<Longrightarrow> le_to_nat (nat_to_le k n) = n"
proof (induction k arbitrary: n)
  case 0
  then show ?case by simp
next
  case (Suc k)
  then have "n div 256 < 256 ^ k" by (simp add: less_mult_imp_div_less mult.commute)
  then show ?case using Suc.IH [of "n div 256"] by (simp add: unat_of_nat_byte)
qed

lemma nat_to_le_to_nat [wire]: "nat_to_le (length bs) (le_to_nat bs) = bs"
proof (induction bs)
  case Nil
  then show ?case by simp
next
  case (Cons b bs)
  have "unat b < 256" using unat_bound [of b] by simp
  moreover have "word_of_nat (unat b + 256 * le_to_nat bs) = b"
  proof -
    have "unat (word_of_nat (unat b + 256 * le_to_nat bs) :: byte) = unat b"
      using \<open>unat b < 256\<close> by (simp only: unat_of_nat_byte) simp
    then show ?thesis by (simp only: word_unat_eq_iff)
  qed
  ultimately show ?case using Cons.IH by simp
qed

lemma le_to_nat_bound: "le_to_nat bs < 256 ^ length bs"
proof (induction bs)
  case Nil
  then show ?case by simp
next
  case (Cons b bs)
  have "unat b < 256" using unat_bound [of b] by simp
  with Cons show ?case by simp
qed

definition le16 :: "u16 \<Rightarrow> bytes" where "le16 w = nat_to_le 2 (unat w)"
definition le32 :: "u32 \<Rightarrow> bytes" where "le32 w = nat_to_le 4 (unat w)"
definition le64 :: "u64 \<Rightarrow> bytes" where "le64 w = nat_to_le 8 (unat w)"
definition be64 :: "u64 \<Rightarrow> bytes" where "be64 w = rev (le64 w)"
definition from_le16 :: "bytes \<Rightarrow> u16" where "from_le16 bs = word_of_nat (le_to_nat bs)"
definition from_le32 :: "bytes \<Rightarrow> u32" where "from_le32 bs = word_of_nat (le_to_nat bs)"

lemma length_le [simp, wire]:
  "length (le16 a) = 2" "length (le32 b) = 4" "length (le64 c) = 8" "length (be64 c) = 8"
  by (simp_all add: le16_def le32_def le64_def be64_def)

lemma from_le16_le16 [simp, wire]: "from_le16 (le16 w) = w"
proof -
  have "unat w < 256 ^ 2" using unat_bound [of w] by simp
  then show ?thesis by (simp add: from_le16_def le16_def le_to_nat_of_nat)
qed

lemma from_le32_le32 [simp, wire]: "from_le32 (le32 w) = w"
proof -
  have "unat w < 256 ^ 4" using unat_bound [of w] by simp
  then show ?thesis by (simp add: from_le32_def le32_def le_to_nat_of_nat)
qed

lemma le32_from_le32 [wire]: "length bs = 4 \<Longrightarrow> le32 (from_le32 bs) = bs"
proof -
  assume "length bs = 4"
  then have "unat (from_le32 bs) = le_to_nat bs"
    using le_to_nat_bound [of bs] by (simp add: from_le32_def unat_of_nat)
  then show ?thesis using nat_to_le_to_nat [of bs] \<open>length bs = 4\<close> by (simp add: le32_def)
qed

lemma le_to_nat_le64 [wire]: "le_to_nat (le64 w) = unat w"
  unfolding le64_def by (rule le_to_nat_of_nat) (use unat_bound [of w] in simp)

lemma le64_inject [simp]: "le64 v = le64 w \<longleftrightarrow> v = w"
proof
  assume "le64 v = le64 w"
  then have "unat v = unat w" by (simp only: le_to_nat_le64 [symmetric])
  then show "v = w" by (simp only: word_unat_eq_iff)
qed simp

lemma be64_inject [simp]: "be64 v = be64 w \<longleftrightarrow> v = w"
  by (simp add: be64_def)

lemma le32_inject [simp]: "le32 v = le32 w \<longleftrightarrow> v = w"
  by (metis from_le32_le32)

section \<open>Words and lengths\<close>

text \<open>An \<open>as u64\<close> of a length in memory is exact: no allocation reaches \<open>2 ^ 64\<close> bytes.\<close>

lemma unat_of_nat_u64 [simp]: "n < 2 ^ 64 \<Longrightarrow> unat (word_of_nat n :: u64) = n"
  by (simp add: unat_of_nat)

lemma of_nat_u64_inject: "a < 2 ^ 64 \<Longrightarrow> b < 2 ^ 64 \<Longrightarrow> (word_of_nat a :: u64) = word_of_nat b \<longleftrightarrow> a = b"
  by (metis unat_of_nat_u64)

lemma unat_add_u64: "unat a + unat b < 2 ^ 64 \<Longrightarrow> unat (a + b :: u64) = unat a + unat b"
  by (simp add: unat_word_ariths)

lemma unat_mult_u64: "unat a * unat b < 2 ^ 64 \<Longrightarrow> unat (a * b :: u64) = unat a * unat b"
  by (simp add: unat_word_ariths)

lemma unat_sub_u64: "unat b \<le> unat a \<Longrightarrow> unat (a - b :: u64) = unat a - unat b"
  by (simp add: unat_sub word_le_nat_alt)

lemma unat_u64_bound: "unat (w :: u64) < 2 ^ 64"
  using unat_bound [of w] by simp

lemma unat_max_u64: "unat (max a b :: u64) = max (unat a) (unat b)"
  by (simp add: max_def word_le_nat_alt)

lemma unat_min_u64: "unat (min a b :: u64) = min (unat a) (unat b)"
  by (simp add: min_def word_le_nat_alt)

end
