(* ===== verification/External.thy ===== *)
theory External
  imports Prelude
begin

text \<open>
  The cryptographic primitives the program calls and does not define, as parameters of the model:
  AES-256-GCM (\<open>aes_gcm\<close>), the operating system's random source (\<open>getrandom\<close>), Argon2id (\<open>argon2\<close>)
  and HMAC-SHA256 (\<open>hmac\<close>, \<open>sha2\<close>). What a property needs of one of them is a named hypothesis
  below, each a documented behaviour of the primitive.
\<close>

section \<open>AES-256-GCM\<close>

text \<open>
  \<open>aead_encrypt key nonce aad msg\<close> is ciphertext and tag, \<open>None\<close> where the crate returns an error;
  \<open>aead_decrypt\<close> is \<open>None\<close> when the tag does not verify.
\<close>

record aead =
  aead_encrypt :: "bytes \<Rightarrow> bytes \<Rightarrow> bytes \<Rightarrow> bytes \<Rightarrow> bytes option"
  aead_decrypt :: "bytes \<Rightarrow> bytes \<Rightarrow> bytes \<Rightarrow> bytes \<Rightarrow> bytes option"

text \<open>Key, nonce and tag lengths of AES-256-GCM.\<close>

definition aes_key_len :: nat where "aes_key_len = 32"
definition aes_nonce_len :: nat where "aes_nonce_len = 12"
definition aes_tag_len :: nat where "aes_tag_len = 16"

text \<open>
  Correctness: with a key and a nonce of the right length, sealing succeeds, the result is one tag
  longer than the message, and opening it under the same key, nonce and associated data returns
  the message.
\<close>

definition aead_correct :: "aead \<Rightarrow> bool" where
  "aead_correct c \<longleftrightarrow>
     (\<forall>key nonce aad msg. length key = 32 \<longrightarrow> length nonce = 12 \<longrightarrow>
        (\<exists>ct. aead_encrypt c key nonce aad msg = Some ct \<and> length ct = length msg + 16 \<and>
              aead_decrypt c key nonce aad ct = Some msg))"

lemma aead_correctD:
  assumes "aead_correct c" and "length key = 32" and "length nonce = 12"
  obtains ct where "aead_encrypt c key nonce aad msg = Some ct" and "length ct = length msg + 16"
    and "aead_decrypt c key nonce aad ct = Some msg"
  using assms unfolding aead_correct_def by metis

text \<open>
  The associated data is authenticated: what was sealed under one value of it does not open under
  another value of the same length, if the two fit one block of the cipher.
\<close>

definition aead_binds_aad :: "aead \<Rightarrow> bool" where
  "aead_binds_aad c \<longleftrightarrow>
     (\<forall>key nonce aad aad' msg ct. length aad = length aad' \<longrightarrow> length aad \<le> 16 \<longrightarrow> aad \<noteq> aad' \<longrightarrow>
        aead_encrypt c key nonce aad msg = Some ct \<longrightarrow> aead_decrypt c key nonce aad' ct = None)"

section \<open>The random source\<close>

text \<open>
  \<open>getrandom::fill\<close>: call number \<open>i\<close> asked for \<open>n\<close> bytes either fails or yields them. The state is
  the number of calls made so far.
\<close>

record entropy =
  source :: "nat \<Rightarrow> nat \<Rightarrow> bytes option"
  drawn :: nat

definition fill :: "nat \<Rightarrow> entropy \<Rightarrow> bytes option \<times> entropy" where
  "fill n r = (source r (drawn r) n, r\<lparr>drawn := Suc (drawn r)\<rparr>)"

text \<open>The buffer is filled whole: as many bytes as were asked for.\<close>

definition entropy_sized :: "entropy \<Rightarrow> bool" where
  "entropy_sized r \<longleftrightarrow> (\<forall>i n b. source r i n = Some b \<longrightarrow> length b = n)"

text \<open>The source answers every call.\<close>

definition entropy_total :: "entropy \<Rightarrow> bool" where
  "entropy_total r \<longleftrightarrow> (\<forall>i n. \<exists>b. source r i n = Some b)"

text \<open>The first \<open>n\<close> calls never repeat an answer of twelve bytes, as a random nonce is assumed not to.\<close>

definition entropy_fresh :: "nat \<Rightarrow> entropy \<Rightarrow> bool" where
  "entropy_fresh n r \<longleftrightarrow>
     (\<forall>i < n. \<forall>j < n. source r i 12 = source r j 12 \<longrightarrow> source r i 12 \<noteq> None \<longrightarrow> i = j)"

lemma fill_simps [simp]:
  "fst (fill n r) = source r (drawn r) n"
  "snd (fill n r) = r\<lparr>drawn := Suc (drawn r)\<rparr>"
  by (simp_all add: fill_def)

lemma entropy_preserved [simp]:
  "entropy_sized (r\<lparr>drawn := k\<rparr>) = entropy_sized r"
  "entropy_total (r\<lparr>drawn := k\<rparr>) = entropy_total r"
  "entropy_fresh n (r\<lparr>drawn := k\<rparr>) = entropy_fresh n r"
  by (simp_all add: entropy_sized_def entropy_total_def entropy_fresh_def)

section \<open>A concrete instance\<close>

text \<open>
  The witnesses instantiate the parameters with these functions: a cipher whose tag is the sum of
  the key and the associated data, and a counter for a random source. They are no cryptography;
  they show that the hypotheses hold together.
\<close>

definition pad16 :: "bytes \<Rightarrow> bytes" where
  "pad16 bs = take 16 (bs @ replicate 16 0)"

definition demo_tag :: "bytes \<Rightarrow> bytes \<Rightarrow> bytes" where
  "demo_tag key aad = map2 (+) (pad16 key) (pad16 aad)"

definition demo_encrypt :: "bytes \<Rightarrow> bytes \<Rightarrow> bytes \<Rightarrow> bytes \<Rightarrow> bytes option" where
  "demo_encrypt key nonce aad msg = Some (msg @ demo_tag key aad)"

definition demo_decrypt :: "bytes \<Rightarrow> bytes \<Rightarrow> bytes \<Rightarrow> bytes \<Rightarrow> bytes option" where
  "demo_decrypt key nonce aad ct =
     (if 16 \<le> length ct \<and> drop (length ct - 16) ct = demo_tag key aad
      then Some (take (length ct - 16) ct) else None)"

definition demo_aead :: aead where
  "demo_aead = \<lparr>aead_encrypt = demo_encrypt, aead_decrypt = demo_decrypt\<rparr>"

definition demo_entropy :: entropy where
  "demo_entropy = \<lparr>source = (\<lambda>i n. Some (nat_to_le n i)), drawn = 0\<rparr>"

lemma length_pad16 [simp]: "length (pad16 bs) = 16"
  by (simp add: pad16_def)

lemma length_demo_tag [simp]: "length (demo_tag key aad) = 16"
  by (simp add: demo_tag_def)

lemma pad16_inject:
  assumes "length a = length b" and "length a \<le> 16" and "pad16 a = pad16 b"
  shows "a = b"
proof -
  have "take (length a) (pad16 a) = a" and "take (length b) (pad16 b) = b"
    using assms by (simp_all add: pad16_def)
  then show ?thesis using assms by metis
qed

lemma map2_plus_inject:
  fixes ks :: bytes
  assumes "length ks = length as" and "length ks = length bs" and eq: "map2 (+) ks as = map2 (+) ks bs"
  shows "as = bs"
proof (rule nth_equalityI)
  show "length as = length bs" using assms by simp
  fix i assume i: "i < length as"
  have "map2 (+) ks as ! i = map2 (+) ks bs ! i" by (simp only: eq)
  then have "ks ! i + as ! i = ks ! i + bs ! i" using assms(1,2) i by simp
  then show "as ! i = bs ! i" by (simp only: add_left_cancel)
qed

lemma demo_tag_inject:
  assumes "length a = length b" and "length a \<le> 16" and "demo_tag k a = demo_tag k b"
  shows "a = b"
proof -
  have "pad16 a = pad16 b"
    by (rule map2_plus_inject [of "pad16 k"]) (use assms(3) in \<open>simp_all only: demo_tag_def length_pad16\<close>)
  with assms(1,2) show ?thesis by (rule pad16_inject)
qed

lemma demo_aead_correct: "aead_correct demo_aead"
  by (simp add: aead_correct_def demo_aead_def demo_encrypt_def demo_decrypt_def)

lemma demo_aead_binds_aad: "aead_binds_aad demo_aead"
proof -
  have "demo_tag k a \<noteq> demo_tag k b" if "length a = length b" "length a \<le> 16" "a \<noteq> b" for k a b
    using that demo_tag_inject by blast
  then show ?thesis
    by (auto simp: aead_binds_aad_def demo_aead_def demo_encrypt_def demo_decrypt_def)
qed

lemma demo_entropy_sized: "entropy_sized demo_entropy"
  by (auto simp: entropy_sized_def demo_entropy_def)

lemma demo_entropy_total: "entropy_total demo_entropy"
  by (auto simp: entropy_total_def demo_entropy_def)

lemma demo_entropy_fresh:
  assumes "n \<le> 256 ^ 12"
  shows "entropy_fresh n demo_entropy"
  unfolding entropy_fresh_def
proof (intro allI impI)
  fix i j assume "i < n" "j < n" "source demo_entropy i 12 = source demo_entropy j 12"
  then have "nat_to_le 12 i = nat_to_le 12 j" by (simp only: demo_entropy_def entropy.select_convs option.inject)
  moreover have "le_to_nat (nat_to_le 12 k) = k" if "k < n" for k
    using that assms by (intro le_to_nat_of_nat) simp
  ultimately show "i = j" using \<open>i < n\<close> \<open>j < n\<close> by metis
qed

end
