(* ===== verification/Ordered_Map.thy ===== *)
theory Ordered_Map
  imports Prelude
begin

text \<open>
  \<open>std::collections::BTreeMap\<close>, as the program uses it: \<open>insert\<close>, \<open>get\<close>, \<open>keys().next_back()\<close>,
  iteration in key order. The map is the list of its entries in ascending key order, so iterating
  it is reading the list. The interface is the locale \<open>ordered_map\<close>; its clients (the block frame and
  the keyring) rest on the facts of the interpretation \<open>btree\<close>.
\<close>

locale ordered_map =
  fixes empty :: "'m"
    and insert :: "'k::linorder \<Rightarrow> 'v \<Rightarrow> 'm \<Rightarrow> 'm"
    and get :: "'m \<Rightarrow> 'k \<Rightarrow> 'v option"
    and keys :: "'m \<Rightarrow> 'k list"
    and ok :: "'m \<Rightarrow> bool"
  assumes get_empty: "get empty k = None"
    and ok_empty: "ok empty"
    and get_insert: "ok m \<Longrightarrow> get (insert k v m) = (get m)(k \<mapsto> v)"
    and ok_insert: "ok m \<Longrightarrow> ok (insert k v m)"
    and keys_get: "ok m \<Longrightarrow> set (keys m) = dom (get m)"
    and keys_sorted: "ok m \<Longrightarrow> sorted_wrt (<) (keys m)"
begin

lemma get_insert_same: "ok m \<Longrightarrow> get (insert k v m) k = Some v"
  by (simp add: get_insert)

lemma get_insert_other: "ok m \<Longrightarrow> k' \<noteq> k \<Longrightarrow> get (insert k v m) k' = get m k'"
  by (simp add: get_insert)

lemma keys_insert: "ok m \<Longrightarrow> set (keys (insert k v m)) = Set.insert k (set (keys m))"
  by (simp add: keys_get get_insert ok_insert)

text \<open>A key above every key of the map is fresh, and inserting it makes it the last one.\<close>

lemma last_is_greatest: "ok m \<Longrightarrow> keys m \<noteq> [] \<Longrightarrow> k \<in> set (keys m) \<Longrightarrow> k \<le> last (keys m)"
proof -
  assume m: "ok m" "keys m \<noteq> []" "k \<in> set (keys m)"
  then obtain ks l where ks: "keys m = ks @ [l]" by (metis rev_exhaust)
  with keys_sorted [OF m(1)] m(3) show ?thesis
    by (auto simp: sorted_wrt_append)
qed

lemma above_last_fresh:
  assumes "ok m" and "\<forall>l \<in> set (keys m). l < k"
  shows "get m k = None"
  using assms keys_get [of m] by (force simp: domIff)

lemma last_insert_greatest:
  assumes m: "ok m" and above: "\<forall>l \<in> set (keys m). l < k"
  shows "keys (insert k v m) = keys m @ [k]"
proof (rule strict_sorted_equal)
  show "sorted_wrt (<) (keys (insert k v m))" using m by (simp add: keys_sorted ok_insert)
  show "sorted_wrt (<) (keys m @ [k])"
    using m above by (simp add: keys_sorted sorted_wrt_append)
  show "set (keys (insert k v m)) = set (keys m @ [k])"
    using m by (simp add: keys_insert)
qed

lemma get_Some_key: "ok m \<Longrightarrow> get m k = Some v \<Longrightarrow> k \<in> set (keys m)"
  by (auto simp: keys_get)

end

section \<open>The map as the list of its entries\<close>

fun btree_insert :: "'k::linorder \<Rightarrow> 'v \<Rightarrow> ('k \<times> 'v) list \<Rightarrow> ('k \<times> 'v) list" where
  "btree_insert k v [] = [(k, v)]"
| "btree_insert k v ((l, w) # m) =
     (if k < l then (k, v) # (l, w) # m
      else if k = l then (k, v) # m
      else (l, w) # btree_insert k v m)"

definition btree_keys :: "('k \<times> 'v) list \<Rightarrow> 'k list" where
  "btree_keys m = map fst m"

definition btree_ok :: "('k::linorder \<times> 'v) list \<Rightarrow> bool" where
  "btree_ok m \<longleftrightarrow> sorted_wrt (<) (map fst m)"

lemma btree_insert_keys: "fst ` set (btree_insert k v m) = insert k (fst ` set m)"
  by (induction k v m rule: btree_insert.induct) auto

lemma btree_ok_insert: "btree_ok m \<Longrightarrow> btree_ok (btree_insert k v m)"
proof (induction k v m rule: btree_insert.induct)
  case (1 k v)
  then show ?case by (simp add: btree_ok_def)
next
  case (2 k v l w m)
  then show ?case
    using btree_insert_keys [of k v m] by (auto simp: btree_ok_def)
qed

lemma btree_get_insert: "btree_ok m \<Longrightarrow> map_of (btree_insert k v m) = (map_of m)(k \<mapsto> v)"
proof (induction k v m rule: btree_insert.induct)
  case (1 k v)
  then show ?case by simp
next
  case (2 k v l w m)
  then show ?case by (auto simp: btree_ok_def fun_eq_iff)
qed

interpretation btree: ordered_map "[]" btree_insert map_of btree_keys btree_ok
proof
  show "set (btree_keys m) = dom (map_of m)" for m :: "('k::linorder \<times> 'v) list"
    by (simp add: btree_keys_def dom_map_of_conv_image_fst)
qed (auto simp: btree_ok_insert btree_get_insert, auto simp: btree_ok_def btree_keys_def)

text \<open>Inserting the entries of a map one by one, in order, rebuilds it.\<close>

lemma btree_insert_append:
  "\<forall>l \<in> fst ` set m. l < k \<Longrightarrow> btree_insert k v m = m @ [(k, v)]"
  by (induction k v m rule: btree_insert.induct) auto

lemma btree_rebuild:
  assumes "btree_ok (m @ n)"
  shows "foldl (\<lambda>acc (k, v). btree_insert k v acc) m n = m @ n"
  using assms
proof (induction n arbitrary: m)
  case Nil
  then show ?case by simp
next
  case (Cons e n)
  obtain k v where e: "e = (k, v)" by force
  have "\<forall>l \<in> fst ` set m. l < k"
    using Cons.prems by (auto simp: btree_ok_def sorted_wrt_append e)
  then have "btree_insert k v m = m @ [(k, v)]" by (rule btree_insert_append)
  then show ?case using Cons.IH [of "m @ [(k, v)]"] Cons.prems by (simp add: e)
qed

end
