(* ===== verification/Key_Material.thy ===== *)
theory Key_Material
  imports External Ordered_Map
begin

text \<open>
  The identity of a data key (\<open>crypto/keyring.rs\<close>, \<open>DataKeyId\<close>) and the key material itself
  (\<open>crypto/secret.rs\<close>, \<open>SecretKey\<close>). Zeroising a key when it is dropped has no observable value and
  is not modelled.
\<close>

datatype data_key_id = DataKeyId (key_id_get: u32)

instantiation data_key_id :: linorder
begin

definition less_eq_data_key_id :: "data_key_id \<Rightarrow> data_key_id \<Rightarrow> bool" where
  "less_eq_data_key_id a b \<longleftrightarrow> key_id_get a \<le> key_id_get b"

definition less_data_key_id :: "data_key_id \<Rightarrow> data_key_id \<Rightarrow> bool" where
  "less_data_key_id a b \<longleftrightarrow> key_id_get a < key_id_get b"

instance
  by standard (auto simp: less_eq_data_key_id_def less_data_key_id_def intro: data_key_id.expand)

end

definition FIRST_KEY :: data_key_id where "FIRST_KEY = DataKeyId 1"

text \<open>\<open>checked_add(1)\<close>: \<open>None\<close> when the id space is exhausted.\<close>

definition key_id_next :: "data_key_id \<Rightarrow> data_key_id option" where
  "key_id_next k =
     (if unat (key_id_get k) + 1 < 2 ^ 32 then Some (DataKeyId (key_id_get k + 1)) else None)"

lemma key_id_next_greater: "key_id_next k = Some n \<Longrightarrow> k < n"
  by (auto simp: key_id_next_def less_data_key_id_def word_less_nat_alt unat_word_ariths split: if_splits)

lemma key_id_next_Some: "key_id_next k = Some n \<longleftrightarrow> unat (key_id_get k) + 1 < 2 ^ 32 \<and> n = DataKeyId (key_id_get k + 1)"
  by (auto simp: key_id_next_def)

lemma key_id_next_None: "key_id_next k = None \<longleftrightarrow> key_id_get k = -1"
proof -
  have "unat (-1 :: u32) = 2 ^ 32 - 1" by (simp add: unsigned_minus_1_eq_mask mask_eq_exp_minus_1)
  moreover have "unat (key_id_get k) < 2 ^ 32" using unat_bound [of "key_id_get k"] by simp
  ultimately show ?thesis
    by (auto simp: key_id_next_def word_unat_eq_iff)
qed

definition KEY_LEN :: nat where "KEY_LEN = 32"

type_synonym secret_key = bytes

text \<open>Generating a key asks the operating system for thirty-two bytes; its failure is passed on.\<close>

definition secret_key_generate :: "entropy \<Rightarrow> secret_key option \<times> entropy" where
  "secret_key_generate r = fill KEY_LEN r"

lemma secret_key_generate_length:
  "entropy_sized r \<Longrightarrow> fst (secret_key_generate r) = Some k \<Longrightarrow> length k = KEY_LEN"
  by (simp add: secret_key_generate_def entropy_sized_def KEY_LEN_def)

end
