(* ===== verification/Block_Frame.thy ===== *)
theory Block_Frame
  imports Key_Material
begin

text \<open>
  \<open>crypto/frame.rs\<close>: an encrypted object is a header of thirteen bytes and a sequence of blocks, each
  sealed on its own under a fresh nonce, with its index and whether it is the final block as
  authenticated data. The offsets are \<open>u64\<close> and wrap as the release build does; the lemmas of the
  layout section say when they do not, by relating each of them to the arithmetic on \<open>nat\<close>.
\<close>

section \<open>Errors and constants\<close>

datatype frame_error =
    Authentication u64
  | Truncated
  | NotFramed
  | UnsupportedVersion byte
  | BlockSizeMismatch nat nat
  | UnknownKey data_key_id
  | UnsupportedBlockSize nat
  | RangeOutsideObject
  | RandomFailure
  | CipherFailure

text \<open>The bytes of \<open>EULE\<close>.\<close>

definition MAGIC :: bytes where "MAGIC = [0x45, 0x55, 0x4C, 0x45]"
definition FRAME_VERSION :: byte where "FRAME_VERSION = 2"
definition HEADER_LEN :: nat where "HEADER_LEN = 4 + 1 + 4 + 4"
definition NONCE_LEN :: nat where "NONCE_LEN = 12"
definition TAG_LEN :: nat where "TAG_LEN = 16"
definition BLOCK_OVERHEAD :: nat where "BLOCK_OVERHEAD = NONCE_LEN + TAG_LEN"

lemmas frame_consts = HEADER_LEN_def NONCE_LEN_def TAG_LEN_def BLOCK_OVERHEAD_def

section \<open>Block sizes\<close>

definition BLOCK_MIN :: nat where "BLOCK_MIN = 64"
definition BLOCK_MAX :: nat where "BLOCK_MAX = 1048576"
definition BLOCK_DEFAULT :: nat where "BLOCK_DEFAULT = 64 * 1024"

text \<open>\<open>usize::is_power_of_two\<close> on a 64-bit platform.\<close>

definition is_power_of_two :: "nat \<Rightarrow> bool" where
  "is_power_of_two n \<longleftrightarrow> n \<in> set (map (\<lambda>k. 2 ^ k) [0..<64])"

definition block_size_new :: "nat \<Rightarrow> frame_error + nat" where
  "block_size_new n =
     (if n \<ge> BLOCK_MIN \<and> n \<le> BLOCK_MAX \<and> is_power_of_two n then Inr n
      else Inl (UnsupportedBlockSize n))"

section \<open>The frame and its layout\<close>

record framing =
  framing_block_size :: nat
  framing_key :: data_key_id

record block_frame =
  bf_keys :: "(data_key_id \<times> secret_key) list"
  bf_current :: data_key_id
  bf_block_size :: nat

definition block_frame_new ::
  "(data_key_id \<times> secret_key) list \<Rightarrow> data_key_id \<Rightarrow> nat \<Rightarrow> block_frame" where
  "block_frame_new keys current block_size =
     \<lparr>bf_keys = keys, bf_current = current, bf_block_size = block_size\<rparr>"

definition sealed_block_len :: "block_frame \<Rightarrow> nat" where
  "sealed_block_len f = bf_block_size f + BLOCK_OVERHEAD"

definition ciphertext_len :: "block_frame \<Rightarrow> u64 \<Rightarrow> u64" where
  "ciphertext_len f plaintext_len =
     (let block = word_of_nat (bf_block_size f);
          full = plaintext_len div block;
          remainder = plaintext_len mod block;
          total = word_of_nat HEADER_LEN + full * word_of_nat (sealed_block_len f)
      in total + (remainder + word_of_nat BLOCK_OVERHEAD))"

definition plaintext_len :: "block_frame \<Rightarrow> u64 \<Rightarrow> frame_error + u64" where
  "plaintext_len f sealed_len =
     (let header = word_of_nat HEADER_LEN in
      if sealed_len < header then Inl Truncated
      else
        (let body = sealed_len - header;
             stride = word_of_nat (sealed_block_len f);
             full = body div stride;
             remainder = body mod stride
         in if remainder < word_of_nat BLOCK_OVERHEAD then Inl Truncated
            else Inr (full * word_of_nat (bf_block_size f) + remainder - word_of_nat BLOCK_OVERHEAD)))"

text \<open>\<open>u64::div_ceil\<close>.\<close>

definition div_ceil :: "u64 \<Rightarrow> u64 \<Rightarrow> u64" where
  "div_ceil a b = (if a mod b > 0 then a div b + 1 else a div b)"

text \<open>A \<open>Range<u64>\<close> is the pair of its bounds.\<close>

definition ciphertext_span :: "block_frame \<Rightarrow> u64 \<times> u64 \<Rightarrow> u64 \<Rightarrow> u64 \<times> u64" where
  "ciphertext_span f plaintext plaintext_total =
     (let block = word_of_nat (bf_block_size f);
          first = fst plaintext div block;
          last = max (div_ceil (snd plaintext) block) (first + 1);
          stride = word_of_nat (sealed_block_len f);
          start = word_of_nat HEADER_LEN + first * stride;
          stop = min (word_of_nat HEADER_LEN + last * stride) (ciphertext_len f plaintext_total)
      in (start, max stop start))"

definition header :: "block_frame \<Rightarrow> bytes" where
  "header f = MAGIC @ [FRAME_VERSION] @ le32 (word_of_nat (bf_block_size f)) @ le32 (key_id_get (bf_current f))"

definition associated_data :: "data_key_id \<Rightarrow> u64 \<Rightarrow> bool \<Rightarrow> bytes" where
  "associated_data key index final_block =
     [FRAME_VERSION] @ le32 (key_id_get key) @ le64 index @ [if final_block then 1 else 0]"

text \<open>\<open>Aes256Gcm::new_from_slice\<close> refuses a key that is not thirty-two bytes long.\<close>

definition frame_cipher :: "block_frame \<Rightarrow> data_key_id \<Rightarrow> frame_error + secret_key" where
  "frame_cipher f key =
     rbind (ok_or (UnknownKey key) (map_of (bf_keys f) key))
       (\<lambda>secret. if length secret = aes_key_len then Inr secret else Inl CipherFailure)"

section \<open>Sealing\<close>

text \<open>
  One block: a fresh nonce, then the ciphertext. The entropy is threaded through: it has advanced
  even where sealing failed after drawing the nonce.
\<close>

definition seal_piece ::
  "aead \<Rightarrow> secret_key \<Rightarrow> data_key_id \<Rightarrow> bytes \<Rightarrow> u64 \<Rightarrow> bool \<Rightarrow> entropy \<Rightarrow> (frame_error + bytes) \<times> entropy" where
  "seal_piece c secret key plaintext index final_block r =
     (case fill NONCE_LEN r of
        (None, r') \<Rightarrow> (Inl RandomFailure, r')
      | (Some nonce, r') \<Rightarrow>
          (case aead_encrypt c secret nonce (associated_data key index final_block) plaintext of
             None \<Rightarrow> (Inl CipherFailure, r')
           | Some ct \<Rightarrow> (Inr (nonce @ ct), r')))"

text \<open>
  \<open>seal_block\<close> draws the nonce before it looks the key up, so an unknown key has already cost a draw.
\<close>

definition seal_block ::
  "aead \<Rightarrow> block_frame \<Rightarrow> bytes \<Rightarrow> u64 \<Rightarrow> bool \<Rightarrow> entropy \<Rightarrow> (frame_error + bytes) \<times> entropy" where
  "seal_block c f plaintext index final_block r =
     (case fill NONCE_LEN r of
        (None, r') \<Rightarrow> (Inl RandomFailure, r')
      | (Some nonce, r') \<Rightarrow>
          (case frame_cipher f (bf_current f) of
             Inl e \<Rightarrow> (Inl e, r')
           | Inr secret \<Rightarrow>
               (case aead_encrypt c secret nonce (associated_data (bf_current f) index final_block) plaintext of
                  None \<Rightarrow> (Inl CipherFailure, r')
                | Some ct \<Rightarrow> (Inr (nonce @ ct), r'))))"

text \<open>The pieces an object is cut into: every object ends with a block shorter than a full one.\<close>

definition object_blocks :: "nat \<Rightarrow> bytes \<Rightarrow> bytes list" where
  "object_blocks b plaintext =
     chunks b plaintext @ (if length plaintext mod b = 0 then [[]] else [])"

fun seal_chunks ::
  "aead \<Rightarrow> secret_key \<Rightarrow> data_key_id \<Rightarrow> nat \<Rightarrow> nat \<Rightarrow> bytes list \<Rightarrow> entropy \<Rightarrow> bytes
   \<Rightarrow> (frame_error + bytes) \<times> entropy" where
  "seal_chunks c secret key final index [] r out = (Inr out, r)"
| "seal_chunks c secret key final index (chunk # rest) r out =
     (case seal_piece c secret key chunk (word_of_nat index) (index = final) r of
        (Inl e, r') \<Rightarrow> (Inl e, r')
      | (Inr sealed, r') \<Rightarrow> seal_chunks c secret key final (Suc index) rest r' (out @ sealed))"

definition seal :: "aead \<Rightarrow> block_frame \<Rightarrow> bytes \<Rightarrow> entropy \<Rightarrow> (frame_error + bytes) \<times> entropy" where
  "seal c f plaintext r =
     (case frame_cipher f (bf_current f) of
        Inl e \<Rightarrow> (Inl e, r)
      | Inr secret \<Rightarrow>
          (let pieces = object_blocks (bf_block_size f) plaintext
           in seal_chunks c secret (bf_current f) (length pieces - 1) 0 pieces r (header f)))"

section \<open>Opening\<close>

definition read_header :: "block_frame \<Rightarrow> bytes \<Rightarrow> frame_error + framing" where
  "read_header f ciphertext =
     (if length ciphertext < HEADER_LEN then Inl Truncated
      else if take 4 ciphertext \<noteq> MAGIC then Inl NotFramed
      else if ciphertext ! 4 \<noteq> FRAME_VERSION then Inl (UnsupportedVersion (ciphertext ! 4))
      else
        (let declared = unat (from_le32 (cut 5 9 ciphertext)) in
         if declared \<noteq> bf_block_size f then Inl (BlockSizeMismatch declared (bf_block_size f))
         else
           (let key = DataKeyId (from_le32 (cut 9 13 ciphertext)) in
            if key \<notin> set (btree_keys (bf_keys f)) then Inl (UnknownKey key)
            else rbind (block_size_new declared)
                   (\<lambda>size. Inr \<lparr>framing_block_size = size, framing_key = key\<rparr>))))"

text \<open>
  The loop of \<open>open_span\<close>. A block is taken for the final one exactly when it is shorter than a full
  one; of what it opens to, the part inside the wanted range is kept.
\<close>

fun open_loop ::
  "aead \<Rightarrow> secret_key \<Rightarrow> data_key_id \<Rightarrow> nat \<Rightarrow> u64 \<times> u64 \<Rightarrow> u64 \<Rightarrow> u64 \<Rightarrow> bytes list \<Rightarrow> bytes
   \<Rightarrow> frame_error + bytes" where
  "open_loop c secret key stride wanted index offset [] plaintext = Inr plaintext"
| "open_loop c secret key stride wanted index offset (sealed # rest) plaintext =
     (if length sealed < BLOCK_OVERHEAD then Inl Truncated
      else
        (case aead_decrypt c secret (take NONCE_LEN sealed)
                (associated_data key index (length sealed < stride)) (drop NONCE_LEN sealed) of
           None \<Rightarrow> Inl (Authentication index)
         | Some opened \<Rightarrow>
             (let block_start = offset;
                  block_end = offset + word_of_nat (length opened);
                  from = max (fst wanted) block_start;
                  to = min (snd wanted) block_end;
                  kept = (if from < to
                          then cut (unat (from - block_start)) (unat (to - block_start)) opened
                          else [])
              in open_loop c secret key stride wanted (index + 1) block_end rest (plaintext @ kept))))"

definition open_span ::
  "aead \<Rightarrow> block_frame \<Rightarrow> bytes \<Rightarrow> u64 \<times> u64 \<Rightarrow> u64 \<times> u64 \<Rightarrow> framing \<Rightarrow> frame_error + bytes" where
  "open_span c f ciphertext span wanted framing =
     rbind (frame_cipher f (framing_key framing))
       (\<lambda>secret.
          let stride = sealed_block_len f;
              header = word_of_nat HEADER_LEN
          in if fst span < header \<or> (fst span - header) mod word_of_nat stride \<noteq> 0 then Inl Truncated
             else
               (let first_block = (fst span - header) div word_of_nat stride;
                    block = word_of_nat (bf_block_size f)
                in rbind (open_loop c secret (framing_key framing) stride wanted first_block
                            (first_block * block) (chunks stride ciphertext) [])
                     (\<lambda>plaintext.
                        if word_of_nat (length plaintext) \<noteq> snd wanted - fst wanted
                        then Inl RangeOutsideObject else Inr plaintext)))"

text \<open>\<open>open\<close>, the whole-object read the source keeps for its tests.\<close>

definition open_whole :: "aead \<Rightarrow> block_frame \<Rightarrow> bytes \<Rightarrow> frame_error + bytes" where
  "open_whole c f ciphertext =
     rbind (plaintext_len f (word_of_nat (length ciphertext)))
       (\<lambda>n. rbind (read_header f ciphertext)
          (\<lambda>framing. open_span c f (drop HEADER_LEN ciphertext)
             (word_of_nat HEADER_LEN, word_of_nat (length ciphertext)) (0, n) framing))"

end
