(* ===== verification/Block_Layout.thy ===== *)
theory Block_Layout
  imports Block_Frame
begin

text \<open>
  The offsets of \<open>crypto/frame.rs\<close> against the arithmetic on \<open>nat\<close> they stand for: the length of
  a sealed object, its inverse, and the span of ciphertext that serves a range of plaintext.
\<close>

section \<open>Frames as the keyring builds them\<close>

definition frame_ok :: "block_frame \<Rightarrow> bool" where
  "frame_ok f \<longleftrightarrow>
     block_size_new (bf_block_size f) = Inr (bf_block_size f) \<and> btree_ok (bf_keys f) \<and>
     bf_current f \<in> set (btree_keys (bf_keys f)) \<and> (\<forall>k \<in> snd ` set (bf_keys f). length k = KEY_LEN)"

lemma block_size_new_Inr:
  "block_size_new n = Inr m \<longleftrightarrow> m = n \<and> 64 \<le> n \<and> n \<le> 1048576 \<and> is_power_of_two n"
  by (auto simp: block_size_new_def BLOCK_MIN_def BLOCK_MAX_def)

lemma frame_ok_block:
  "frame_ok f \<Longrightarrow> 64 \<le> bf_block_size f" "frame_ok f \<Longrightarrow> bf_block_size f \<le> 1048576"
  "frame_ok f \<Longrightarrow> 0 < bf_block_size f"
  by (auto simp: frame_ok_def block_size_new_Inr)

lemma frame_ok_current: "frame_ok f \<Longrightarrow> bf_current f \<in> set (btree_keys (bf_keys f))"
  by (simp add: frame_ok_def)

lemma frame_ok_cipher:
  assumes "frame_ok f" and "k \<in> set (btree_keys (bf_keys f))"
  obtains secret where "map_of (bf_keys f) k = Some secret" and "length secret = 32"
    and "frame_cipher f k = Inr secret"
proof -
  from assms obtain secret where s: "map_of (bf_keys f) k = Some secret"
    using btree.keys_get [of "bf_keys f"] by (auto simp: frame_ok_def)
  moreover from this have "length secret = 32"
    using assms(1) by (force simp: frame_ok_def KEY_LEN_def dest: map_of_SomeD)
  ultimately show ?thesis
    using that by (simp add: frame_cipher_def aes_key_len_def)
qed

section \<open>The length of a sealed object\<close>

text \<open>The header, the plaintext, and one overhead per block, the short final one included.\<close>

definition ct_len :: "nat \<Rightarrow> nat \<Rightarrow> nat" where
  "ct_len b n = 13 + n + 28 * (n div b + 1)"

lemma ct_len_strides: "ct_len b n = 13 + (n div b) * (b + 28) + (n mod b + 28)"
  by (simp add: ct_len_def algebra_simps)

lemma unat_block [simp]:
  assumes "frame_ok f"
  shows "unat (word_of_nat (bf_block_size f) :: u64) = bf_block_size f"
    and "unat (word_of_nat (sealed_block_len f) :: u64) = bf_block_size f + 28"
proof -
  have "unat (word_of_nat (sealed_block_len f) :: u64) = sealed_block_len f"
    by (rule unat_of_nat_u64) (use frame_ok_block [OF assms] in \<open>simp add: sealed_block_len_def frame_consts\<close>)
  then show "unat (word_of_nat (sealed_block_len f) :: u64) = bf_block_size f + 28"
    by (simp add: sealed_block_len_def frame_consts)
qed (use frame_ok_block [OF assms] in simp)

lemma blocks_bound:
  fixes n :: nat
  assumes "64 \<le> b" and "n < 2 ^ 62"
  shows "n div b < 2 ^ 56" and "(n div b) * (b + 28) < 2 ^ 63"
proof -
  have "n div b \<le> n div 64" using assms(1) by (intro div_le_mono2) auto
  also have "\<dots> < 2 ^ 56" using assms(2) by (simp add: less_mult_imp_div_less)
  finally show d: "n div b < 2 ^ 56" .
  have "(n div b) * b \<le> n" by simp
  moreover have "(n div b) * (b + 28) = (n div b) * b + 28 * (n div b)" by (simp add: algebra_simps)
  moreover have "(2::nat) ^ 62 + 28 * 2 ^ 56 < 2 ^ 63" by simp
  ultimately show "(n div b) * (b + 28) < 2 ^ 63" using d assms(2) by linarith
qed

lemma unat_ciphertext_len:
  assumes f: "frame_ok f" and n: "unat n < 2 ^ 62"
  shows "unat (ciphertext_len f n) = ct_len (bf_block_size f) (unat n)"
proof -
  let ?b = "bf_block_size f"
  have b: "64 \<le> ?b" "?b \<le> 1048576" using frame_ok_block [OF f] by auto
  note bd = blocks_bound [OF b(1) n]
  have m: "unat n mod ?b < 1048576"
    using b by (meson less_le_trans mod_less_divisor order_less_le_trans zero_less_numeral)
  have full: "unat (n div word_of_nat ?b * word_of_nat (sealed_block_len f) :: u64) = (unat n div ?b) * (?b + 28)"
    using bd f by (subst unat_mult_u64) (simp_all add: unat_div)
  have rem: "unat (n mod word_of_nat ?b + word_of_nat BLOCK_OVERHEAD :: u64) = unat n mod ?b + 28"
    using m f by (subst unat_add_u64) (simp_all add: unat_mod frame_consts)
  have tot: "unat (word_of_nat HEADER_LEN + n div word_of_nat ?b * word_of_nat (sealed_block_len f) :: u64)
      = 13 + (unat n div ?b) * (?b + 28)"
    using bd by (subst unat_add_u64) (simp_all add: full frame_consts)
  show ?thesis
    unfolding ciphertext_len_def Let_def
    using bd m by (subst unat_add_u64) (simp_all add: tot rem ct_len_strides)
qed

lemma ct_len_bound: "64 \<le> b \<Longrightarrow> n < 2 ^ 62 \<Longrightarrow> ct_len b n < 2 ^ 63"
proof -
  assume b: "64 \<le> b" and n: "n < 2 ^ 62"
  show ?thesis using blocks_bound(1) [OF b n] n by (simp add: ct_len_def)
qed

text \<open>
  The inverse. A length is a valid sealed length when what is left after the header and the whole
  strides is at least one overhead.
\<close>

definition pt_len :: "nat \<Rightarrow> nat \<Rightarrow> nat option" where
  "pt_len b m =
     (if m < 13 \<or> (m - 13) mod (b + 28) < 28 then None
      else Some ((m - 13) div (b + 28) * b + ((m - 13) mod (b + 28) - 28)))"

lemma pt_len_ct_len: "0 < b \<Longrightarrow> pt_len b (ct_len b n) = Some n"
proof -
  assume b: "0 < b"
  have "ct_len b n - 13 = (n mod b + 28) + (b + 28) * (n div b)"
    by (simp add: ct_len_strides mult.commute)
  moreover have "n mod b + 28 < b + 28" using b by simp
  ultimately have "(ct_len b n - 13) mod (b + 28) = n mod b + 28" "(ct_len b n - 13) div (b + 28) = n div b"
    by (simp_all only: mod_mult_self2 mod_less div_mult_self2 div_less)
  then show ?thesis by (simp add: pt_len_def ct_len_def)
qed

lemma ct_len_pt_len:
  assumes b: "0 < b" and "pt_len b m = Some n"
  shows "ct_len b n = m"
proof -
  define q r where "q = (m - 13) div (b + 28)" and "r = (m - 13) mod (b + 28)"
  have m: "13 \<le> m" "28 \<le> r" and n: "n = q * b + (r - 28)"
    using assms(2) by (auto simp: pt_len_def q_def r_def split: if_splits)
  define t where "t = r - 28"
  have "r < b + 28" using b by (simp add: r_def)
  then have "t < b" using m by (simp add: t_def)
  then have "n div b = q" "n mod b = r - 28" using b by (simp_all add: n flip: t_def)
  moreover have "q * (b + 28) + r = m - 13" by (simp only: q_def r_def div_mult_mod_eq)
  ultimately show ?thesis using m by (simp only: ct_len_strides)
qed

lemma unat_plaintext_len:
  assumes f: "frame_ok f"
  shows "plaintext_len f m =
    (case pt_len (bf_block_size f) (unat m) of None \<Rightarrow> Inl Truncated | Some n \<Rightarrow> Inr (word_of_nat n))"
proof -
  let ?b = "bf_block_size f"
  have h: "m < word_of_nat HEADER_LEN \<longleftrightarrow> unat m < 13"
    by (simp add: word_less_nat_alt frame_consts)
  show ?thesis
  proof (cases "unat m < 13")
    case True
    then show ?thesis using h by (simp add: plaintext_len_def pt_len_def)
  next
    case False
    define body where "body = m - word_of_nat HEADER_LEN"
    define q where "q = body div word_of_nat (sealed_block_len f)"
    define r where "r = body mod word_of_nat (sealed_block_len f)"
    have ub: "unat body = unat m - 13"
      unfolding body_def using False by (subst unat_sub_u64) (simp_all add: frame_consts)
    have uq: "unat q = (unat m - 13) div (?b + 28)" and ur: "unat r = (unat m - 13) mod (?b + 28)"
      using f by (simp_all add: q_def r_def unat_div unat_mod ub)
    have r28: "r < word_of_nat BLOCK_OVERHEAD \<longleftrightarrow> unat r < 28"
      by (simp add: word_less_nat_alt frame_consts)
    have "q * word_of_nat ?b + r - word_of_nat BLOCK_OVERHEAD
        = word_of_nat (unat q * ?b + (unat r - 28))" if "28 \<le> unat r"
      using that by (simp add: of_nat_diff frame_consts)
    then show ?thesis
      using False h r28 uq ur
      by (auto simp: plaintext_len_def pt_len_def Let_def simp flip: body_def q_def r_def)
  qed
qed

section \<open>The span that serves a range\<close>

definition ceil_div :: "nat \<Rightarrow> nat \<Rightarrow> nat" where
  "ceil_div a b = (a + b - 1) div b"

lemma ceil_div_cases: "0 < b \<Longrightarrow> ceil_div a b = (if a mod b > 0 then a div b + 1 else a div b)"
proof -
  assume b: "0 < b"
  have a: "a + b - 1 = (a mod b + b - 1) + b * (a div b)" using b mod_mult_div_eq [of a b] by linarith
  have "(a mod b + b - 1) div b = (if a mod b > 0 then 1 else 0)"
  proof (cases "a mod b > 0")
    case True
    have "a mod b + b - 1 = b + (a mod b - 1)" using True by simp
    moreover have "(a mod b - 1) div b = 0"
      using b mod_less_divisor [OF b, of a] by (intro div_less) linarith
    ultimately show ?thesis using True b by (simp only: div_add_self1) simp
  next
    case False
    then show ?thesis using b by simp
  qed
  then have "((a mod b + b - 1) + b * (a div b)) div b = a div b + (if a mod b > 0 then 1 else 0)"
    using b by (simp only: div_mult_self2) 
  then show ?thesis unfolding ceil_div_def by (simp only: a) simp
qed

lemma ceil_div_mult: "0 < b \<Longrightarrow> ceil_div (k * b) b = k"
  by (simp add: ceil_div_cases)

lemma ceil_div_le_iff: "0 < b \<Longrightarrow> ceil_div a b \<le> k \<longleftrightarrow> a \<le> k * b"
proof -
  assume b: "0 < b"
  have "ceil_div a b \<le> k \<longleftrightarrow> (a + b - 1) div b < Suc k" by (simp add: ceil_div_def less_Suc_eq_le)
  also have "\<dots> \<longleftrightarrow> a + b - 1 < Suc k * b" using b by (rule div_less_iff_less_mult)
  also have "\<dots> \<longleftrightarrow> a \<le> k * b" using b by auto
  finally show ?thesis .
qed

lemma ceil_div_mult_le: "ceil_div a b * b \<le> a + b"
proof -
  have "ceil_div a b * b \<le> a + b - 1" unfolding ceil_div_def by (metis div_times_less_eq_dividend)
  then show ?thesis by linarith
qed

lemma ceil_div_ge: "0 < b \<Longrightarrow> a \<le> ceil_div a b * b"
  using ceil_div_le_iff [of b a "ceil_div a b"] by simp

lemma ceil_div_last: "0 < b \<Longrightarrow> 0 < a \<Longrightarrow> ceil_div a b = (a - 1) div b + 1"
proof -
  assume b: "0 < b" and a: "0 < a"
  have "a \<le> k * b \<longleftrightarrow> (a - 1) div b + 1 \<le> k" for k
    using a b less_mult_imp_div_less [of "a - 1" k b] div_less_iff_less_mult [OF b, of "a - 1" k] by (cases a) auto
  then have "ceil_div a b \<le> k \<longleftrightarrow> (a - 1) div b + 1 \<le> k" for k by (simp add: ceil_div_le_iff [OF b])
  then show ?thesis by (metis order.antisym order_refl)
qed

lemma unat_div_ceil:
  assumes "0 < unat b"
  shows "unat (div_ceil a b) = ceil_div (unat a) (unat b)"
proof (cases "a mod b > 0")
  case True
  then have m: "unat a mod unat b > 0" by (simp add: word_less_nat_alt unat_mod)
  have "unat a div unat b < unat a \<or> unat a < unat b \<or> unat b = 1"
    using assms by (cases "unat b = 1") (auto intro: div_less_dividend)
  then have "unat a div unat b + 1 < 2 ^ 64"
    using unat_u64_bound [of a] m by (auto simp: div_less)
  then have "unat (a div b + 1) = unat a div unat b + 1"
    by (subst unat_add_u64) (simp_all add: unat_div)
  then show ?thesis using True m assms by (simp add: div_ceil_def ceil_div_cases)
next
  case False
  then have "unat a mod unat b = 0" by (simp add: word_less_nat_alt unat_mod)
  then show ?thesis using False assms by (simp add: div_ceil_def ceil_div_cases unat_div)
qed

definition span_start :: "nat \<Rightarrow> nat \<Rightarrow> nat" where
  "span_start b s = 13 + s div b * (b + 28)"

definition span_stop :: "nat \<Rightarrow> nat \<Rightarrow> nat \<Rightarrow> nat \<Rightarrow> nat" where
  "span_stop b s e n =
     max (min (13 + max (ceil_div e b) (s div b + 1) * (b + 28)) (ct_len b n)) (span_start b s)"

lemma ceil_div_bound: "64 \<le> b \<Longrightarrow> e < 2 ^ 62 \<Longrightarrow> ceil_div e b < 2 ^ 57"
proof -
  assume "64 \<le> b" "e < 2 ^ 62"
  then have "ceil_div e b \<le> e div b + 1" by (simp add: ceil_div_cases)
  then show ?thesis using blocks_bound(1) [OF \<open>64 \<le> b\<close> \<open>e < 2 ^ 62\<close>] by simp
qed

lemma unat_ciphertext_span:
  assumes f: "frame_ok f" and s: "unat s < 2 ^ 62" and e: "unat e < 2 ^ 62" and n: "unat n < 2 ^ 62"
  shows "unat (fst (ciphertext_span f (s, e) n)) = span_start (bf_block_size f) (unat s)"
    and "unat (snd (ciphertext_span f (s, e) n)) = span_stop (bf_block_size f) (unat s) (unat e) (unat n)"
proof -
  let ?b = "bf_block_size f" and ?B = "word_of_nat (bf_block_size f) :: u64"
    and ?S = "word_of_nat (sealed_block_len f) :: u64"
  have b: "64 \<le> ?b" "?b \<le> 1048576" using frame_ok_block [OF f] by auto
  note bs = blocks_bound [OF b(1) s] and be = ceil_div_bound [OF b(1) e]
  have first: "unat (s div ?B) = unat s div ?b" using f by (simp add: unat_div)
  have m1: "unat (s div ?B * ?S) = unat s div ?b * (?b + 28)"
    using bs f by (subst unat_mult_u64) (simp_all add: first)
  have st: "unat (word_of_nat HEADER_LEN + s div ?B * ?S) = span_start ?b (unat s)"
    using bs by (subst unat_add_u64) (simp_all add: m1 frame_consts span_start_def)
  show "unat (fst (ciphertext_span f (s, e) n)) = span_start ?b (unat s)"
    by (simp add: ciphertext_span_def Let_def st)
  define l where "l = max (div_ceil e ?B) (s div ?B + 1)"
  have "unat (s div ?B + 1) = unat s div ?b + 1"
    using bs(1) by (subst unat_add_u64) (simp_all add: first)
  then have l: "unat l = max (ceil_div (unat e) ?b) (unat s div ?b + 1)"
    using f b by (simp add: l_def unat_max_u64 unat_div_ceil)
  have lb: "unat l \<le> 2 ^ 57" using bs(1) be unfolding l by simp
  have sb: "unat s div ?b * ?b \<le> unat s" by simp
  have "unat l * ?b \<le> max (unat e + ?b) (unat s + ?b)"
    using ceil_div_mult_le [of "unat e" ?b] sb unfolding l nat_mult_max_left distrib_right by linarith
  then have "unat l * ?b \<le> 2 ^ 62 + 1048576"
    using e s b by (simp add: max_def split: if_splits)
  then have lm: "unat l * (?b + 28) \<le> 2 ^ 63 - 13"
    using lb by (simp add: distrib_left)
  then have m2: "unat (l * ?S) = unat l * (?b + 28)"
    using f by (subst unat_mult_u64) simp_all
  have "unat (word_of_nat HEADER_LEN + l * ?S) = 13 + unat l * (?b + 28)"
    using lm by (subst unat_add_u64) (simp_all add: m2 frame_consts)
  then show "unat (snd (ciphertext_span f (s, e) n)) = span_stop ?b (unat s) (unat e) (unat n)"
    by (simp add: ciphertext_span_def Let_def unat_max_u64 unat_min_u64 st span_stop_def
        unat_ciphertext_len [OF f n] l flip: l_def)
qed

end
