(* ===== verification/Block_Open.thy ===== *)
theory Block_Open
  imports Block_Layout
begin

text \<open>
  Reading back what \<open>crypto/frame.rs\<close> sealed: the structure of a sealed object, and what opening a
  span of it returns.
\<close>

section \<open>The blocks of an object\<close>

lemma object_blocks_nth:
  assumes b: "0 < b"
  shows "object_blocks b p = map (\<lambda>i. take b (drop (i * b) p)) [0..<length p div b + 1]"
proof (cases "length p mod b = 0")
  case True
  then obtain q where q: "length p = b * q" by (metis mod_eq_0_iff_dvd dvdE)
  have "(length p + b - 1) div b = q"
    using b ceil_div_mult [OF b, of q] by (simp add: q ceil_div_def mult.commute)
  then show ?thesis
    using True b by (simp add: object_blocks_def chunks_nth q mult.commute)
next
  case False
  then have "(length p + b - 1) div b = length p div b + 1"
    using b ceil_div_cases [OF b, of "length p"] by (simp add: ceil_div_def)
  then show ?thesis
    using False b by (simp add: object_blocks_def chunks_nth)
qed

lemma length_object_blocks: "0 < b \<Longrightarrow> length (object_blocks b p) = length p div b + 1"
  by (simp add: object_blocks_nth)

lemma concat_object_blocks [simp]: "0 < b \<Longrightarrow> concat (object_blocks b p) = p"
  by (simp add: object_blocks_def)

lemma object_block_length:
  assumes b: "0 < b" and i: "i \<le> length p div b"
  shows "length (object_blocks b p ! i) = (if i = length p div b then length p mod b else b)"
proof -
  have nth: "object_blocks b p ! i = take b (drop (i * b) p)"
    using i b by (simp add: object_blocks_nth del: upt_Suc)
  show ?thesis
  proof (cases "i = length p div b")
    case True
    have "length p - i * b = length p mod b" using True by (simp add: minus_div_mult_eq_mod)
    then show ?thesis using True b nth by (simp add: min_def)
  next
    case False
    with i have "Suc i * b \<le> length p div b * b" by (intro mult_le_mono1) simp
    also have "\<dots> \<le> length p" by simp
    finally have "b \<le> length p - i * b" unfolding mult_Suc by linarith
    then show ?thesis using False nth by simp
  qed
qed

section \<open>Pieces that open as blocks\<close>

definition opens_as :: "aead \<Rightarrow> secret_key \<Rightarrow> data_key_id \<Rightarrow> nat \<Rightarrow> nat \<Rightarrow> bytes \<Rightarrow> bytes \<Rightarrow> bool" where
  "opens_as c secret key b i piece block \<longleftrightarrow>
     length piece = length block + 28 \<and> length block \<le> b \<and>
     aead_decrypt c secret (take 12 piece)
       (associated_data key (word_of_nat i) (length block < b)) (drop 12 piece) = Some block"

fun opens_from :: "aead \<Rightarrow> secret_key \<Rightarrow> data_key_id \<Rightarrow> nat \<Rightarrow> nat \<Rightarrow> bytes list \<Rightarrow> bytes list \<Rightarrow> bool" where
  "opens_from c secret key b i [] [] \<longleftrightarrow> True"
| "opens_from c secret key b i (p # ps) (x # xs) \<longleftrightarrow>
     opens_as c secret key b i p x \<and> opens_from c secret key b (Suc i) ps xs"
| "opens_from c secret key b i _ _ \<longleftrightarrow> False"

lemma opens_from_length: "opens_from c secret key b i ps xs \<Longrightarrow> length ps = length xs"
  by (induction c secret key b i ps xs rule: opens_from.induct) auto

lemma opens_from_drop:
  "opens_from c secret key b i ps xs \<Longrightarrow> opens_from c secret key b (i + j) (drop j ps) (drop j xs)"
proof (induction c secret key b i ps xs arbitrary: j rule: opens_from.induct)
  case (2 c secret key b i p ps x xs)
  then show ?case by (cases j) auto
qed auto

lemma opens_from_take:
  "opens_from c secret key b i ps xs \<Longrightarrow> opens_from c secret key b i (take j ps) (take j xs)"
proof (induction c secret key b i ps xs arbitrary: j rule: opens_from.induct)
  case (2 c secret key b i p ps x xs)
  then show ?case by (cases j) auto
qed auto

lemma opens_from_nth_length:
  "opens_from c secret key b i ps xs \<Longrightarrow> j < length ps \<Longrightarrow> length (ps ! j) = length (xs ! j) + 28"
proof (induction c secret key b i ps xs arbitrary: j rule: opens_from.induct)
  case (2 c secret key b i p ps x xs)
  then show ?case by (cases j) (auto simp: opens_as_def)
qed auto

section \<open>Sealing produces them\<close>

lemma seal_piece_opens:
  assumes c: "aead_correct c" and r: "entropy_sized r" and s: "length secret = 32" and x: "length x \<le> b"
    and eq: "seal_piece c secret key x (word_of_nat i) (length x < b) r = (Inr piece, r')"
  shows "opens_as c secret key b i piece x" and "entropy_sized r'"
proof -
  let ?aad = "associated_data key (word_of_nat i) (length x < b)"
  from eq obtain nonce ct where n: "source r (drawn r) NONCE_LEN = Some nonce"
    and ct: "aead_encrypt c secret nonce ?aad x = Some ct" and p: "piece = nonce @ ct"
    and r': "r' = r\<lparr>drawn := Suc (drawn r)\<rparr>"
    by (auto simp: seal_piece_def fill_def split: option.splits)
  have len: "length nonce = 12" using r n by (auto simp: entropy_sized_def NONCE_LEN_def)
  obtain ct' where "aead_encrypt c secret nonce ?aad x = Some ct'" "length ct' = length x + 16"
    "aead_decrypt c secret nonce ?aad ct' = Some x"
    using aead_correctD [OF c s len] by metis
  with ct p len x show "opens_as c secret key b i piece x" by (simp add: opens_as_def)
  show "entropy_sized r'" using r by (simp add: r')
qed

lemma seal_chunks_opens:
  assumes "aead_correct c" and "length secret = 32" and "entropy_sized r"
    and "seal_chunks c secret key final i xs r out = (Inr res, r')"
    and "\<forall>j < length xs. length (xs ! j) \<le> b \<and> (length (xs ! j) < b \<longleftrightarrow> i + j = final)"
  shows "\<exists>ps. res = out @ concat ps \<and> opens_from c secret key b i ps xs"
  using assms(3-)
proof (induction xs arbitrary: i r out)
  case Nil
  then show ?case by (intro exI [of _ "[]"]) simp
next
  case (Cons x xs)
  from Cons.prems(2) obtain piece r1
    where 1: "seal_piece c secret key x (word_of_nat i) (i = final) r = (Inr piece, r1)"
      and 2: "seal_chunks c secret key final (Suc i) xs r1 (out @ piece) = (Inr res, r')"
    by (auto split: prod.splits sum.splits)
  have x: "length x \<le> b" "(i = final) = (length x < b)" using Cons.prems(3) by (auto dest: spec [of _ 0])
  note piece = seal_piece_opens [OF assms(1) Cons.prems(1) assms(2) x(1) 1 [unfolded x(2)]]
  have rest: "\<forall>j < length xs. length (xs ! j) \<le> b \<and> (length (xs ! j) < b \<longleftrightarrow> Suc i + j = final)"
  proof (intro allI impI)
    fix j assume "j < length xs"
    then show "length (xs ! j) \<le> b \<and> (length (xs ! j) < b \<longleftrightarrow> Suc i + j = final)"
      using Cons.prems(3) [rule_format, of "Suc j"] by simp
  qed
  obtain ps where "res = (out @ piece) @ concat ps" "opens_from c secret key b (Suc i) ps xs"
    using Cons.IH [OF piece(2) 2 rest] by blast
  then show ?case using piece(1) by (intro exI [of _ "piece # ps"]) simp
qed

text \<open>What a sealed object is: the header, then pieces that open as the blocks of its plaintext.\<close>

definition sealed_object :: "aead \<Rightarrow> block_frame \<Rightarrow> bytes \<Rightarrow> bytes list \<Rightarrow> bytes \<Rightarrow> bool" where
  "sealed_object c f p pieces sealed \<longleftrightarrow>
     sealed = header f @ concat pieces \<and>
     (\<exists>secret. map_of (bf_keys f) (bf_current f) = Some secret \<and> length secret = 32 \<and>
        opens_from c secret (bf_current f) (bf_block_size f) 0 pieces (object_blocks (bf_block_size f) p))"

lemma seal_sealed_object:
  assumes f: "frame_ok f" and c: "aead_correct c" and r: "entropy_sized r"
    and eq: "seal c f p r = (Inr sealed, r')"
  obtains pieces where "sealed_object c f p pieces sealed"
proof -
  let ?b = "bf_block_size f"
  have b: "0 < ?b" using f by (rule frame_ok_block)
  have cur: "bf_current f \<in> set (btree_keys (bf_keys f))" using f by (simp add: frame_ok_def)
  obtain secret where s: "map_of (bf_keys f) (bf_current f) = Some secret" "length secret = 32"
    "frame_cipher f (bf_current f) = Inr secret"
    using frame_ok_cipher [OF f cur] by blast
  have l: "length (object_blocks ?b p) - 1 = length p div ?b" using b by (simp add: length_object_blocks)
  have lens: "\<forall>j < length (object_blocks ?b p). length (object_blocks ?b p ! j) \<le> ?b \<and>
      (length (object_blocks ?b p ! j) < ?b \<longleftrightarrow> 0 + j = length p div ?b)"
    using b by (auto simp: length_object_blocks object_block_length less_Suc_eq_le)
  have "seal_chunks c secret (bf_current f) (length p div ?b) 0 (object_blocks ?b p) r (header f) = (Inr sealed, r')"
    using eq s(3) l by (simp add: seal_def Let_def)
  from seal_chunks_opens [OF c s(2) r this lens] that show ?thesis
    using s by (auto simp: sealed_object_def)
qed

text \<open>Sealing answers: with a total random source nothing is left that could fail.\<close>

lemma seal_chunks_total:
  assumes "aead_correct c" and "length secret = 32" and "entropy_sized r" and "entropy_total r"
  shows "\<exists>res r'. seal_chunks c secret key final i xs r out = (Inr res, r')"
  using assms(3,4)
proof (induction xs arbitrary: i r out)
  case Nil
  then show ?case by simp
next
  case (Cons x xs)
  obtain nonce where n: "source r (drawn r) NONCE_LEN = Some nonce" "length nonce = 12"
    using Cons.prems unfolding entropy_total_def entropy_sized_def NONCE_LEN_def by metis
  obtain ct where ct: "aead_encrypt c secret nonce (associated_data key (word_of_nat i) (i = final)) x = Some ct"
    using aead_correctD [OF assms(1,2) n(2)] by metis
  show ?case
    using Cons.IH [of "r\<lparr>drawn := Suc (drawn r)\<rparr>"] Cons.prems n ct
    by (simp add: seal_piece_def fill_def)
qed

lemma seal_total:
  assumes "frame_ok f" and "aead_correct c" and "entropy_sized r" and "entropy_total r"
  obtains sealed r' where "seal c f p r = (Inr sealed, r')"
proof -
  have "bf_current f \<in> set (btree_keys (bf_keys f))" using assms(1) by (simp add: frame_ok_def)
  then obtain secret where s: "length secret = 32" "frame_cipher f (bf_current f) = Inr secret"
    using frame_ok_cipher [OF assms(1)] by blast
  show ?thesis
    using seal_chunks_total [OF assms(2) s(1) assms(3,4)] s(2) that
    unfolding seal_def Let_def by (metis sum.simps(6))
qed

section \<open>The part of a stream inside a range\<close>

definition window :: "nat \<Rightarrow> nat \<Rightarrow> nat \<Rightarrow> 'a list \<Rightarrow> 'a list" where
  "window s e off xs = take (e - max s off) (drop (s - off) xs)"

lemma window_Nil [simp]: "window s e off [] = []"
  by (simp add: window_def)

lemma window_append:
  "window s e off (xs @ ys) = window s e off xs @ window s e (off + length xs) ys"
proof (cases "off \<le> s")
  case True
  then have "e - max s off - (length xs - (s - off)) = e - max s (off + length xs)"
    and "s - off - length xs = s - (off + length xs)" by auto
  then show ?thesis by (simp add: window_def)
next
  case False
  then have "e - max s off - length xs = e - max s (off + length xs)"
    and "s - (off + length xs) = 0" and "s - off = 0" by auto
  then show ?thesis by (simp add: window_def)
qed

lemma window_cut:
  "max s off < min e (off + length xs) \<Longrightarrow>
     cut (max s off - off) (min e (off + length xs) - off) xs = window s e off xs"
proof -
  assume "max s off < min e (off + length xs)"
  then have "max s off - off = s - off" by auto
  moreover have "take (min e (off + length xs) - off - (s - off)) (drop (s - off) xs)
      = take (e - max s off) (drop (s - off) xs)"
  proof (cases "e \<le> off + length xs")
    case True
    then have "min e (off + length xs) - off - (s - off) = e - max s off" by auto
    then show ?thesis by simp
  next
    case False
    then have "length (drop (s - off) xs) \<le> min e (off + length xs) - off - (s - off)"
      and "length (drop (s - off) xs) \<le> e - max s off" by auto
    then show ?thesis by simp
  qed
  ultimately show ?thesis by (simp add: cut_def window_def)
qed

lemma window_empty: "\<not> max s off < min e (off + length xs) \<Longrightarrow> window s e off xs = []"
  by (auto simp: window_def max_def min_def split: if_splits)

lemma window_drop:
  "e \<le> off + length xs \<Longrightarrow> off \<le> s \<Longrightarrow> window s e off xs = cut (s - off) (e - off) xs"
  by (simp add: window_def cut_def max_def)

section \<open>Opening them\<close>

lemma open_loop_window:
  assumes "opens_from c secret key b k ps xs" and "off + length (concat xs) < 2 ^ 64"
  shows "open_loop c secret key (b + 28) wanted (word_of_nat k) (word_of_nat off) ps acc
    = Inr (acc @ window (unat (fst wanted)) (unat (snd wanted)) off (concat xs))"
  using assms
proof (induction c secret key b k ps xs arbitrary: off acc rule: opens_from.induct)
  case (2 c secret key b k p ps x xs)
  let ?s = "unat (fst wanted)" and ?e = "unat (snd wanted)"
  have p: "length p = length x + 28" "length x \<le> b"
    "aead_decrypt c secret (take 12 p) (associated_data key (word_of_nat k) (length x < b)) (drop 12 p) = Some x"
    using "2.prems"(1) by (auto simp: opens_as_def)
  have bound: "off + length x + length (concat xs) < 2 ^ 64" using "2.prems"(2) by simp
  define bend where "bend = (word_of_nat off + word_of_nat (length x) :: u64)"
  have off: "unat (word_of_nat off :: u64) = off" using bound by simp
  have bend: "bend = word_of_nat (off + length x)" by (simp add: bend_def)
  have ubend: "unat bend = off + length x" unfolding bend using bound by (intro unat_of_nat_u64) simp
  have kept: "(if max (fst wanted) (word_of_nat off) < min (snd wanted) bend
      then cut (unat (max (fst wanted) (word_of_nat off) - word_of_nat off))
             (unat (min (snd wanted) bend - word_of_nat off)) x
      else []) = window ?s ?e off x"
  proof (cases "max ?s off < min ?e (off + length x)")
    case True
    then have "max (fst wanted) (word_of_nat off) < min (snd wanted) bend"
      by (simp add: word_less_nat_alt unat_max_u64 unat_min_u64 off ubend del: of_nat_add)
    moreover have "unat (max (fst wanted) (word_of_nat off) - word_of_nat off) = max ?s off - off"
      by (subst unat_sub_u64) (simp_all add: unat_max_u64 off)
    moreover have "unat (min (snd wanted) bend - word_of_nat off) = min ?e (off + length x) - off"
      using True by (subst unat_sub_u64) (simp_all add: unat_min_u64 off ubend)
    ultimately show ?thesis using window_cut [OF True] by simp
  next
    case False
    then have "\<not> max (fst wanted) (word_of_nat off) < min (snd wanted) bend"
      by (simp add: word_less_nat_alt unat_max_u64 unat_min_u64 off ubend del: of_nat_add)
    then show ?thesis using window_empty [OF False] by (simp only: if_False)
  qed
  have rest: "open_loop c secret key (b + 28) wanted (word_of_nat k + 1) bend ps (acc @ window ?s ?e off x)
      = Inr ((acc @ window ?s ?e off x) @ window ?s ?e (off + length x) (concat xs))"
    using "2.IH" [of "off + length x" "acc @ window ?s ?e off x"] "2.prems"(1) bound
    by (simp add: bend add.commute)
  show ?case
    using p rest kept by (simp add: Let_def frame_consts window_append flip: bend_def)
qed auto

lemma window_past [simp]: "e \<le> off \<Longrightarrow> window s e off xs = []"
  by (simp add: window_def)

section \<open>Reading a range of a sealed object\<close>

text \<open>
  A frame reads what another one sealed when it is built for the same block size and holds the key
  the other one seals with: the case of a rotated keyring.
\<close>

definition reads_from :: "block_frame \<Rightarrow> block_frame \<Rightarrow> bool" where
  "reads_from g f \<longleftrightarrow>
     bf_block_size g = bf_block_size f \<and> btree_ok (bf_keys g) \<and>
     map_of (bf_keys g) (bf_current f) = map_of (bf_keys f) (bf_current f)"

lemma reads_from_refl: "frame_ok f \<Longrightarrow> reads_from f f"
  by (simp add: reads_from_def frame_ok_def)

lemma length_header [simp]: "length (header f) = 13"
  by (simp add: header_def MAGIC_def)

lemma read_header_sealed:
  assumes f: "frame_ok f" and g: "reads_from g f" and k: "map_of (bf_keys f) (bf_current f) \<noteq> None"
  shows "read_header g (header f @ rest) = Inr \<lparr>framing_block_size = bf_block_size f, framing_key = bf_current f\<rparr>"
proof -
  let ?h = "header f @ rest"
  have b: "bf_block_size f < 2 ^ 32" using frame_ok_block [OF f] by simp
  have "take 4 ?h = MAGIC" "?h ! 4 = FRAME_VERSION"
    by (simp_all add: header_def MAGIC_def)
  moreover have "cut 5 9 ?h = le32 (word_of_nat (bf_block_size f))"
    "cut 9 13 ?h = le32 (key_id_get (bf_current f))"
    by (simp_all add: header_def MAGIC_def cut_def)
  moreover have "unat (word_of_nat (bf_block_size f) :: u32) = bf_block_size f"
    using b by (simp add: unat_of_nat)
  moreover have "bf_current f \<in> set (btree_keys (bf_keys g))"
    using g k btree.keys_get [of "bf_keys g"] by (auto simp: reads_from_def)
  moreover have "block_size_new (bf_block_size f) = Inr (bf_block_size f)" using f by (simp add: frame_ok_def)
  ultimately show ?thesis using g by (simp add: read_header_def reads_from_def HEADER_LEN_def)
qed

text \<open>Any run of pieces but the final one is a run of full strides, so \<open>chunks\<close> finds them again.\<close>

lemma object_pieces_length:
  assumes b: "0 < b" and o: "opens_from c secret key b 0 ps (object_blocks b p)"
  shows "length ps = length p div b + 1"
    and "i < length p div b \<Longrightarrow> length (ps ! i) = b + 28"
    and "length (ps ! (length p div b)) = length p mod b + 28"
proof -
  show l: "length ps = length p div b + 1"
    using opens_from_length [OF o] b by (simp add: length_object_blocks)
  show "i < length p div b \<Longrightarrow> length (ps ! i) = b + 28"
    using opens_from_nth_length [OF o, of i] l b by (simp add: object_block_length)
  show "length (ps ! (length p div b)) = length p mod b + 28"
    using opens_from_nth_length [OF o, of "length p div b"] l b by (simp add: object_block_length)
qed

lemma object_pieces_run:
  assumes b: "0 < b" and o: "opens_from c secret key b 0 ps (object_blocks b p)"
  shows "chunks (b + 28) (concat (take m (drop q ps))) = take m (drop q ps)"
proof (rule chunks_of_pieces)
  note len = object_pieces_length [OF b o]
  have full: "i < length (take m (drop q ps)) \<Longrightarrow>
      length (take m (drop q ps) ! i) = (if q + i = length p div b then length p mod b + 28 else b + 28)" for i
    using len by auto
  show "\<forall>x \<in> set (butlast (take m (drop q ps))). length x = b + 28"
  proof
    fix x assume "x \<in> set (butlast (take m (drop q ps)))"
    then obtain i where i: "i < length (take m (drop q ps)) - 1" and "x = take m (drop q ps) ! i"
      by (metis in_set_conv_nth length_butlast nth_butlast)
    moreover have "q + i \<noteq> length p div b" using i(1) len(1) by auto
    ultimately show "length x = b + 28" using full [of i] by (metis less_imp_diff_less less_trans nat_neq_iff not_less_eq Suc_pred')
  qed
  assume "take m (drop q ps) \<noteq> []"
  then have "last (take m (drop q ps)) \<in> set (take m (drop q ps))" by (rule last_in_set)
  then obtain i where "i < length (take m (drop q ps))" "last (take m (drop q ps)) = take m (drop q ps) ! i"
    by (metis in_set_conv_nth)
  then have "28 \<le> length (last (take m (drop q ps))) \<and> length (last (take m (drop q ps))) \<le> b + 28"
    using full [of i] b by (simp only:) (auto simp: less_imp_le split: if_splits)
  then show "last (take m (drop q ps)) \<noteq> [] \<and> length (last (take m (drop q ps))) \<le> b + 28"
    by auto
qed (use b in simp)

lemma open_span_run:
  assumes g: "frame_ok g" and key: "map_of (bf_keys g) key = Some secret" "length secret = 32"
    and o: "opens_from c secret key (bf_block_size g) 0 ps (object_blocks (bf_block_size g) p)"
    and p: "length p < 2 ^ 62" and q: "q \<le> length p div bf_block_size g"
    and w: "s \<le> e" "e \<le> length p"
    and res: "length (window s e (q * bf_block_size g)
                (concat (take m (drop q (object_blocks (bf_block_size g) p))))) = e - s"
    and st: "unat start = 13 + q * (bf_block_size g + 28)" and fr: "framing_key fr = key"
  shows "open_span c g (concat (take m (drop q ps))) (start, stop) (word_of_nat s, word_of_nat e) fr
    = Inr (window s e (q * bf_block_size g) (concat (take m (drop q (object_blocks (bf_block_size g) p)))))"
proof -
  let ?b = "bf_block_size g" and ?xs = "object_blocks (bf_block_size g) p"
  have b: "0 < ?b" using g by (rule frame_ok_block)
  have b2: "64 \<le> ?b" using g by (rule frame_ok_block)
  have cipher: "frame_cipher g key = Inr secret" using key by (simp add: frame_cipher_def aes_key_len_def)
  have sub: "unat (start - word_of_nat HEADER_LEN) = q * (?b + 28)"
    using st by (subst unat_sub_u64) (simp_all add: frame_consts)
  have "unat (word_of_nat HEADER_LEN :: u64) = 13" by (simp add: frame_consts)
  then have guard1: "\<not> start < word_of_nat HEADER_LEN" using st by (simp add: word_less_nat_alt)
  have "unat ((start - word_of_nat HEADER_LEN) mod word_of_nat (sealed_block_len g)) = 0"
    using g by (simp add: unat_mod sub)
  then have guard2: "(start - word_of_nat HEADER_LEN) mod word_of_nat (sealed_block_len g) = 0"
    by (simp only: unat_eq_0)
  have "q < 2 ^ 56" using q blocks_bound(1) [OF b2 p] by linarith
  then have "unat ((start - word_of_nat HEADER_LEN) div word_of_nat (sealed_block_len g)) = unat (word_of_nat q :: u64)"
    using g by (simp add: unat_div sub)
  then have first: "(start - word_of_nat HEADER_LEN) div word_of_nat (sealed_block_len g) = word_of_nat q"
    by (simp only: word_unat_eq_iff)
  have full: "\<forall>x \<in> set (take q ?xs). length x = ?b"
    using q b by (auto simp: in_set_conv_nth length_object_blocks object_block_length)
  have "q \<le> length ?xs" using q b by (simp add: length_object_blocks)
  with full have taken: "length (concat (take q ?xs)) = q * ?b"
    by (rule concat_cut(3))
  have eq: "concat ?xs = concat (take q ?xs) @ concat (take m (drop q ?xs)) @ concat (drop m (drop q ?xs))"
    by (rule concat_split)
  have "length p = length (concat (take q ?xs)) +
      (length (concat (take m (drop q ?xs))) + length (concat (drop m (drop q ?xs))))"
    using arg_cong [OF eq, of length] b by (simp only: length_append concat_object_blocks)
  then have "q * ?b + length (concat (take m (drop q ?xs))) \<le> length p" using taken by linarith
  then have bound: "q * ?b + length (concat (take m (drop q ?xs))) < 2 ^ 64" using p by simp
  have ofr: "opens_from c secret key ?b q (take m (drop q ps)) (take m (drop q ?xs))"
    using opens_from_take [OF opens_from_drop [OF o, of q], of m] by simp
  have "open_loop c secret key (?b + 28) (word_of_nat s, word_of_nat e) (word_of_nat q)
      (word_of_nat (q * ?b)) (take m (drop q ps)) [] = Inr (window s e (q * ?b) (concat (take m (drop q ?xs))))"
    using open_loop_window [OF ofr bound, of "(word_of_nat s, word_of_nat e)" "[]"] w p by simp
  moreover have "(word_of_nat q * word_of_nat ?b :: u64) = word_of_nat (q * ?b)" by simp
  moreover have "word_of_nat (e - s) = (word_of_nat e - word_of_nat s :: u64)" using w by (simp add: of_nat_diff)
  ultimately show ?thesis
    using cipher guard1 guard2 first fr res object_pieces_run [OF b o, of m q]
    by (simp add: open_span_def Let_def sealed_block_len_def frame_consts del: of_nat_mult of_nat_add)
qed

lemma length_pieces_prefix:
  assumes b: "0 < b" and o: "opens_from c secret key b 0 ps (object_blocks b p)" and l: "l \<le> length p div b + 1"
  shows "13 + length (concat (take l ps)) = min (13 + l * (b + 28)) (ct_len b (length p))"
proof -
  note len = object_pieces_length [OF b o]
  let ?q = "length p div b"
  have short: "length (concat (take k ps)) = k * (b + 28)" if "k \<le> ?q" for k
    by (rule concat_cut(3)) (use that len in \<open>auto simp: in_set_conv_nth\<close>)
  have m: "length p mod b < b" using b by simp
  show ?thesis
  proof (cases "l \<le> ?q")
    case True
    then have "l * (b + 28) \<le> ?q * (b + 28)" by (rule mult_le_mono1)
    then show ?thesis using short [OF True] unfolding ct_len_strides by linarith
  next
    case False
    then have "l = Suc ?q" using l by simp
    then have "take l ps = take ?q ps @ [ps ! ?q]"
      using len(1) by (simp only: take_Suc_conv_app_nth)
    then have "length (concat (take l ps)) = ?q * (b + 28) + (length p mod b + 28)"
      using short [of ?q] len(3) by simp
    then show ?thesis using \<open>l = Suc ?q\<close> m by (simp add: ct_len_strides)
  qed
qed

lemma range_last_block:
  assumes b: "0 < b" and "s < e" and "e \<le> n"
  shows "s div b < ceil_div e b" and "ceil_div e b \<le> n div b + 1"
proof -
  have "\<not> e \<le> s div b * b" using assms(2) by (metis div_times_less_eq_dividend le_trans not_le)
  then show "s div b < ceil_div e b" using ceil_div_le_iff [OF b, of e "s div b"] by linarith
  have "n \<le> (n div b + 1) * b" using b by (simp add: dividend_less_div_times less_imp_le add.commute)
  with assms(3) show "ceil_div e b \<le> n div b + 1" using ceil_div_le_iff [OF b] le_trans by blast
qed

lemma window_object:
  assumes b: "0 < b" and w: "s < e" "e \<le> length p"
  shows "window s e (s div b * b) (concat (take (ceil_div e b - s div b) (drop (s div b) (object_blocks b p)))) = cut s e p"
proof -
  let ?xs = "object_blocks b p" and ?q = "s div b" and ?m = "ceil_div e b - s div b"
  note ql = range_last_block [OF b w]
  have len: "length ?xs = length p div b + 1" using b by (rule length_object_blocks)
  have full: "i < length p div b \<Longrightarrow> length (?xs ! i) = b" for i using b by (simp add: object_block_length)
  have "concat (drop ?q ?xs) = drop (?q * b) (concat ?xs)"
    by (rule concat_cut(2) [symmetric]) (use ql len full in \<open>auto simp: in_set_conv_nth\<close>)
  then have tail: "concat (drop ?q ?xs) = drop (?q * b) p" using b by simp
  have split: "concat (drop ?q ?xs) = concat (take ?m (drop ?q ?xs)) @ concat (drop ?m (drop ?q ?xs))"
    by (simp del: drop_drop flip: concat_append)
  have reach: "e \<le> ?q * b + length (concat (take ?m (drop ?q ?xs)))"
  proof (cases "ceil_div e b = length p div b + 1")
    case True
    then have "take ?m (drop ?q ?xs) = drop ?q ?xs" using len by simp
    then show ?thesis using tail w by simp
  next
    case False
    have "length (concat (take ?m (drop ?q ?xs))) = ?m * b"
      by (rule concat_cut(3)) (use ql len full False in \<open>auto simp: in_set_conv_nth\<close>)
    then have "?q * b + length (concat (take ?m (drop ?q ?xs))) = ceil_div e b * b"
      using ql(1) by (simp flip: distrib_right)
    then show ?thesis using ceil_div_ge [OF b, of e] by simp
  qed
  have qs: "?q * b \<le> s" by simp
  have "window s e (?q * b) (drop (?q * b) p) = cut s e p"
  proof -
    have "max s (?q * b) = s" using qs by (rule max.absorb1)
    then show ?thesis using qs by (simp add: window_def cut_def)
  qed
  then show ?thesis
    using window_append [of s e "?q * b" "concat (take ?m (drop ?q ?xs))" "concat (drop ?m (drop ?q ?xs))"]
      window_past [OF reach] tail split by simp
qed

text \<open>
  Reading needs no more of the object than the header and the blocks up to the last one the range
  touches: the bytes after them are not looked at.
\<close>

lemma read_prefix:
  assumes f: "frame_ok f" and g: "frame_ok g" "reads_from g f" and obj: "sealed_object c f p pieces sealed"
    and p: "length p < 2 ^ 62" and w: "s < e" "e \<le> length p" and n: "n < 2 ^ 62"
    and pre: "take (13 + length (concat (take (ceil_div e (bf_block_size f)) pieces))) stored
                = header f @ concat (take (ceil_div e (bf_block_size f)) pieces)"
    and stop: "span_stop (bf_block_size f) s e n = 13 + length (concat (take (ceil_div e (bf_block_size f)) pieces))"
    and span: "span = ciphertext_span g (word_of_nat s, word_of_nat e) (word_of_nat n)"
    and fr: "fr = \<lparr>framing_block_size = bf_block_size f, framing_key = bf_current f\<rparr>"
  shows "read_header g (take 13 stored) = Inr fr"
    and "open_span c g (cut (unat (fst span)) (unat (snd span)) stored) span (word_of_nat s, word_of_nat e) fr
           = Inr (cut s e p)"
proof -
  let ?b = "bf_block_size f" and ?q = "s div bf_block_size f" and ?l = "ceil_div e (bf_block_size f)"
  have bg: "bf_block_size g = ?b" using g(2) by (simp add: reads_from_def)
  have b: "0 < ?b" using f by (rule frame_ok_block)
  obtain secret where key: "map_of (bf_keys f) (bf_current f) = Some secret" "length secret = 32"
    and o: "opens_from c secret (bf_current f) ?b 0 pieces (object_blocks ?b p)"
    using obj by (auto simp: sealed_object_def)
  have keyg: "map_of (bf_keys g) (bf_current f) = Some secret" using g(2) key by (simp add: reads_from_def)
  note len = object_pieces_length [OF b o] and ql = range_last_block [OF b w]
  have "take 13 stored = take 13 (take (13 + length (concat (take ?l pieces))) stored)" by simp
  also have "\<dots> = header f" by (simp only: pre) simp
  finally show "read_header g (take 13 stored) = Inr fr"
    using read_header_sealed [OF f g(2), of "[]"] key fr by simp
  have us: "unat (word_of_nat s :: u64) = s" "unat (word_of_nat e :: u64) = e" "unat (word_of_nat n :: u64) = n"
    using w p n by simp_all
  have st: "unat (fst span) = 13 + ?q * (?b + 28)" "unat (snd span) = 13 + length (concat (take ?l pieces))"
    using unat_ciphertext_span [OF g(1), of "word_of_nat s" "word_of_nat e" "word_of_nat n"] w p n stop
    by (simp_all add: span us bg span_start_def)
  have full: "\<forall>x \<in> set (take ?q (take ?l pieces)). length x = ?b + 28"
    using ql len by (auto simp: in_set_conv_nth)
  have "cut (unat (fst span)) (unat (snd span)) stored = drop (?q * (?b + 28)) (concat (take ?l pieces))"
    by (simp add: cut_eq_drop_take st pre)
  also have "\<dots> = concat (drop ?q (take ?l pieces))"
    by (rule concat_cut(2) [OF full]) (use ql len in simp)
  finally have bytes: "cut (unat (fst span)) (unat (snd span)) stored = concat (take (?l - ?q) (drop ?q pieces))"
    by (simp add: drop_take)
  have win: "window s e (?q * ?b) (concat (take (?l - ?q) (drop ?q (object_blocks ?b p)))) = cut s e p"
    by (rule window_object [OF b w])
  have "open_span c g (concat (take (?l - ?q) (drop ?q pieces))) (fst span, snd span)
      (word_of_nat s, word_of_nat e) fr = Inr (window s e (?q * ?b) (concat (take (?l - ?q) (drop ?q (object_blocks ?b p)))))"
    using open_span_run [OF g(1) keyg key(2), of c pieces p ?q s e "?l - ?q" "fst span" fr "snd span"]
      o p ql w st win fr by (simp add: bg)
  then show "open_span c g (cut (unat (fst span)) (unat (snd span)) stored) span (word_of_nat s, word_of_nat e) fr
      = Inr (cut s e p)"
    by (simp only: bytes win prod.collapse)
qed

end
