(* ===== verification/Sealed_Store.thy ===== *)
theory Sealed_Store
  imports Block_Open
begin

text \<open>
  \<open>crypto/store.rs\<close>: the object store the on-disk format writes through, which seals on the way down
  and opens on the way up, and the multipart upload that seals whole blocks as they become available.
  The store below it (crate \<open>object_store\<close>) is a parameter: a record of the operations it is called
  through, over a state of any type. Values the layer hands on without looking at them (conditions,
  attributes, put options, put results, the rest of an object's metadata, the inner store's own
  errors) have the type variable \<open>'x\<close>.
\<close>

section \<open>The interface of the inner store\<close>

type_synonym path = string

datatype 'x store_error =
    InnerError 'x
  | CryptoError path frame_error
  | WrappedError "'x store_error"

datatype get_range = Bounded u64 u64 | Offset u64 | Suffix u64

record 'x get_options =
  go_head :: bool
  go_range :: "get_range option"
  go_conditions :: 'x

record 'x object_meta =
  om_location :: path
  om_size :: u64
  om_rest :: 'x

record 'x get_result =
  gr_payload :: bytes
  gr_range :: "u64 \<times> u64"
  gr_attributes :: 'x
  gr_meta :: "'x object_meta"

record 'x list_result =
  lr_objects :: "'x object_meta list"
  lr_prefixes :: "path list"

record ('s, 'u, 'x) object_store =
  os_put :: "path \<Rightarrow> bytes \<Rightarrow> 'x \<Rightarrow> 's \<Rightarrow> ('x store_error + 'x) \<times> 's"
  os_multipart :: "path \<Rightarrow> 'x \<Rightarrow> 's \<Rightarrow> ('x store_error + 'u) \<times> 's"
  os_get :: "path \<Rightarrow> 'x get_options \<Rightarrow> 's \<Rightarrow> 'x store_error + 'x get_result"
  os_get_ranges :: "path \<Rightarrow> (u64 \<times> u64) list \<Rightarrow> 's \<Rightarrow> 'x store_error + bytes list"
  os_delete :: "path list \<Rightarrow> 's \<Rightarrow> ('x store_error + path) list \<times> 's"
  os_list :: "path option \<Rightarrow> 's \<Rightarrow> ('x store_error + 'x object_meta) list"
  os_list_delimited :: "path option \<Rightarrow> 's \<Rightarrow> 'x store_error + 'x list_result"
  os_copy :: "path \<Rightarrow> path \<Rightarrow> 'x \<Rightarrow> 's \<Rightarrow> ('x store_error + unit) \<times> 's"

text \<open>The inner multipart upload, a \<open>dyn MultipartUpload\<close>.\<close>

record ('u, 'x) upload_ops =
  up_put_part :: "bytes \<Rightarrow> 'u \<Rightarrow> ('x store_error + unit) \<times> 'u"
  up_complete :: "'u \<Rightarrow> ('x store_error + 'x) \<times> 'u"
  up_abort :: "'u \<Rightarrow> ('x store_error + unit) \<times> 'u"

section \<open>The encrypting store\<close>

definition crypto_result :: "path \<Rightarrow> frame_error + 'a \<Rightarrow> 'x store_error + 'a" where
  "crypto_result location m = (case m of Inl e \<Rightarrow> Inl (CryptoError location e) | Inr x \<Rightarrow> Inr x)"

lemma crypto_result_simps [simp]:
  "crypto_result l (Inl e) = Inl (CryptoError l e)" "crypto_result l (Inr x) = Inr x"
  by (simp_all add: crypto_result_def)

definition as_plaintext :: "block_frame \<Rightarrow> 'x object_meta \<Rightarrow> 'x store_error + 'x object_meta" where
  "as_plaintext f meta =
     rbind (crypto_result (om_location meta) (plaintext_len f (om_size meta)))
       (\<lambda>size. Inr (meta\<lparr>om_size := size\<rparr>))"

fun wanted_range :: "get_range option \<Rightarrow> u64 \<Rightarrow> u64 \<times> u64" where
  "wanted_range None len = (0, len)"
| "wanted_range (Some (Bounded start stop)) len = (min start len, min stop len)"
| "wanted_range (Some (Offset from)) len = (min from len, len)"
| "wanted_range (Some (Suffix n)) len = (if len < n then 0 else len - n, len)"

text \<open>\<open>put_opts\<close>: the parts of the payload are joined and sealed as one object.\<close>

definition enc_put ::
  "aead \<Rightarrow> block_frame \<Rightarrow> ('s, 'u, 'x) object_store \<Rightarrow> path \<Rightarrow> bytes list \<Rightarrow> 'x \<Rightarrow> 's \<Rightarrow> entropy
   \<Rightarrow> ('x store_error + 'x) \<times> 's \<times> entropy" where
  "enc_put c f os location payload opts s r =
     (case seal c f (concat payload) r of
        (Inl e, r') \<Rightarrow> (Inl (CryptoError location e), s, r')
      | (Inr sealed, r') \<Rightarrow>
          (let (res, s') = os_put os location sealed opts s in (res, s', r')))"

definition enc_get ::
  "aead \<Rightarrow> block_frame \<Rightarrow> ('s, 'u, 'x) object_store \<Rightarrow> path \<Rightarrow> 'x get_options \<Rightarrow> 's
   \<Rightarrow> 'x store_error + 'x get_result" where
  "enc_get c f os location options s =
     (let probe = options\<lparr>go_range := None, go_head := True\<rparr> in
      rbind (os_get os location probe s) (\<lambda>head.
      rbind (as_plaintext f (gr_meta head)) (\<lambda>meta.
      let plaintext_len = om_size meta in
      if go_head options
      then Inr \<lparr>gr_payload = [], gr_range = (0, 0), gr_attributes = gr_attributes head, gr_meta = meta\<rparr>
      else
        let wanted = wanted_range (go_range options) plaintext_len in
        if fst wanted \<ge> snd wanted
        then Inr \<lparr>gr_payload = [], gr_range = wanted, gr_attributes = gr_attributes head, gr_meta = meta\<rparr>
        else
          let span = ciphertext_span f wanted plaintext_len;
              header_span = (0, word_of_nat HEADER_LEN)
          in rbind (os_get_ranges os location [header_span, span] s) (\<lambda>fetched.
             let header = (if 0 < length fetched then fetched ! 0 else []) in
             rbind (crypto_result location (read_header f header)) (\<lambda>framing.
             let sealed = (if 1 < length fetched then fetched ! 1 else []) in
             rbind (crypto_result location (open_span c f sealed span wanted framing)) (\<lambda>plaintext.
             Inr \<lparr>gr_payload = plaintext, gr_range = wanted, gr_attributes = gr_attributes head,
                  gr_meta = meta\<rparr>))))))"

definition enc_delete :: "('s, 'u, 'x) object_store \<Rightarrow> path list \<Rightarrow> 's \<Rightarrow> ('x store_error + path) list \<times> 's" where
  "enc_delete os locations s = os_delete os locations s"

definition enc_list ::
  "block_frame \<Rightarrow> ('s, 'u, 'x) object_store \<Rightarrow> path option \<Rightarrow> 's \<Rightarrow> ('x store_error + 'x object_meta) list" where
  "enc_list f os prefix s =
     map (\<lambda>entry. rbind entry (\<lambda>meta.
            rbind (crypto_result (om_location meta) (plaintext_len f (om_size meta)))
              (\<lambda>size. Inr (meta\<lparr>om_size := size\<rparr>)))) (os_list os prefix s)"

definition enc_list_delimited ::
  "block_frame \<Rightarrow> ('s, 'u, 'x) object_store \<Rightarrow> path option \<Rightarrow> 's \<Rightarrow> 'x store_error + 'x list_result" where
  "enc_list_delimited f os prefix s =
     rbind (os_list_delimited os prefix s) (\<lambda>listing.
       rbind (rmap (as_plaintext f) (lr_objects listing)) (\<lambda>objects.
         Inr (listing\<lparr>lr_objects := objects\<rparr>)))"

definition enc_copy ::
  "('s, 'u, 'x) object_store \<Rightarrow> path \<Rightarrow> path \<Rightarrow> 'x \<Rightarrow> 's \<Rightarrow> ('x store_error + unit) \<times> 's" where
  "enc_copy os from to options s = os_copy os from to options s"

section \<open>The sealing upload\<close>

record 'u sealing_upload =
  su_inner :: 'u
  su_frame :: block_frame
  su_location :: path
  su_pending :: bytes
  su_next_index :: u64
  su_header_sent :: bool

definition sealing_upload_new :: "'u \<Rightarrow> block_frame \<Rightarrow> path \<Rightarrow> 'u sealing_upload" where
  "sealing_upload_new inner f location =
     \<lparr>su_inner = inner, su_frame = f, su_location = location, su_pending = [], su_next_index = 0,
      su_header_sent = False\<rparr>"

definition enc_multipart ::
  "block_frame \<Rightarrow> ('s, 'u, 'x) object_store \<Rightarrow> path \<Rightarrow> 'x \<Rightarrow> 's
   \<Rightarrow> ('x store_error + 'u sealing_upload) \<times> 's" where
  "enc_multipart f os location opts s =
     (case os_multipart os location opts s of
        (Inl e, s') \<Rightarrow> (Inl e, s')
      | (Inr inner, s') \<Rightarrow> (Inr (sealing_upload_new inner f location), s'))"

text \<open>
  The \<open>while\<close> of \<open>drain_full_blocks\<close>. A block leaves the pending bytes before it is sealed, so a failed
  seal has lost it. No block size is zero; the guard only makes the recursion total.
\<close>

function drain_loop ::
  "aead \<Rightarrow> 'u sealing_upload \<Rightarrow> entropy \<Rightarrow> bytes \<Rightarrow> ('x store_error + bytes) \<times> 'u sealing_upload \<times> entropy" where
  "drain_loop c u r out =
     (let block = bf_block_size (su_frame u) in
      if length (su_pending u) \<ge> block \<and> 0 < block then
        (let chunk = take block (su_pending u);
             u1 = u\<lparr>su_pending := drop block (su_pending u)\<rparr>
         in case seal_block c (su_frame u) chunk (su_next_index u) False r of
              (Inl e, r') \<Rightarrow> (Inl (CryptoError (su_location u) e), u1, r')
            | (Inr sealed, r') \<Rightarrow>
                drain_loop c (u1\<lparr>su_next_index := su_next_index u + 1\<rparr>) r' (out @ sealed))
      else (Inr out, u, r))"
  by pat_completeness auto
termination
  by (relation "measure (\<lambda>(c, u, r, out). length (su_pending u))") (auto simp: Let_def)

declare drain_loop.simps [simp del]

definition drain_full_blocks ::
  "aead \<Rightarrow> 'u sealing_upload \<Rightarrow> entropy \<Rightarrow> ('x store_error + bytes) \<times> 'u sealing_upload \<times> entropy" where
  "drain_full_blocks c u r =
     (if \<not> su_header_sent u
      then drain_loop c (u\<lparr>su_header_sent := True\<rparr>) r (header (su_frame u))
      else drain_loop c u r [])"

definition put_part ::
  "aead \<Rightarrow> ('u, 'x) upload_ops \<Rightarrow> bytes list \<Rightarrow> 'u sealing_upload \<Rightarrow> entropy
   \<Rightarrow> ('x store_error + unit) \<times> 'u sealing_upload \<times> entropy" where
  "put_part c ops data u r =
     (case drain_full_blocks c (u\<lparr>su_pending := su_pending u @ concat data\<rparr>) r of
        (Inr sealed, u', r') \<Rightarrow>
          if sealed = [] then (Inr (), u', r')
          else (let (res, inner) = up_put_part ops sealed (su_inner u') in (res, u'\<lparr>su_inner := inner\<rparr>, r'))
      | (Inl e, u', r') \<Rightarrow> (Inl e, u', r'))"

definition complete ::
  "aead \<Rightarrow> ('u, 'x) upload_ops \<Rightarrow> 'u sealing_upload \<Rightarrow> entropy
   \<Rightarrow> ('x store_error + 'x) \<times> 'u sealing_upload \<times> entropy" where
  "complete c ops u r =
     (case drain_full_blocks c u r of
        (Inl e, u', r') \<Rightarrow> (Inl (WrappedError e), u', r')
      | (Inr tail, u', r') \<Rightarrow>
          (let remaining = su_pending u'; u1 = u'\<lparr>su_pending := []\<rparr> in
           case seal_block c (su_frame u1) remaining (su_next_index u1) True r' of
             (Inl e, r2) \<Rightarrow> (Inl (CryptoError (su_location u1) e), u1, r2)
           | (Inr sealed, r2) \<Rightarrow>
               (let u2 = u1\<lparr>su_next_index := su_next_index u1 + 1\<rparr> in
                case up_put_part ops (tail @ sealed) (su_inner u2) of
                  (Inl e, inner) \<Rightarrow> (Inl e, u2\<lparr>su_inner := inner\<rparr>, r2)
                | (Inr _, inner) \<Rightarrow>
                    (let (res, inner') = up_complete ops inner in (res, u2\<lparr>su_inner := inner'\<rparr>, r2)))))"

definition abort :: "('u, 'x) upload_ops \<Rightarrow> 'u sealing_upload \<Rightarrow> ('x store_error + unit) \<times> 'u sealing_upload" where
  "abort ops u = (let (res, inner) = up_abort ops (su_inner u) in (res, u\<lparr>su_inner := inner\<rparr>))"

text \<open>The parts of an upload one after the other, up to the first failure.\<close>

fun put_parts ::
  "aead \<Rightarrow> ('u, 'x) upload_ops \<Rightarrow> bytes list list \<Rightarrow> 'u sealing_upload \<Rightarrow> entropy
   \<Rightarrow> ('x store_error + unit) \<times> 'u sealing_upload \<times> entropy" where
  "put_parts c ops [] u r = (Inr (), u, r)"
| "put_parts c ops (data # rest) u r =
     (case put_part c ops data u r of
        (Inr _, u', r') \<Rightarrow> put_parts c ops rest u' r'
      | (Inl e, u', r') \<Rightarrow> (Inl e, u', r'))"

end
