(* ===== verification/Store_Reads.thy ===== *)
theory Store_Reads
  imports Sealed_Store
begin

text \<open>
  What the encrypting store returns: reading any range of a stored object gives that range of the
  plaintext that was put, and lengths are reported in plaintext terms.
\<close>

section \<open>The contract of the inner store\<close>

text \<open>
  The documented behaviour of an object store the layer relies on, over the contents of its objects:
  a put that succeeds replaces the object whole, a head request that succeeds reports its length,
  ranges inside an object are served as they are, a copy copies.
\<close>

definition store_contract :: "('s, 'u, 'x) object_store \<Rightarrow> ('s \<Rightarrow> path \<Rightarrow> bytes option) \<Rightarrow> bool" where
  "store_contract os contents \<longleftrightarrow>
     (\<forall>l b opts s x s'. os_put os l b opts s = (Inr x, s') \<longrightarrow> contents s' = (contents s)(l \<mapsto> b)) \<and>
     (\<forall>l opts s b res. contents s l = Some b \<longrightarrow> go_head opts \<longrightarrow> go_range opts = None \<longrightarrow>
        os_get os l opts s = Inr res \<longrightarrow> om_size (gr_meta res) = word_of_nat (length b)) \<and>
     (\<forall>l s b rs. contents s l = Some b \<longrightarrow> (\<forall>(i, j) \<in> set rs. i \<le> j \<and> unat j \<le> length b) \<longrightarrow>
        os_get_ranges os l rs s = Inr (map (\<lambda>(i, j). cut (unat i) (unat j) b) rs)) \<and>
     (\<forall>a b opts s s'. os_copy os a b opts s = (Inr (), s') \<longrightarrow> contents s' = (contents s)(b := contents s a))"

lemma contract_put:
  "store_contract os contents \<Longrightarrow> os_put os l b opts s = (Inr x, s') \<Longrightarrow> contents s' = (contents s)(l \<mapsto> b)"
  by (simp add: store_contract_def)

lemma contract_head:
  "store_contract os contents \<Longrightarrow> contents s l = Some b \<Longrightarrow> go_head opts \<Longrightarrow> go_range opts = None \<Longrightarrow>
     os_get os l opts s = Inr res \<Longrightarrow> om_size (gr_meta res) = word_of_nat (length b)"
  by (simp add: store_contract_def)

lemma contract_ranges:
  "store_contract os contents \<Longrightarrow> contents s l = Some b \<Longrightarrow> \<forall>(i, j) \<in> set rs. i \<le> j \<and> unat j \<le> length b \<Longrightarrow>
     os_get_ranges os l rs s = Inr (map (\<lambda>(i, j). cut (unat i) (unat j) b) rs)"
  unfolding store_contract_def by blast

lemma contract_copy:
  "store_contract os contents \<Longrightarrow> os_copy os a b opts s = (Inr (), s') \<Longrightarrow>
     contents s' = (contents s)(b := contents s a)"
  by (simp add: store_contract_def)

section \<open>Objects a frame can read\<close>

definition holds :: "aead \<Rightarrow> block_frame \<Rightarrow> bytes \<Rightarrow> bytes \<Rightarrow> bool" where
  "holds c g p stored \<longleftrightarrow>
     (\<exists>f pieces. frame_ok f \<and> reads_from g f \<and> sealed_object c f p pieces stored \<and> length p < 2 ^ 62)"

lemma seal_holds:
  assumes "frame_ok f" and "aead_correct c" and "entropy_sized r" and "seal c f p r = (Inr sealed, r')"
    and "length p < 2 ^ 62" and "reads_from g f"
  shows "holds c g p sealed"
  using seal_sealed_object [OF assms(1-4)] assms unfolding holds_def by metis

lemma length_sealed_object:
  assumes f: "frame_ok f" and obj: "sealed_object c f p pieces stored"
  shows "length stored = ct_len (bf_block_size f) (length p)"
proof -
  let ?b = "bf_block_size f"
  have b: "0 < ?b" using f by (rule frame_ok_block)
  obtain secret where o: "opens_from c secret (bf_current f) ?b 0 pieces (object_blocks ?b p)"
    and st: "stored = header f @ concat pieces" using obj by (auto simp: sealed_object_def)
  have "take (length p div ?b + 1) pieces = pieces" using object_pieces_length(1) [OF b o] by simp
  then have "13 + length (concat pieces) = min (13 + (length p div ?b + 1) * (?b + 28)) (ct_len ?b (length p))"
    using length_pieces_prefix [OF b o, of "length p div ?b + 1"] by simp
  moreover have "length p mod ?b < ?b" using b by simp
  ultimately show ?thesis by (simp add: st ct_len_strides)
qed

lemma span_stop_within:
  assumes b: "0 < b" and w: "s < e" "e \<le> n"
  shows "span_stop b s e n = min (13 + ceil_div e b * (b + 28)) (ct_len b n)"
    and "span_start b s \<le> span_stop b s e n" and "span_stop b s e n \<le> ct_len b n"
proof -
  note ql = range_last_block [OF b w]
  have "s div b \<le> n div b" using w by (intro div_le_mono) simp
  then have "s div b * (b + 28) \<le> n div b * (b + 28)" by (rule mult_le_mono1)
  then have ct: "span_start b s \<le> ct_len b n" unfolding span_start_def ct_len_strides by linarith
  have "s div b * (b + 28) \<le> ceil_div e b * (b + 28)" using ql by (intro mult_le_mono1) simp
  then have st: "span_start b s \<le> 13 + ceil_div e b * (b + 28)" unfolding span_start_def by linarith
  have "max (ceil_div e b) (s div b + 1) = ceil_div e b" using ql by simp
  with ct st show "span_stop b s e n = min (13 + ceil_div e b * (b + 28)) (ct_len b n)"
    by (simp add: span_stop_def)
  with ct st show "span_start b s \<le> span_stop b s e n" "span_stop b s e n \<le> ct_len b n" by simp_all
qed

lemma plaintext_len_sealed:
  assumes g: "frame_ok g" and h: "holds c g p stored"
  shows "plaintext_len g (word_of_nat (length stored)) = Inr (word_of_nat (length p))"
    and "length stored = ct_len (bf_block_size g) (length p)" and "length p < 2 ^ 62"
proof -
  let ?b = "bf_block_size g"
  obtain f pieces where f: "frame_ok f" "reads_from g f" "sealed_object c f p pieces stored" and p: "length p < 2 ^ 62"
    using h by (auto simp: holds_def)
  have "bf_block_size f = ?b" using f by (simp add: reads_from_def)
  with length_sealed_object [OF f(1,3)] show l: "length stored = ct_len ?b (length p)" by simp
  have "ct_len ?b (length p) < 2 ^ 63" using ct_len_bound frame_ok_block(1) [OF g] p by blast
  then have "unat (word_of_nat (length stored) :: u64) = ct_len ?b (length p)" by (simp add: l)
  then show "plaintext_len g (word_of_nat (length stored)) = Inr (word_of_nat (length p))"
    using unat_plaintext_len [OF g] frame_ok_block(3) [OF g] by (simp add: pt_len_ct_len)
  show "length p < 2 ^ 62" by (rule p)
qed

text \<open>Fetching the header and the span of a stored object and opening them.\<close>

lemma span_read_holds:
  assumes g: "frame_ok g" and h: "holds c g p stored" and w: "s < e" "e \<le> length p"
    and span: "span = ciphertext_span g (word_of_nat s, word_of_nat e) (word_of_nat (length p))"
  obtains fr where "read_header g (take 13 stored) = Inr fr"
    and "open_span c g (cut (unat (fst span)) (unat (snd span)) stored) span (word_of_nat s, word_of_nat e) fr
           = Inr (cut s e p)"
    and "fst span \<le> snd span" and "unat (snd span) \<le> length stored"
proof -
  let ?b = "bf_block_size g"
  obtain f pieces where f: "frame_ok f" "reads_from g f" "sealed_object c f p pieces stored" and p: "length p < 2 ^ 62"
    using h by (auto simp: holds_def)
  have bf: "bf_block_size f = ?b" using f by (simp add: reads_from_def)
  have b: "0 < ?b" using g by (rule frame_ok_block)
  obtain secret where o: "opens_from c secret (bf_current f) ?b 0 pieces (object_blocks ?b p)"
    and st: "stored = header f @ concat pieces" using f(3) by (auto simp: sealed_object_def bf)
  note ss = span_stop_within [OF b w]
  have stop: "span_stop ?b s e (length p) = 13 + length (concat (take (ceil_div e ?b) pieces))"
    using ss(1) length_pieces_prefix [OF b o] range_last_block [OF b w] by simp
  have pre: "take (13 + length (concat (take (ceil_div e ?b) pieces))) stored
      = header f @ concat (take (ceil_div e ?b) pieces)"
  proof -
    have "concat pieces = concat (take (ceil_div e ?b) pieces) @ concat (drop (ceil_div e ?b) pieces)"
      by (simp flip: concat_append)
    then show ?thesis by (simp add: st)
  qed
  note rd = read_prefix [OF f(1) g f(2,3) p w p, unfolded bf, OF pre stop span refl]
  have u: "unat (fst span) = span_start ?b s" "unat (snd span) = span_stop ?b s e (length p)"
    using unat_ciphertext_span [OF g, of "word_of_nat s" "word_of_nat e" "word_of_nat (length p)"] w p
    by (simp_all add: span)
  show ?thesis
    using that [OF rd] u ss plaintext_len_sealed(2) [OF g h] by (simp add: word_le_nat_alt)
qed

text \<open>Stored bytes that read as the plaintext \<open>q\<close>: its length is reported and every range of it can be read.\<close>

definition readable :: "aead \<Rightarrow> block_frame \<Rightarrow> bytes \<Rightarrow> bytes \<Rightarrow> bool" where
  "readable c g q stored \<longleftrightarrow>
     plaintext_len g (word_of_nat (length stored)) = Inr (word_of_nat (length q)) \<and>
     13 \<le> length stored \<and> length q < 2 ^ 62 \<and>
     (\<forall>s e. s < e \<longrightarrow> e \<le> length q \<longrightarrow>
        (let span = ciphertext_span g (word_of_nat s, word_of_nat e) (word_of_nat (length q)) in
         fst span \<le> snd span \<and> unat (snd span) \<le> length stored \<and>
         (\<exists>fr. read_header g (take 13 stored) = Inr fr \<and>
            open_span c g (cut (unat (fst span)) (unat (snd span)) stored) span (word_of_nat s, word_of_nat e) fr
              = Inr (cut s e q))))"

lemma readable_range:
  assumes "readable c g q stored" and "s < e" and "e \<le> length q"
    and "span = ciphertext_span g (word_of_nat s, word_of_nat e) (word_of_nat (length q))"
  obtains fr where "read_header g (take 13 stored) = Inr fr"
    and "open_span c g (cut (unat (fst span)) (unat (snd span)) stored) span (word_of_nat s, word_of_nat e) fr
           = Inr (cut s e q)"
    and "fst span \<le> snd span" and "unat (snd span) \<le> length stored"
  using assms unfolding readable_def by (metis (no_types, lifting))

lemma holds_readable:
  assumes g: "frame_ok g" and h: "holds c g p stored"
  shows "readable c g p stored"
proof -
  have "13 \<le> length stored" using plaintext_len_sealed(2) [OF g h] by (simp add: ct_len_def)
  moreover have "\<exists>fr. read_header g (take 13 stored) = Inr fr \<and>
      open_span c g (cut (unat (fst span)) (unat (snd span)) stored) span (word_of_nat s, word_of_nat e) fr
        = Inr (cut s e p) \<and> fst span \<le> snd span \<and> unat (snd span) \<le> length stored"
    if "s < e" "e \<le> length p" "span = ciphertext_span g (word_of_nat s, word_of_nat e) (word_of_nat (length p))" for s e span
    using span_read_holds [OF g h that] by metis
  ultimately show ?thesis
    using plaintext_len_sealed(1,3) [OF g h] unfolding readable_def Let_def by blast
qed

section \<open>Reading through the store\<close>

lemma wanted_range_within:
  "unat (snd (wanted_range rng len)) \<le> unat len"
  by (cases rng; (cases "the rng")?) (auto simp: unat_min_u64)

text \<open>
  What a reader asks for, said without the encrypting store: the bounds of the bytes of an object of
  \<open>n\<close> bytes, cut at its end, in natural numbers; and the answer a store of plain objects gives.
\<close>

fun asked :: "get_range option \<Rightarrow> nat \<Rightarrow> nat \<times> nat" where
  "asked None n = (0, n)"
| "asked (Some (Bounded start stop)) n = (min (unat start) n, min (unat stop) n)"
| "asked (Some (Offset from)) n = (min (unat from) n, n)"
| "asked (Some (Suffix k)) n = (n - unat k, n)"

definition served :: "'x get_options \<Rightarrow> bytes \<Rightarrow> 'x get_result \<Rightarrow> 'x get_result" where
  "served options p head =
     (let meta = (gr_meta head)\<lparr>om_size := word_of_nat (length p)\<rparr>;
          (start, stop) = asked (go_range options) (length p)
      in if go_head options
         then \<lparr>gr_payload = [], gr_range = (0, 0), gr_attributes = gr_attributes head, gr_meta = meta\<rparr>
         else \<lparr>gr_payload = cut start stop p, gr_range = (word_of_nat start, word_of_nat stop),
               gr_attributes = gr_attributes head, gr_meta = meta\<rparr>)"

lemma wanted_range_asked:
  assumes "n < 2 ^ 64"
  shows "unat (fst (wanted_range rng (word_of_nat n))) = fst (asked rng n) \<and>
    unat (snd (wanted_range rng (word_of_nat n))) = snd (asked rng n)"
proof -
  have n: "unat (word_of_nat n :: u64) = n" using assms by (simp add: unsigned_of_nat take_bit_nat_eq_self)
  show ?thesis
  proof (cases rng)
    case (Some r)
    then show ?thesis
      by (cases r) (auto simp: unat_min_u64 n unat_sub_if' word_less_nat_alt)
  qed (simp add: n)
qed

lemma served_wanted:
  assumes "length p < 2 ^ 62"
  shows "served options p head =
     (let meta = (gr_meta head)\<lparr>om_size := word_of_nat (length p)\<rparr>;
          wanted = wanted_range (go_range options) (word_of_nat (length p))
      in if go_head options
         then \<lparr>gr_payload = [], gr_range = (0, 0), gr_attributes = gr_attributes head, gr_meta = meta\<rparr>
         else \<lparr>gr_payload = cut (unat (fst wanted)) (unat (snd wanted)) p, gr_range = wanted,
               gr_attributes = gr_attributes head, gr_meta = meta\<rparr>)"
proof -
  let ?w = "wanted_range (go_range options) (word_of_nat (length p))"
  have "length p < 2 ^ 64" using assms by simp
  note bounds = wanted_range_asked [OF this, of "go_range options"]
  then have "?w = (word_of_nat (fst (asked (go_range options) (length p))), word_of_nat (snd (asked (go_range options) (length p))))"
    unfolding conjunct1 [OF bounds, symmetric] conjunct2 [OF bounds, symmetric] by simp
  then show ?thesis using bounds by (simp add: served_def Let_def split_beta)
qed

lemma enc_get_readable:
  assumes os: "store_contract os contents" and st: "contents s l = Some stored"
    and h: "readable c g p stored"
  shows "enc_get c g os l options s
    = rbind (os_get os l (options\<lparr>go_range := None, go_head := True\<rparr>) s) (\<lambda>head. Inr (served options p head))"
proof (cases "os_get os l (options\<lparr>go_range := None, go_head := True\<rparr>) s")
  case (Inl e)
  then show ?thesis by (simp add: enc_get_def)
next
  case (Inr head)
  have len: "plaintext_len g (word_of_nat (length stored)) = Inr (word_of_nat (length p))"
    "13 \<le> length stored" "length p < 2 ^ 62" using h by (simp_all add: readable_def)
  have "om_size (gr_meta head) = word_of_nat (length stored)"
    using contract_head [OF os st _ _ Inr] by simp
  then have meta: "as_plaintext g (gr_meta head) = Inr ((gr_meta head)\<lparr>om_size := word_of_nat (length p)\<rparr>)"
    by (simp add: as_plaintext_def len(1))
  define wanted where "wanted = wanted_range (go_range options) (word_of_nat (length p))"
  have wb: "unat (snd wanted) \<le> length p"
    using wanted_range_within [of "go_range options" "word_of_nat (length p)"] len(3) by (simp add: wanted_def)
  show ?thesis
  proof (cases "go_head options \<or> fst wanted \<ge> snd wanted")
    case True
    then have "\<not> go_head options \<Longrightarrow> cut (unat (fst wanted)) (unat (snd wanted)) p = []"
      by (auto simp: cut_def word_le_nat_alt)
    with True show ?thesis
      by (auto simp: enc_get_def Inr meta served_wanted [OF len(3)] Let_def simp flip: wanted_def)
  next
    case False
    then have lt: "unat (fst wanted) < unat (snd wanted)" by (simp add: word_le_nat_alt)
    define span where "span = ciphertext_span g wanted (word_of_nat (length p))"
    have span: "span = ciphertext_span g (word_of_nat (unat (fst wanted)), word_of_nat (unat (snd wanted)))
        (word_of_nat (length p))" by (simp add: span_def)
    obtain fr where fr: "read_header g (take 13 stored) = Inr fr"
      and opn: "open_span c g (cut (unat (fst span)) (unat (snd span)) stored) span wanted fr
        = Inr (cut (unat (fst wanted)) (unat (snd wanted)) p)"
      and rng: "fst span \<le> snd span" "unat (snd span) \<le> length stored"
      using readable_range [OF h lt wb span] by auto
    have fetch: "os_get_ranges os l [(0, word_of_nat HEADER_LEN), span] s
        = Inr [take 13 stored, cut (unat (fst span)) (unat (snd span)) stored]"
      using contract_ranges [OF os st, of "[(0, word_of_nat HEADER_LEN), span]"] rng len(2)
      by (cases span) (simp add: frame_consts cut_def)
    show ?thesis
      using False by (simp add: enc_get_def Inr meta served_wanted [OF len(3)] Let_def fetch fr opn
          flip: wanted_def span_def)
  qed
qed

end
