(* ===== verification/Upload_Stream.thy ===== *)
theory Upload_Stream
  imports Store_Reads
begin

text \<open>
  The multipart upload of \<open>crypto/store.rs\<close> against \<open>BlockFrame::seal\<close>: however an object is cut into
  parts, the upload writes the bytes one call of \<open>seal\<close> would have written.
\<close>

section \<open>Sealing block by block\<close>

lemma seal_chunks_append:
  "seal_chunks c secret key final i (xs @ ys) r out =
     (case seal_chunks c secret key final i xs r out of
        (Inl e, r') \<Rightarrow> (Inl e, r')
      | (Inr mid, r') \<Rightarrow> seal_chunks c secret key final (i + length xs) ys r' mid)"
  by (induction xs arbitrary: i r out) (auto split: prod.splits sum.splits)

lemma seal_chunks_prefix:
  "seal_chunks c secret key final i xs r (pre @ out) =
     (case seal_chunks c secret key final i xs r out of
        (Inl e, r') \<Rightarrow> (Inl e, r')
      | (Inr res, r') \<Rightarrow> (Inr (pre @ res), r'))"
proof (induction xs arbitrary: i r out)
  case (Cons x xs)
  then show ?case by (auto split: prod.splits sum.splits)
qed simp

text \<open>Blocks before the final one are sealed the same whichever block the final one is.\<close>

lemma seal_chunks_final:
  "i + length xs \<le> final \<Longrightarrow> i + length xs \<le> final' \<Longrightarrow>
     seal_chunks c secret key final i xs r out = seal_chunks c secret key final' i xs r out"
proof (induction xs arbitrary: i r out)
  case (Cons x xs)
  then have "i \<noteq> final" "i \<noteq> final'" by auto
  with Cons show ?case by (auto split: prod.splits sum.splits)
qed simp

lemma seal_block_piece:
  "frame_cipher f (bf_current f) = Inr secret \<Longrightarrow>
     seal_block c f x i final r = seal_piece c secret (bf_current f) x i final r"
  by (auto simp: seal_block_def seal_piece_def split: option.splits prod.splits)

section \<open>The full blocks of an object\<close>

definition full_blocks :: "nat \<Rightarrow> bytes \<Rightarrow> bytes list" where
  "full_blocks b p = chunks b (take (length p div b * b) p)"

definition rest_block :: "nat \<Rightarrow> bytes \<Rightarrow> bytes" where
  "rest_block b p = drop (length p div b * b) p"

lemma full_blocks_short: "length p < b \<Longrightarrow> full_blocks b p = []" "length p < b \<Longrightarrow> rest_block b p = p"
  by (simp_all add: full_blocks_def rest_block_def)

lemma full_blocks_step:
  assumes "0 < b" and "b \<le> length p"
  shows "full_blocks b p = take b p # full_blocks b (drop b p)" and "rest_block b p = rest_block b (drop b p)"
proof -
  have q: "length p div b = Suc (length (drop b p) div b)"
    using assms by (simp add: le_div_geq)
  have "take (length p div b * b) p = take b p @ take (length (drop b p) div b * b) (drop b p)"
    by (simp only: q mult_Suc take_add)
  then show "full_blocks b p = take b p # full_blocks b (drop b p)"
    using assms unfolding full_blocks_def by (simp add: chunks_append)
  show "rest_block b p = rest_block b (drop b p)"
    by (simp only: rest_block_def q mult_Suc drop_drop add.commute)
qed

lemma length_rest_block: "0 < b \<Longrightarrow> length (rest_block b p) < b"
proof -
  assume "0 < b"
  then have "length p mod b < b" by simp
  then show ?thesis by (simp add: rest_block_def minus_div_mult_eq_mod)
qed

lemma full_blocks_induct [consumes 1, case_names short step]:
  assumes b: "0 < b" and short: "\<And>p. length p < b \<Longrightarrow> P p"
    and step: "\<And>p. b \<le> length p \<Longrightarrow> P (drop b p) \<Longrightarrow> P p"
  shows "P (p :: 'a list)"
proof (induction "length p" arbitrary: p rule: less_induct)
  case less
  show ?case
  proof (cases "length p < b")
    case False
    with b have "P (drop b p)" by (intro less.hyps) simp
    with False show ?thesis using step [of p] by simp
  qed (rule short)
qed

lemma full_blocks_append:
  assumes "0 < b"
  shows "full_blocks b (p @ q) = full_blocks b p @ full_blocks b (rest_block b p @ q)"
    and "rest_block b (p @ q) = rest_block b (rest_block b p @ q)"
  using assms
proof (induction p rule: full_blocks_induct)
  case (short p)
  { case 1 with short show ?case by (simp add: full_blocks_short) }
  { case 2 with short show ?case by (simp add: full_blocks_short) }
next
  case (step p)
  { case 1 with step show ?case using assms by (simp add: full_blocks_step [of b p] full_blocks_step [of b "p @ q"]) }
  { case 2 with step show ?case using assms by (simp add: full_blocks_step [of b p] full_blocks_step [of b "p @ q"]) }
qed

lemma object_blocks_full:
  assumes "0 < b"
  shows "object_blocks b p = full_blocks b p @ [rest_block b p]"
  using assms
proof (induction p rule: full_blocks_induct)
  case (short p)
  then show ?case
    using assms by (cases "p = []") (auto simp: object_blocks_def full_blocks_short chunks_short)
next
  case (step p)
  have "length p mod b = length (drop b p) mod b"
    using step by (simp add: le_mod_geq)
  moreover have "chunks b p = take b p # chunks b (drop b p)"
    using step assms by (intro chunks_step) auto
  ultimately show ?case
    using step assms by (simp add: object_blocks_def full_blocks_step [of b p])
qed

section \<open>The upload\<close>

text \<open>
  The documented behaviour of the inner upload: a part is appended to what was uploaded, and
  completing keeps it. The inner store's own failures are left to the error branches.
\<close>

definition upload_contract :: "('u, 'x) upload_ops \<Rightarrow> ('u \<Rightarrow> bytes) \<Rightarrow> bool" where
  "upload_contract ops uploaded \<longleftrightarrow>
     (\<forall>part u. \<exists>u'. up_put_part ops part u = (Inr (), u') \<and> uploaded u' = uploaded u @ part) \<and>
     (\<forall>u. \<exists>x u'. up_complete ops u = (Inr x, u') \<and> uploaded u' = uploaded u)"

lemma upload_part:
  assumes "upload_contract ops uploaded"
  obtains u' where "up_put_part ops part u = (Inr (), u')" and "uploaded u' = uploaded u @ part"
  using assms unfolding upload_contract_def by metis

lemma upload_done:
  assumes "upload_contract ops uploaded"
  obtains x u' where "up_complete ops u = (Inr x, u')" and "uploaded u' = uploaded u"
  using assms unfolding upload_contract_def by metis

lemma drain_loop_seals:
  assumes b: "0 < bf_block_size f" and s: "frame_cipher f (bf_current f) = Inr secret"
    and "su_frame u = f" and "su_next_index u = word_of_nat k" and "su_pending u = p"
    and "k + length (full_blocks (bf_block_size f) p) \<le> final"
    and "seal_chunks c secret (bf_current f) final k (full_blocks (bf_block_size f) p) r out = (Inr out', r')"
  shows "drain_loop c u r out = (Inr out',
           u\<lparr>su_pending := rest_block (bf_block_size f) p,
             su_next_index := word_of_nat (k + length (full_blocks (bf_block_size f) p))\<rparr>, r')"
  using b assms(3-7)
proof (induction p arbitrary: u k r out rule: full_blocks_induct)
  case (short p)
  then show ?case by (simp add: full_blocks_short drain_loop.simps Let_def)
next
  case (step p)
  let ?b = "bf_block_size f"
  note fs = full_blocks_step [OF b step.hyps(1)]
  define u1 where "u1 = u\<lparr>su_pending := drop ?b p, su_next_index := su_next_index u + 1\<rparr>"
  from step.prems(5) obtain sealed r1
    where 1: "seal_piece c secret (bf_current f) (take ?b p) (word_of_nat k) (k = final) r = (Inr sealed, r1)"
      and 2: "seal_chunks c secret (bf_current f) final (Suc k) (full_blocks ?b (drop ?b p)) r1 (out @ sealed) = (Inr out', r')"
    by (auto simp: fs split: prod.splits sum.splits)
  have k: "k \<noteq> final" using step.prems(4) by (simp add: fs)
  show ?case
    using step.IH [of u1 "Suc k" r1 "out @ sealed"] step.hyps(1) b 1 2 k step.prems(1-4)
    by (simp add: drain_loop.simps [of c u] Let_def seal_block_piece [OF s] u1_def fs)
qed

text \<open>
  An upload that has taken the bytes \<open>d\<close>: their full blocks have been sealed and handed on behind the
  header, the rest is pending. Before the first part the header has not been sent either.
\<close>

definition upload_at ::
  "aead \<Rightarrow> block_frame \<Rightarrow> secret_key \<Rightarrow> nat \<Rightarrow> entropy \<Rightarrow> ('u \<Rightarrow> bytes) \<Rightarrow> bytes \<Rightarrow> bytes \<Rightarrow> 'u sealing_upload \<Rightarrow> entropy \<Rightarrow> bool"
where
  "upload_at c f secret final r0 uploaded base d u r \<longleftrightarrow>
     su_frame u = f \<and> su_pending u = rest_block (bf_block_size f) d \<and>
     su_next_index u = word_of_nat (length (full_blocks (bf_block_size f) d)) \<and>
     (\<exists>out. seal_chunks c secret (bf_current f) final 0 (full_blocks (bf_block_size f) d) r0 (header f) = (Inr out, r) \<and>
        (if su_header_sent u then uploaded (su_inner u) = base @ out else uploaded (su_inner u) = base \<and> d = []))"

lemma header_sent_update:
  "su_header_sent u \<Longrightarrow> u\<lparr>su_pending := p, su_header_sent := True\<rparr> = u\<lparr>su_pending := p\<rparr>"
  by (cases u) simp

lemma upload_at_drain:
  assumes b: "0 < bf_block_size f" and s: "frame_cipher f (bf_current f) = Inr secret"
    and at: "upload_at c f secret final r0 uploaded base d u r"
    and seal: "seal_chunks c secret (bf_current f) final 0 (full_blocks (bf_block_size f) (d @ x)) r0 (header f) = (Inr out, r')"
    and final: "length (full_blocks (bf_block_size f) (d @ x)) \<le> final"
  obtains tail u' where "(drain_full_blocks c (u\<lparr>su_pending := su_pending u @ x\<rparr>) r :: ('x store_error + bytes) \<times> 'u sealing_upload \<times> entropy) = (Inr tail, u', r')"
    and "uploaded (su_inner u') @ tail = base @ out" and "su_inner u' = su_inner u" and "su_frame u' = f"
    and "su_location u' = su_location u"
    and "su_pending u' = rest_block (bf_block_size f) (d @ x)" and "su_header_sent u'"
    and "su_next_index u' = word_of_nat (length (full_blocks (bf_block_size f) (d @ x)))"
proof -
  let ?b = "bf_block_size f" and ?key = "bf_current f"
  let ?fb = "full_blocks ?b d" and ?nb = "full_blocks ?b (rest_block ?b d @ x)"
  let ?u = "u\<lparr>su_pending := su_pending u @ x, su_header_sent := True\<rparr>"
  note split = full_blocks_append [OF b, of d x]
  from at obtain sealed where u: "su_frame u = f" "su_pending u = rest_block ?b d"
      "su_next_index u = word_of_nat (length ?fb)"
    and sealed: "seal_chunks c secret ?key final 0 ?fb r0 (header f) = (Inr sealed, r)"
    and up: "if su_header_sent u then uploaded (su_inner u) = base @ sealed else uploaded (su_inner u) = base \<and> d = []"
    by (auto simp: upload_at_def)
  have rest: "seal_chunks c secret ?key final (length ?fb) ?nb r sealed = (Inr out, r')"
    using seal by (simp add: split seal_chunks_append sealed)
  define pre where "pre = (if su_header_sent u then sealed else [])"
  define start where "start = (if su_header_sent u then [] else header f)"
  have "sealed = header f" if "\<not> su_header_sent u" using sealed up that b by (simp add: full_blocks_short)
  then have ps: "sealed = pre @ start" "uploaded (su_inner u) = base @ pre" using up by (auto simp: pre_def start_def)
  obtain tail where tail: "seal_chunks c secret ?key final (length ?fb) ?nb r start = (Inr tail, r')" "out = pre @ tail"
    using rest unfolding ps by (auto simp: seal_chunks_prefix split: prod.splits sum.splits)
  have "(drain_loop c ?u r start :: ('x store_error + bytes) \<times> 'u sealing_upload \<times> entropy) = (Inr tail, ?u\<lparr>su_pending := rest_block ?b (rest_block ?b d @ x),
      su_next_index := word_of_nat (length ?fb + length ?nb)\<rparr>, r')"
    by (rule drain_loop_seals [OF b s _ _ _ _ tail(1)]) (use u final in \<open>simp_all add: split\<close>)
  moreover have "(drain_full_blocks c (u\<lparr>su_pending := su_pending u @ x\<rparr>) r :: ('x store_error + bytes) \<times> 'u sealing_upload \<times> entropy) = drain_loop c ?u r start"
    by (cases "su_header_sent u") (simp_all add: drain_full_blocks_def start_def u(1) header_sent_update)
  ultimately have "(drain_full_blocks c (u\<lparr>su_pending := su_pending u @ x\<rparr>) r :: ('x store_error + bytes) \<times> 'u sealing_upload \<times> entropy)
      = (Inr tail, ?u\<lparr>su_pending := rest_block ?b (rest_block ?b d @ x),
           su_next_index := word_of_nat (length ?fb + length ?nb)\<rparr>, r')" by (simp only:)
  then show ?thesis
    by (rule that) (simp_all add: split ps tail u)
qed

lemma put_part_at:
  fixes ops :: "('u, 'x) upload_ops"
  assumes b: "0 < bf_block_size f" and s: "frame_cipher f (bf_current f) = Inr secret"
    and ops: "upload_contract ops uploaded"
    and at: "upload_at c f secret final r0 uploaded base d u r"
    and seal: "seal_chunks c secret (bf_current f) final 0 (full_blocks (bf_block_size f) (d @ concat data)) r0 (header f) = (Inr out, r')"
    and final: "length (full_blocks (bf_block_size f) (d @ concat data)) \<le> final"
  obtains u' where "put_part c ops data u r = (Inr (), u', r')" and "su_location u' = su_location u"
    and "upload_at c f secret final r0 uploaded base (d @ concat data) u' r'"
proof -
  obtain tail u' where dr: "(drain_full_blocks c (u\<lparr>su_pending := su_pending u @ concat data\<rparr>) r :: ('x store_error + bytes) \<times> 'u sealing_upload \<times> entropy)
      = (Inr tail, u', r')"
    and u': "uploaded (su_inner u') @ tail = base @ out" "su_frame u' = f" "su_location u' = su_location u"
      "su_pending u' = rest_block (bf_block_size f) (d @ concat data)" "su_header_sent u'"
      "su_next_index u' = word_of_nat (length (full_blocks (bf_block_size f) (d @ concat data)))"
    by (rule upload_at_drain [OF b s at seal final])
  obtain inner where inner: "up_put_part ops tail (su_inner u') = (Inr (), inner)"
    "uploaded inner = uploaded (su_inner u') @ tail" using ops by (rule upload_part)
  show ?thesis
  proof (cases "tail = []")
    case True
    show ?thesis by (rule that [of u']) (use True dr u' seal in \<open>simp_all add: put_part_def upload_at_def\<close>)
  next
    case False
    show ?thesis
      by (rule that [of "u'\<lparr>su_inner := inner\<rparr>"])
        (use False dr u' inner seal in \<open>simp_all add: put_part_def upload_at_def\<close>)
  qed
qed

lemma put_parts_at:
  assumes b: "0 < bf_block_size f" and s: "frame_cipher f (bf_current f) = Inr secret"
    and ops: "upload_contract ops uploaded"
    and at: "upload_at c f secret final r0 uploaded base d u r"
    and seal: "seal_chunks c secret (bf_current f) final 0
      (full_blocks (bf_block_size f) (d @ concat (concat parts))) r0 (header f) = (Inr out, r')"
    and final: "length (full_blocks (bf_block_size f) (d @ concat (concat parts))) \<le> final"
  shows "\<exists>u'. put_parts c ops parts u r = (Inr (), u', r') \<and>
    upload_at c f secret final r0 uploaded base (d @ concat (concat parts)) u' r'"
  using at seal final
proof (induction parts arbitrary: d u r)
  case Nil
  then show ?case by (auto simp: upload_at_def)
next
  case (Cons part parts)
  let ?b = "bf_block_size f" and ?d = "d @ concat part"
  have split: "full_blocks ?b (?d @ concat (concat parts))
      = full_blocks ?b ?d @ full_blocks ?b (rest_block ?b ?d @ concat (concat parts))"
    by (rule full_blocks_append [OF b])
  obtain mid r1 where mid: "seal_chunks c secret (bf_current f) final 0 (full_blocks ?b ?d) r0 (header f) = (Inr mid, r1)"
    using Cons.prems(2) split by (auto simp: seal_chunks_append split: prod.splits sum.splits)
  have "length (full_blocks ?b ?d) \<le> final" using Cons.prems(3) split by simp
  then obtain u' where u': "put_part c ops part u r = (Inr (), u', r1)" "upload_at c f secret final r0 uploaded base ?d u' r1"
    by (rule put_part_at [OF b s ops Cons.prems(1) mid])
  show ?case using Cons.IH [OF u'(2)] Cons.prems(2,3) u'(1) by simp
qed

lemma complete_at:
  fixes ops :: "('u, 'x) upload_ops"
  assumes b: "0 < bf_block_size f" and s: "frame_cipher f (bf_current f) = Inr secret"
    and ops: "upload_contract ops uploaded"
    and at: "upload_at c f secret (length p div bf_block_size f) r0 uploaded base p u r"
    and seal: "seal c f p r0 = (Inr sealed, r')"
  shows "\<exists>x u'. complete c ops u r = (Inr x, u', r') \<and> uploaded (su_inner u') = base @ sealed"
proof -
  let ?b = "bf_block_size f"
  let ?fb = "full_blocks ?b p" and ?final = "length p div ?b"
  have n: "length ?fb = ?final" using length_object_blocks [OF b, of p] by (simp add: object_blocks_full [OF b])
  from seal obtain out r1 piece where out: "seal_chunks c secret (bf_current f) ?final 0 ?fb r0 (header f) = (Inr out, r1)"
    and piece: "seal_piece c secret (bf_current f) (rest_block ?b p) (word_of_nat ?final) True r1 = (Inr piece, r')"
    and sealed: "sealed = out @ piece"
    by (auto simp: seal_def s object_blocks_full [OF b] seal_chunks_append n Let_def split: prod.splits sum.splits)
  have blocks: "seal_chunks c secret (bf_current f) ?final 0 (full_blocks ?b (p @ [])) r0 (header f) = (Inr out, r1)"
    "length (full_blocks ?b (p @ [])) \<le> ?final" by (simp_all add: out n)
  obtain tail u' where dr: "(drain_full_blocks c (u\<lparr>su_pending := su_pending u @ []\<rparr>) r
        :: ('x store_error + bytes) \<times> 'u sealing_upload \<times> entropy) = (Inr tail, u', r1)"
      "uploaded (su_inner u') @ tail = base @ out" "su_frame u' = f"
      "su_pending u' = rest_block ?b (p @ [])" "su_next_index u' = word_of_nat (length (full_blocks ?b (p @ [])))"
    by (rule upload_at_drain [OF b s at blocks])
  note u' = dr(2-5)
  obtain inner where inner: "up_put_part ops (tail @ piece) (su_inner u') = (Inr (), inner)"
    "uploaded inner = uploaded (su_inner u') @ tail @ piece" using ops by (rule upload_part)
  obtain x inner' where d: "up_complete ops inner = (Inr x, inner')" "uploaded inner' = uploaded inner"
    using ops by (rule upload_done)
  have "uploaded inner' = base @ sealed" using d inner u'(1) sealed by simp
  then show ?thesis
    using dr piece inner(1) d(1) by (simp add: complete_def seal_block_piece [OF s] n Let_def)
qed

lemma upload_seals:
  assumes f: "frame_ok f" and ops: "upload_contract ops uploaded"
    and seal: "seal c f (concat (concat parts)) r0 = (Inr sealed, r')"
  shows "\<exists>u r x u'. put_parts c ops parts (sealing_upload_new inner f location) r0 = (Inr (), u, r) \<and>
    complete c ops u r = (Inr x, u', r') \<and> uploaded (su_inner u') = uploaded inner @ sealed"
proof -
  let ?b = "bf_block_size f" and ?p = "concat (concat parts)"
  let ?fb = "full_blocks ?b ?p" and ?final = "length ?p div ?b"
  have b: "0 < ?b" using f by (rule frame_ok_block)
  have "bf_current f \<in> set (btree_keys (bf_keys f))" using f by (simp add: frame_ok_def)
  then obtain secret where s: "frame_cipher f (bf_current f) = Inr secret" by (rule frame_ok_cipher [OF f])
  have n: "length ?fb = ?final" using length_object_blocks [OF b, of ?p] by (simp add: object_blocks_full [OF b])
  obtain out r where out: "seal_chunks c secret (bf_current f) ?final 0 ?fb r0 (header f) = (Inr out, r)"
    using seal by (auto simp: seal_def s object_blocks_full [OF b] seal_chunks_append n Let_def split: prod.splits sum.splits)
  have start: "upload_at c f secret ?final r0 uploaded (uploaded inner) [] (sealing_upload_new inner f location) r0"
    using b by (simp add: upload_at_def sealing_upload_new_def full_blocks_short)
  obtain u where u: "put_parts c ops parts (sealing_upload_new inner f location) r0 = (Inr (), u, r)"
    "upload_at c f secret ?final r0 uploaded (uploaded inner) ?p u r"
    using put_parts_at [OF b s ops start, of parts out r] out n by auto
  show ?thesis using complete_at [OF b s ops u(2) seal] u(1) by blast
qed

end
