(* ===== verification/Object_Safety.thy ===== *)
theory Object_Safety
  imports Upload_Stream
begin

text \<open>
  What tampering with a sealed object does: a block read under another key id, index or final marker
  is refused, while an object cut at a block boundary and closed by 28 arbitrary bytes reads as a
  shorter one. Also the nonces one call of \<open>seal\<close> draws, and which headers are accepted.
\<close>

section \<open>What sealing draws and writes\<close>

lemma seal_chunks_pieces:
  assumes "entropy_sized r" and "seal_chunks c secret key final i xs r out = (Inr res, r')"
  shows "r' = r\<lparr>drawn := drawn r + length xs\<rparr> \<and>
    (\<exists>ns cts. length ns = length xs \<and> length cts = length xs \<and> res = out @ concat (map2 (@) ns cts) \<and>
      (\<forall>j < length xs. source r (drawn r + j) 12 = Some (ns ! j) \<and> length (ns ! j) = 12 \<and>
         aead_encrypt c secret (ns ! j) (associated_data key (word_of_nat (i + j)) (i + j = final)) (xs ! j)
           = Some (cts ! j)))"
  using assms
proof (induction xs arbitrary: i r out)
  case Nil
  then show ?case by auto
next
  case (Cons x xs)
  let ?r1 = "r\<lparr>drawn := Suc (drawn r)\<rparr>"
  from Cons.prems(2) obtain n ct where n: "source r (drawn r) 12 = Some n"
    and ct: "aead_encrypt c secret n (associated_data key (word_of_nat i) (i = final)) x = Some ct"
    and rest: "seal_chunks c secret key final (Suc i) xs ?r1 (out @ n @ ct) = (Inr res, r')"
    by (auto simp: seal_piece_def fill_def frame_consts split: option.splits)
  have "length n = 12" using n Cons.prems(1) by (simp add: entropy_sized_def)
  have "entropy_sized ?r1" using Cons.prems(1) by simp
  from Cons.IH [OF this rest] obtain ns cts where r': "r' = ?r1\<lparr>drawn := drawn ?r1 + length xs\<rparr>"
    and l: "length ns = length xs" "length cts = length xs"
    and res: "res = (out @ n @ ct) @ concat (map2 (@) ns cts)"
    and j: "\<forall>j < length xs. source ?r1 (drawn ?r1 + j) 12 = Some (ns ! j) \<and> length (ns ! j) = 12 \<and>
      aead_encrypt c secret (ns ! j) (associated_data key (word_of_nat (Suc i + j)) (Suc i + j = final)) (xs ! j)
        = Some (cts ! j)" by blast
  have "source r (drawn r + k) 12 = Some ((n # ns) ! k) \<and> length ((n # ns) ! k) = 12 \<and>
      aead_encrypt c secret ((n # ns) ! k) (associated_data key (word_of_nat (i + k)) (i + k = final)) ((x # xs) ! k)
        = Some ((ct # cts) ! k)" if "k < length (x # xs)" for k
  proof (cases k)
    case 0
    with n ct \<open>length n = 12\<close> show ?thesis by simp
  next
    case (Suc m)
    with that have "m < length xs" by simp
    with Suc j show ?thesis by simp
  qed
  with l r' res show ?case by (intro conjI exI [of _ "n # ns"] exI [of _ "ct # cts"]) simp_all
qed

text \<open>The nonces of a sealed object, read off where the layout puts them.\<close>

definition object_nonces :: "nat \<Rightarrow> nat \<Rightarrow> bytes \<Rightarrow> bytes list" where
  "object_nonces b blocks sealed = map (\<lambda>i. take 12 (drop (13 + i * (b + 28)) sealed)) [0..<blocks]"

lemma seal_nonces:
  assumes f: "frame_ok f" and c: "aead_correct c" and r: "entropy_sized r" and eq: "seal c f p r = (Inr sealed, r')"
  shows "r' = r\<lparr>drawn := drawn r + (length p div bf_block_size f + 1)\<rparr>"
    and "map Some (object_nonces (bf_block_size f) (length p div bf_block_size f + 1) sealed)
           = map (\<lambda>i. source r i 12) [drawn r..<drawn r + (length p div bf_block_size f + 1)]"
proof -
  let ?b = "bf_block_size f" and ?n = "length p div bf_block_size f + 1"
  have b: "0 < ?b" using f by (rule frame_ok_block)
  obtain secret where s: "frame_cipher f (bf_current f) = Inr secret" "length secret = 32"
    using frame_ok_cipher [OF f frame_ok_current [OF f]] by metis
  have lo: "length (object_blocks ?b p) = ?n" by (rule length_object_blocks [OF b])
  have sc: "seal_chunks c secret (bf_current f) (?n - 1) 0 (object_blocks ?b p) r (header f) = (Inr sealed, r')"
    using eq by (simp add: seal_def s lo)
  from seal_chunks_pieces [OF r sc] obtain ns cts where r': "r' = r\<lparr>drawn := drawn r + ?n\<rparr>"
    and l: "length ns = ?n" "length cts = ?n" and sealed: "sealed = header f @ concat (map2 (@) ns cts)"
    and j: "\<forall>j < ?n. source r (drawn r + j) 12 = Some (ns ! j) \<and> length (ns ! j) = 12 \<and>
      aead_encrypt c secret (ns ! j) (associated_data (bf_current f) (word_of_nat (0 + j)) (0 + j = ?n - 1))
        (object_blocks ?b p ! j) = Some (cts ! j)" by (auto simp: lo)
  show "r' = r\<lparr>drawn := drawn r + ?n\<rparr>" by (rule r')
  let ?ps = "map2 (@) ns cts"
  have ct: "length (cts ! k) = length (object_blocks ?b p ! k) + 16" if "k < ?n" for k
    using j that by (metis aead_correctD [OF c s(2)] option.inject)
  have full: "length (?ps ! k) = ?b + 28" if "k < length p div ?b" for k
    using that l j ct [of k] object_block_length [OF b, of k p] by simp
  have "take 12 (drop (13 + k * (?b + 28)) sealed) = ns ! k" if k: "k < ?n" for k
  proof -
    have "\<forall>x \<in> set (take k ?ps). length x = ?b + 28"
    proof
      fix x assume "x \<in> set (take k ?ps)"
      then obtain m where m: "m < k" "m < length ?ps" "x = ?ps ! m" by (auto simp: in_set_conv_nth)
      with k full [of m] show "length x = ?b + 28" by simp
    qed
    then have "drop (k * (?b + 28)) (concat ?ps) = concat (drop k ?ps)"
      by (rule concat_cut(2)) (use k l in simp)
    moreover have "drop k ?ps = ?ps ! k # drop (Suc k) ?ps"
      by (rule Cons_nth_drop_Suc [symmetric]) (use k l in simp)
    moreover have "?ps ! k = ns ! k @ cts ! k" using k l by simp
    moreover have "drop (13 + k * (?b + 28)) sealed = drop (k * (?b + 28)) (concat ?ps)"
      by (simp add: sealed)
    ultimately have "drop (13 + k * (?b + 28)) sealed = ns ! k @ cts ! k @ concat (drop (Suc k) ?ps)"
      by (simp only: concat.simps append_assoc)
    then show ?thesis using j k by simp
  qed
  then have "object_nonces ?b ?n sealed = ns"
    by (intro nth_equalityI) (simp_all add: object_nonces_def l del: upt_Suc)
  with l j show "map Some (object_nonces ?b ?n sealed) = map (\<lambda>i. source r i 12) [drawn r..<drawn r + ?n]"
    by (intro nth_equalityI) (simp_all del: upt_Suc)
qed

lemma fresh_distinct:
  assumes "entropy_fresh n r" and "j \<le> n" and "map Some ns = map (\<lambda>k. source r k 12) [i..<j]"
  shows "distinct ns"
proof -
  have "x = y" if "x < n" "y < n" "source r x 12 = source r y 12" "source r x 12 \<noteq> None" for x y
    using assms(1) that unfolding entropy_fresh_def by blast
  moreover have "source r k 12 \<noteq> None" if "k \<in> {i..<j}" for k
  proof -
    have "source r k 12 \<in> set (map Some ns)" using that by (simp only: assms(3)) auto
    then show ?thesis by auto
  qed
  ultimately have "inj_on (\<lambda>k. source r k 12) {i..<j}" using assms(2) by (intro inj_onI) auto
  then have "distinct (map Some ns)" by (simp add: assms(3) distinct_map)
  then show ?thesis by (simp add: distinct_map)
qed

section \<open>Headers\<close>

lemma read_header_iff:
  assumes g: "frame_ok g"
  shows "read_header g bs = Inr fr \<longleftrightarrow>
    (\<exists>k rest. k \<in> set (btree_keys (bf_keys g)) \<and> bs = header (g\<lparr>bf_current := k\<rparr>) @ rest \<and>
       fr = \<lparr>framing_block_size = bf_block_size g, framing_key = k\<rparr>)"
proof
  assume ok: "read_header g bs = Inr fr"
  define k where "k = DataKeyId (from_le32 (cut 9 13 bs))"
  let ?d = "unat (from_le32 (cut 5 9 bs))"
  have len: "13 \<le> length bs" and m: "take 4 bs = MAGIC" and v: "bs ! 4 = FRAME_VERSION"
    and d: "?d = bf_block_size g" and k: "k \<in> set (btree_keys (bf_keys g))"
    and fr: "fr = \<lparr>framing_block_size = bf_block_size g, framing_key = k\<rparr>"
    using ok by (auto simp: read_header_def k_def frame_consts rbind_Inr_iff block_size_new_Inr Let_def split: if_splits)
  have "from_le32 (cut 5 9 bs) = word_of_nat (bf_block_size g)" using d by (simp flip: d)
  then have "cut 5 9 bs = le32 (word_of_nat (bf_block_size g))"
    using le32_from_le32 [of "cut 5 9 bs"] len by simp
  moreover have "cut 9 13 bs = le32 (key_id_get k)"
    using le32_from_le32 [of "cut 9 13 bs"] len by (simp add: k_def)
  moreover have "bs = take 4 bs @ [bs ! 4] @ cut 5 9 bs @ cut 9 13 bs @ drop 13 bs"
  proof -
    have "take 4 (drop 9 bs) @ drop 13 bs = drop 9 bs"
      using append_take_drop_id [of 4 "drop 9 bs"] by simp
    moreover have "take 4 (drop 5 bs) @ drop 9 bs = drop 5 bs"
      using append_take_drop_id [of 4 "drop 5 bs"] by simp
    moreover have "[bs ! 4] @ drop 5 bs = drop 4 bs"
      using len Cons_nth_drop_Suc [of 4 bs] by simp
    ultimately have "[bs ! 4] @ cut 5 9 bs @ cut 9 13 bs @ drop 13 bs = drop 4 bs" by (simp add: cut_def)
    then show ?thesis by (metis append_take_drop_id)
  qed
  ultimately have "bs = header (g\<lparr>bf_current := k\<rparr>) @ drop 13 bs"
    by (simp add: header_def m v)
  with k fr show "\<exists>k rest. k \<in> set (btree_keys (bf_keys g)) \<and> bs = header (g\<lparr>bf_current := k\<rparr>) @ rest \<and>
      fr = \<lparr>framing_block_size = bf_block_size g, framing_key = k\<rparr>" by blast
next
  assume "\<exists>k rest. k \<in> set (btree_keys (bf_keys g)) \<and> bs = header (g\<lparr>bf_current := k\<rparr>) @ rest \<and>
      fr = \<lparr>framing_block_size = bf_block_size g, framing_key = k\<rparr>"
  then obtain k rest where k: "k \<in> set (btree_keys (bf_keys g))" and bs: "bs = header (g\<lparr>bf_current := k\<rparr>) @ rest"
    and fr: "fr = \<lparr>framing_block_size = bf_block_size g, framing_key = k\<rparr>" by blast
  let ?f = "g\<lparr>bf_current := k\<rparr>"
  have f: "frame_ok ?f" using g k by (simp add: frame_ok_def)
  then have "reads_from g ?f" using g by (simp add: reads_from_def frame_ok_def)
  moreover have "map_of (bf_keys ?f) (bf_current ?f) \<noteq> None"
    using frame_ok_cipher [OF f, of k] k by auto
  ultimately show "read_header g bs = Inr fr" using read_header_sealed [OF f] by (simp add: bs fr)
qed

section \<open>A block read as another one\<close>

lemma associated_data_inject:
  "associated_data k i fb = associated_data k' i' fb' \<longleftrightarrow> k = k' \<and> i = i' \<and> fb = fb'"
  by (auto simp: associated_data_def intro: data_key_id.expand split: if_splits)

lemma seal_piece_length:
  assumes c: "aead_correct c" and r: "entropy_sized r" and s: "length secret = 32"
    and eq: "seal_piece c secret key x i final r = (Inr piece, r')"
  shows "28 \<le> length piece"
proof -
  from eq obtain n ct where n: "source r (drawn r) 12 = Some n"
    and ct: "aead_encrypt c secret n (associated_data key i final) x = Some ct" and p: "piece = n @ ct"
    by (auto simp: seal_piece_def fill_def frame_consts split: option.splits)
  have "length n = 12" using n r by (simp add: entropy_sized_def)
  with c s have "length ct = length x + 16" using ct by (metis aead_correctD option.inject)
  with \<open>length n = 12\<close> show ?thesis by (simp add: p)
qed

lemma seal_piece_moved:
  assumes c: "aead_binds_aad c" and r: "entropy_sized r"
    and eq: "seal_piece c secret key x i final r = (Inr piece, r')"
    and moved: "(key', i', final') \<noteq> (key, i, final)"
  shows "aead_decrypt c secret (take 12 piece) (associated_data key' i' final') (drop 12 piece) = None"
proof -
  from eq obtain n ct where n: "source r (drawn r) 12 = Some n"
    and ct: "aead_encrypt c secret n (associated_data key i final) x = Some ct" and p: "piece = n @ ct"
    by (auto simp: seal_piece_def fill_def frame_consts split: option.splits)
  have "length n = 12" using n r by (simp add: entropy_sized_def)
  moreover have "associated_data key i final \<noteq> associated_data key' i' final'"
    using moved by (auto simp: associated_data_inject)
  moreover have "length (associated_data key i final) = length (associated_data key' i' final')"
    "length (associated_data key i final) \<le> 16" by (simp_all add: associated_data_def)
  ultimately show ?thesis using c ct unfolding aead_binds_aad_def by (simp add: p)
qed

section \<open>Two blocks of one object exchanged\<close>

lemma opens_from_nth:
  "length ps = length xs \<Longrightarrow> (\<And>j. j < length xs \<Longrightarrow> opens_as c secret key b (i + j) (ps ! j) (xs ! j)) \<Longrightarrow>
     opens_from c secret key b i ps xs"
proof (induction ps xs arbitrary: i rule: list_induct2)
  case (Cons p ps x xs)
  have "opens_as c secret key b (Suc i + j) (ps ! j) (xs ! j)" if "j < length xs" for j
    using Cons.prems [of "Suc j"] that by simp
  moreover have "opens_as c secret key b i p x" using Cons.prems [of 0] by simp
  ultimately show ?case using Cons.IH by simp
qed simp

text \<open>The pieces of a sealed object: each opens at its place and at no other.\<close>

lemma seal_bound_pieces:
  assumes f: "frame_ok f" and c: "aead_correct c" and r: "entropy_sized r" and a: "aead_binds_aad c"
    and eq: "seal c f p r = (Inr sealed, r')"
  obtains secret pieces where "map_of (bf_keys f) (bf_current f) = Some secret" and "length secret = 32"
    and "sealed = header f @ concat pieces"
    and "opens_from c secret (bf_current f) (bf_block_size f) 0 pieces (object_blocks (bf_block_size f) p)"
    and "\<forall>j < length pieces. \<forall>key index final.
           (key, index, final) \<noteq> (bf_current f, word_of_nat j, j = length p div bf_block_size f) \<longrightarrow>
           aead_decrypt c secret (take 12 (pieces ! j)) (associated_data key index final) (drop 12 (pieces ! j)) = None"
proof -
  let ?b = "bf_block_size f" and ?q = "length p div bf_block_size f" and ?key = "bf_current f"
  have b: "0 < ?b" using f by (rule frame_ok_block)
  obtain secret where s: "map_of (bf_keys f) ?key = Some secret" "length secret = 32" "frame_cipher f ?key = Inr secret"
    using frame_ok_cipher [OF f frame_ok_current [OF f]] by metis
  have lo: "length (object_blocks ?b p) = ?q + 1" by (rule length_object_blocks [OF b])
  have "seal_chunks c secret ?key ?q 0 (object_blocks ?b p) r (header f) = (Inr sealed, r')"
    using eq by (simp add: seal_def s lo)
  from seal_chunks_pieces [OF r this] obtain ns cts where
    l: "length ns = ?q + 1" "length cts = ?q + 1" and sealed: "sealed = header f @ concat (map2 (@) ns cts)"
    and n: "\<And>j. j \<le> ?q \<Longrightarrow> length (ns ! j) = 12"
    and e: "\<And>j. j \<le> ?q \<Longrightarrow> aead_encrypt c secret (ns ! j) (associated_data ?key (word_of_nat j) (j = ?q))
        (object_blocks ?b p ! j) = Some (cts ! j)" by (auto simp: lo less_Suc_eq_le)
  let ?ps = "map2 (@) ns cts"
  have nth: "?ps ! j = ns ! j @ cts ! j" if "j \<le> ?q" for j using that l by simp
  have opens: "opens_from c secret ?key ?b 0 ?ps (object_blocks ?b p)"
  proof (rule opens_from_nth)
    fix j assume "j < length (object_blocks ?b p)"
    then have j: "j \<le> ?q" by (simp add: lo)
    have "length p mod ?b < ?b" using b by simp
    then have "length (object_blocks ?b p ! j) \<le> ?b" "length (object_blocks ?b p ! j) < ?b \<longleftrightarrow> j = ?q"
      using object_block_length [OF b j] by auto
    moreover obtain ct where "aead_encrypt c secret (ns ! j) (associated_data ?key (word_of_nat j) (j = ?q))
        (object_blocks ?b p ! j) = Some ct" "length ct = length (object_blocks ?b p ! j) + 16"
      "aead_decrypt c secret (ns ! j) (associated_data ?key (word_of_nat j) (j = ?q)) ct = Some (object_blocks ?b p ! j)"
      using c s(2) n [OF j] by (rule aead_correctD)
    ultimately show "opens_as c secret ?key ?b (0 + j) (?ps ! j) (object_blocks ?b p ! j)"
      using e [OF j] n [OF j] nth [OF j] by (simp add: opens_as_def)
  qed (simp add: l lo)
  have bound: "aead_decrypt c secret (take 12 (?ps ! j)) (associated_data key index final) (drop 12 (?ps ! j)) = None"
    if j: "j < length ?ps" and ne: "(key, index, final) \<noteq> (?key, word_of_nat j, j = ?q)" for j key index final
  proof -
    have j': "j \<le> ?q" using j l by simp
    have "associated_data ?key (word_of_nat j) (j = ?q) \<noteq> associated_data key index final"
      using ne by (auto simp: associated_data_inject)
    moreover have "length (associated_data ?key (word_of_nat j) (j = ?q)) = length (associated_data key index final)"
      "length (associated_data ?key (word_of_nat j) (j = ?q)) \<le> 16" by (simp_all add: associated_data_def)
    ultimately have "aead_decrypt c secret (ns ! j) (associated_data key index final) (cts ! j) = None"
      using a e [OF j'] unfolding aead_binds_aad_def by blast
    then show ?thesis using nth [OF j'] n [OF j'] by simp
  qed
  then have "\<forall>j < length ?ps. \<forall>key index final. (key, index, final) \<noteq> (?key, word_of_nat j, j = ?q) \<longrightarrow>
      aead_decrypt c secret (take 12 (?ps ! j)) (associated_data key index final) (drop 12 (?ps ! j)) = None"
    by (intro allI impI) (erule (1) bound)
  then show ?thesis by (rule that [OF s(1,2) sealed opens])
qed

lemma open_loop_refused:
  assumes "opens_from c secret key b k ps xs" and "28 \<le> length bad"
    and "aead_decrypt c secret (take 12 bad) (associated_data key (word_of_nat (k + length ps)) (length bad < b + 28)) (drop 12 bad) = None"
  shows "open_loop c secret key (b + 28) wanted (word_of_nat k) offset (ps @ bad # rest) acc
    = Inl (Authentication (word_of_nat (k + length ps)))"
  using assms
proof (induction c secret key b k ps xs arbitrary: offset acc rule: opens_from.induct)
  case (1 c secret key b k)
  then show ?case by (simp add: frame_consts)
next
  case (2 c secret key b k p ps x xs)
  from "2.prems"(1) have "length p = length x + 28" "opens_from c secret key b (Suc k) ps xs"
    "aead_decrypt c secret (take 12 p) (associated_data key (word_of_nat k) (length x < b)) (drop 12 p) = Some x"
    by (simp_all add: opens_as_def)
  then show ?case using 2 by (simp add: frame_consts Let_def add.commute [of 1 "word_of_nat k"])
qed auto

text \<open>The bytes of an object with its blocks \<open>i\<close> and \<open>j\<close> exchanged, for \<open>i < j\<close>.\<close>

definition exchange_blocks :: "nat \<Rightarrow> nat \<Rightarrow> nat \<Rightarrow> bytes \<Rightarrow> bytes" where
  "exchange_blocks b i j sealed =
     (let at = (\<lambda>k. 13 + k * (b + 28)) in
      take (at i) sealed @ cut (at j) (at (Suc j)) sealed @ cut (at (Suc i)) (at j) sealed
        @ cut (at i) (at (Suc i)) sealed @ drop (at (Suc j)) sealed)"

lemma concat_cut_pieces:
  assumes "\<And>k. k < n \<Longrightarrow> length (ps ! k) = w" and "i \<le> j" and "j \<le> n" and "n \<le> length ps"
  shows "cut (i * w) (j * w) (concat ps) = concat (cut i j ps)"
proof -
  have full: "\<forall>x \<in> set (take m ps). length x = w" if "m \<le> n" for m
  proof
    fix x assume "x \<in> set (take m ps)"
    then obtain k where "k < m" "k < length ps" "x = ps ! k" by (auto simp: in_set_conv_nth)
    then show "length x = w" using assms(1) [of k] that by simp
  qed
  have "take (j * w) (concat ps) = concat (take j ps)"
    by (rule concat_cut(1) [OF full]) (use assms in auto)
  moreover have "\<forall>x \<in> set (take i (take j ps)). length x = w" using full [of i] assms(2,3) by (simp add: min_absorb1)
  then have "drop (i * w) (concat (take j ps)) = concat (drop i (take j ps))"
    by (rule concat_cut(2)) (use assms in simp)
  ultimately show ?thesis by (simp only: cut_eq_drop_take)
qed

lemma exchange_blocks_pieces:
  assumes len: "\<And>k. k < n \<Longrightarrow> length (ps ! k) = b + 28" and ij: "i < j" "j < n" and ps: "length ps = Suc n"
    and h: "length h = 13"
  shows "exchange_blocks b i j (h @ concat ps)
    = h @ concat (take i ps @ ps ! j # cut (Suc i) j ps @ ps ! i # drop (Suc j) ps)"
proof -
  let ?at = "\<lambda>k. 13 + k * (b + 28)"
  have full: "\<forall>x \<in> set (take m ps). length x = b + 28" if "m \<le> n" for m
  proof
    fix x assume "x \<in> set (take m ps)"
    then obtain k where "k < m" "k < length ps" "x = ps ! k" by (auto simp: in_set_conv_nth)
    then show "length x = b + 28" using len [of k] that by simp
  qed
  have cuts: "cut (?at k) (?at m) (h @ concat ps) = concat (cut k m ps)" if "k \<le> m" "m \<le> n" for k m
    using concat_cut_pieces [OF len that] ps h by (simp add: cut_append_right)
  have one: "cut k (Suc k) ps = [ps ! k]" if "k < n" for k
    using that ps by (simp add: cut_def take_Suc_conv_app_nth take_Suc hd_drop_conv_nth)
  have "take (?at i) (h @ concat ps) = h @ concat (take i ps)"
    using concat_cut(1) [OF full [of i]] ij ps h by simp
  moreover have "drop (?at (Suc j)) (h @ concat ps) = concat (drop (Suc j) ps)"
    using concat_cut(2) [OF full [of "Suc j"]] ij ps h by (simp del: mult_Suc)
  ultimately show ?thesis
    using ij by (simp add: exchange_blocks_def Let_def cuts one del: mult_Suc)
qed

lemma exchanged_refused:
  assumes f: "frame_ok f" and c: "aead_correct c" and r: "entropy_sized r" and a: "aead_binds_aad c"
    and p: "length p < 2 ^ 62" and eq: "seal c f p r = (Inr sealed, r')"
    and ij: "i < j" "j < length p div bf_block_size f"
  shows "open_whole c f (exchange_blocks (bf_block_size f) i j sealed) = Inl (Authentication (word_of_nat i))"
proof -
  let ?b = "bf_block_size f" and ?q = "length p div bf_block_size f" and ?key = "bf_current f"
  have b: "0 < ?b" "64 \<le> ?b" using frame_ok_block [OF f] by auto
  obtain secret ps where s: "map_of (bf_keys f) ?key = Some secret" "length secret = 32"
    and sealed: "sealed = header f @ concat ps"
    and o: "opens_from c secret ?key ?b 0 ps (object_blocks ?b p)"
    and bound: "\<forall>j < length ps. \<forall>key index final. (key, index, final) \<noteq> (?key, word_of_nat j, j = ?q) \<longrightarrow>
      aead_decrypt c secret (take 12 (ps ! j)) (associated_data key index final) (drop 12 (ps ! j)) = None"
    by (rule seal_bound_pieces [OF f c r a eq])
  note len = object_pieces_length [OF b(1) o]
  define front where "front = ps ! j # cut (Suc i) j ps @ ps ! i # cut (Suc j) ?q ps"
  have "drop (Suc j) ps = cut (Suc j) ?q ps @ drop ?q ps"
    using ij append_take_drop_id [of "?q - Suc j" "drop (Suc j) ps"] by (simp add: cut_def)
  moreover have "drop ?q ps = [ps ! ?q]" using len(1) Cons_nth_drop_Suc [of ?q ps] by simp
  ultimately have ex: "exchange_blocks ?b i j sealed = header f @ concat (take i ps @ front @ [ps ! ?q])"
    using exchange_blocks_pieces [OF len(2) ij, of "header f"] len(1) by (simp add: sealed front_def)
  have strides: "\<forall>x \<in> set (take i ps @ front). length x = ?b + 28"
  proof
    fix x assume x: "x \<in> set (take i ps @ front)"
    have tk: "set (take m ps) \<subseteq> set (take ?q ps)" if "m \<le> ?q" for m using that by (rule set_take_subset_set_take)
    have ct: "set (cut k m ps) \<subseteq> set (take ?q ps)" if "m \<le> ?q" for k m
      using tk [OF that] set_drop_subset [of k "take m ps"] unfolding cut_eq_drop_take by (rule subset_trans [rotated])
    have nt: "ps ! k \<in> set (take ?q ps)" if "k < ?q" for k
      using that len(1) by (auto simp: in_set_conv_nth)
    have "set (take i ps @ front) \<subseteq> set (take ?q ps)"
      using ij by (simp add: front_def tk ct nt)
    with x have "x \<in> set (take ?q ps)" by (rule rev_subsetD)
    then obtain k where "k < ?q" "x = ps ! k" using len(1) by (auto simp: in_set_conv_nth)
    then show "length x = ?b + 28" by (simp add: len(2))
  qed
  have count: "length (take i ps @ front) = ?q" using ij len(1) by (simp add: front_def)
  have lx: "length (exchange_blocks ?b i j sealed) = ct_len ?b (length p)"
  proof -
    define xs where "xs = take i ps @ front"
    have "take ?q xs = xs" using count unfolding xs_def by (intro take_all) simp
    then have "length (concat xs) = ?q * (?b + 28)"
      using concat_cut(3) [of ?q xs "?b + 28"] strides count by (simp only: xs_def)
    moreover have "exchange_blocks ?b i j sealed = header f @ concat xs @ ps ! ?q" by (simp add: ex xs_def)
    ultimately show ?thesis using len(3) by (simp only: ct_len_strides length_append length_header)
  qed
  have "ct_len ?b (length p) < 2 ^ 63" using ct_len_bound b(2) p by blast
  then have pl: "plaintext_len f (word_of_nat (length (exchange_blocks ?b i j sealed))) = Inr (word_of_nat (length p))"
    unfolding lx by (simp add: unat_plaintext_len [OF f] pt_len_ct_len [OF b(1)])
  have hd: "read_header f (exchange_blocks ?b i j sealed) = Inr \<lparr>framing_block_size = ?b, framing_key = ?key\<rparr>"
    unfolding ex by (rule read_header_sealed [OF f reads_from_refl [OF f]]) (use s in simp)
  have "length p mod ?b < ?b" using b by simp
  then have ch: "chunks (?b + 28) (concat (take i ps @ front @ [ps ! ?q])) = take i ps @ front @ [ps ! ?q]"
    using chunks_concat [of "?b + 28" "take i ps @ front" "ps ! ?q"] strides len(3) by auto
  have "?q < 2 ^ 64" using blocks_bound(1) [OF b(2) p] by simp
  then have "i < 2 ^ 64" "j < 2 ^ 64" using ij by simp_all
  then have ne: "(word_of_nat i :: u64) \<noteq> word_of_nat j" using ij(1) unat_of_nat_u64 by (metis less_irrefl)
  have refused: "open_loop c secret ?key (?b + 28) wanted (word_of_nat 0) offset
      (take i ps @ ps ! j # tl front @ [ps ! ?q]) [] = Inl (Authentication (word_of_nat (0 + length (take i ps))))" for wanted offset
    by (rule open_loop_refused [OF opens_from_take [OF o]])
      (use ij len bound ne in \<open>auto simp: min_absorb2\<close>)
  have "frame_cipher f ?key = Inr secret" using s by (simp add: frame_cipher_def aes_key_len_def)
  moreover have "open_loop c secret ?key (?b + 28) wanted 0 offset (take i ps @ front @ [ps ! ?q]) []
      = Inl (Authentication (word_of_nat i))" for wanted offset
    using refused [of wanted offset] ij len(1) by (simp add: front_def min_absorb2)
  ultimately show ?thesis
    using pl hd ch by (simp add: open_whole_def open_span_def Let_def ex sealed_block_len_def frame_consts)
qed

section \<open>An object cut at a block boundary\<close>

lemma cut_object_readable:
  assumes g: "frame_ok g" and h: "holds c g p stored" and k: "0 < k" "k \<le> length p div bf_block_size g"
    and junk: "length junk = 28"
  shows "readable c g (take (k * bf_block_size g) p) (take (13 + k * (bf_block_size g + 28)) stored @ junk)"
proof -
  let ?b = "bf_block_size g" and ?q = "take (k * bf_block_size g) p"
    and ?t = "take (13 + k * (bf_block_size g + 28)) stored @ junk"
  have b: "0 < ?b" using g by (rule frame_ok_block)
  obtain f pieces where f: "frame_ok f" "reads_from g f" "sealed_object c f p pieces stored" and p: "length p < 2 ^ 62"
    using h by (auto simp: holds_def)
  have bf: "bf_block_size f = ?b" using f by (simp add: reads_from_def)
  obtain secret where o: "opens_from c secret (bf_current f) ?b 0 pieces (object_blocks ?b p)"
    and st: "stored = header f @ concat pieces" using f(3) by (auto simp: sealed_object_def bf)
  have kb: "k * ?b \<le> length p" using k b by (simp add: less_eq_div_iff_mult_less_eq)
  then have lq: "length ?q = k * ?b" by simp
  have ct: "ct_len ?b (k * ?b) = 13 + k * (?b + 28) + 28" using b by (simp add: ct_len_strides)
  have pre: "13 + length (concat (take l pieces)) = min (13 + l * (?b + 28)) (ct_len ?b (length p))"
    if "l \<le> length p div ?b + 1" for l by (rule length_pieces_prefix [OF b o that])
  have cut_at: "13 + length (concat (take l pieces)) = 13 + l * (?b + 28)" if "l \<le> k" for l
  proof -
    have "l * (?b + 28) \<le> length p div ?b * (?b + 28)" using that k by (intro mult_le_mono1) simp
    moreover have "l \<le> length p div ?b + 1" using that k by simp
    ultimately show ?thesis using pre [of l] unfolding ct_len_strides by linarith
  qed
  have ll: "13 + k * (?b + 28) \<le> length stored" using cut_at [of k] pre [of k] k
    by (simp add: st concat_split [of pieces k 0])
  have lt: "length ?t = ct_len ?b (k * ?b)" using ll junk ct by simp
  have tk: "take (13 + length (concat (take l pieces))) ?t = header f @ concat (take l pieces)" if "l \<le> k" for l
  proof -
    have "l * (?b + 28) \<le> k * (?b + 28)" using that by (rule mult_le_mono1)
    then have "take (13 + l * (?b + 28)) ?t = take (13 + l * (?b + 28)) stored"
      using ll by (simp add: min_absorb1)
    moreover have "take (13 + length (concat (take l pieces))) stored = header f @ concat (take l pieces)"
      by (simp add: st concat_split [of pieces l 0])
    ultimately show ?thesis using cut_at [OF that] by simp
  qed
  have len62: "k * ?b < 2 ^ 62" using kb p by simp
  have pl: "plaintext_len g (word_of_nat (length ?t)) = Inr (word_of_nat (length ?q))"
  proof -
    have "ct_len ?b (k * ?b) < 2 ^ 63" using ct_len_bound frame_ok_block(1) [OF g] len62 by blast
    then show ?thesis unfolding lt lq by (simp add: unat_plaintext_len [OF g] pt_len_ct_len [OF b])
  qed
  have range: "fst span \<le> snd span \<and> unat (snd span) \<le> length ?t \<and>
      (\<exists>fr. read_header g (take 13 ?t) = Inr fr \<and>
         open_span c g (cut (unat (fst span)) (unat (snd span)) ?t) span (word_of_nat s, word_of_nat e) fr
           = Inr (cut s e ?q))"
    if w: "s < e" "e \<le> length ?q" and span: "span = ciphertext_span g (word_of_nat s, word_of_nat e) (word_of_nat (length ?q))"
    for s e span
  proof -
    have w': "e \<le> length p" "e \<le> k * ?b" using w lq kb by simp_all
    have lk: "ceil_div e ?b \<le> k" using w'(2) b by (simp add: ceil_div_le_iff)
    then have "ceil_div e ?b * (?b + 28) \<le> k * (?b + 28)" by (rule mult_le_mono1)
    then have stop: "span_stop ?b s e (k * ?b) = 13 + length (concat (take (ceil_div e ?b) pieces))"
      using span_stop_within(1) [OF b w(1) w'(2)] cut_at [OF lk] ct by linarith
    note rd = read_prefix [OF f(1) g f(2,3) p w(1) w'(1) len62, unfolded bf, OF tk [OF lk] stop span [unfolded lq] refl]
    define m where "m = k * ?b"
    have "span = ciphertext_span g (word_of_nat s, word_of_nat e) (word_of_nat m)"
      unfolding m_def span lq by (rule refl)
    then have u: "unat (fst span) = span_start ?b s" "unat (snd span) = span_stop ?b s e (k * ?b)"
      using unat_ciphertext_span [OF g, of "word_of_nat s" "word_of_nat e" "word_of_nat m"] w' w(1) len62 p
      by (simp_all flip: m_def)
    have "cut s e ?q = cut s e p" using w'(2) by (rule cut_take)
    then show ?thesis
      using rd u span_stop_within(2,3) [OF b w(1) w'(2)] lt by (auto simp: word_le_nat_alt)
  qed
  show ?thesis
    unfolding readable_def Let_def
  proof (intro conjI allI impI)
    show "13 \<le> length ?t" unfolding lt ct by simp
    show "length ?q < 2 ^ 62" unfolding lq by (rule len62)
  qed (use pl range in blast)+
qed

end
