(* ===== verification/Object_Claims.thy ===== *)
theory Object_Claims
  imports Object_Safety
begin

text \<open>
  The properties of the sealed object format and of the encrypting store, each with a concrete
  instance of its hypotheses.
\<close>

section \<open>Concrete instances\<close>

definition demo_key :: "byte \<Rightarrow> secret_key" where
  "demo_key b = replicate 32 b"

text \<open>A frame before and after one rotation: the later one reads what the earlier one sealed.\<close>

definition demo_frame :: block_frame where
  "demo_frame = \<lparr>bf_keys = [(DataKeyId 1, demo_key 7)], bf_current = DataKeyId 1, bf_block_size = 64\<rparr>"

definition demo_rotated :: block_frame where
  "demo_rotated = \<lparr>bf_keys = [(DataKeyId 1, demo_key 7), (DataKeyId 2, demo_key 9)],
     bf_current = DataKeyId 2, bf_block_size = 64\<rparr>"

lemma demo_frames: "frame_ok demo_frame" "frame_ok demo_rotated" "reads_from demo_rotated demo_frame"
proof -
  have "is_power_of_two 64" unfolding is_power_of_two_def by (simp add: upt_rec)
  then have "block_size_new 64 = Inr 64" by (simp add: block_size_new_Inr)
  then show "frame_ok demo_frame" "frame_ok demo_rotated"
    by (simp_all add: frame_ok_def demo_frame_def demo_rotated_def demo_key_def KEY_LEN_def btree_ok_def
        btree_keys_def less_data_key_id_def)
  show "reads_from demo_rotated demo_frame"
    by (simp add: reads_from_def demo_frame_def demo_rotated_def btree_ok_def btree_keys_def less_data_key_id_def)
qed

lemma demo_block [simp]: "bf_block_size demo_frame = 64" "bf_block_size demo_rotated = 64"
  by (simp_all add: demo_frame_def demo_rotated_def)

text \<open>An object store in memory: a map from paths to bytes, whose operations always succeed.\<close>

definition demo_store :: "(path \<Rightarrow> bytes option, bytes, unit) object_store" where
  "demo_store =
     \<lparr>os_put = \<lambda>l b opts s. (Inr (), s(l \<mapsto> b)),
      os_multipart = \<lambda>l opts s. (Inr [], s),
      os_get = \<lambda>l opts s. (case s l of None \<Rightarrow> Inl (InnerError ())
        | Some b \<Rightarrow> Inr \<lparr>gr_payload = b, gr_range = (0, word_of_nat (length b)), gr_attributes = (),
            gr_meta = \<lparr>om_location = l, om_size = word_of_nat (length b), om_rest = ()\<rparr>\<rparr>),
      os_get_ranges = \<lambda>l rs s. (case s l of None \<Rightarrow> Inl (InnerError ())
        | Some b \<Rightarrow> Inr (map (\<lambda>(i, j). cut (unat i) (unat j) b) rs)),
      os_delete = \<lambda>ls s. (map Inr ls, \<lambda>l. if l \<in> set ls then None else s l),
      os_list = \<lambda>prefix s. [],
      os_list_delimited = \<lambda>prefix s. Inr \<lparr>lr_objects = [], lr_prefixes = []\<rparr>,
      os_copy = \<lambda>a b opts s. (Inr (), s(b := s a))\<rparr>"

lemma demo_store_contract: "store_contract demo_store (\<lambda>s. s)"
  by (auto simp: store_contract_def demo_store_def)

definition demo_upload :: "(bytes, unit) upload_ops" where
  "demo_upload = \<lparr>up_put_part = \<lambda>part u. (Inr (), u @ part), up_complete = \<lambda>u. (Inr (), u),
     up_abort = \<lambda>u. (Inr (), u)\<rparr>"

lemma demo_upload_contract: "upload_contract demo_upload (\<lambda>u. u)"
  by (simp add: upload_contract_def demo_upload_def)

lemmas demo_crypto = demo_aead_correct demo_aead_binds_aad demo_entropy_sized demo_entropy_total

definition demo_get :: "unit get_options" where
  "demo_get = \<lparr>go_head = False, go_range = Some (Bounded 60 70), go_conditions = ()\<rparr>"

section \<open>Round trips\<close>

text \<open>C1: what is put through the encrypting store is what is read back. A put seals the joined payload
  and hands it to the inner store, whose own result and state are returned; when that succeeded, every
  later get, for every range and for a head request alike, returns exactly the wanted bytes of the
  plaintext, with lengths in plaintext terms, whichever of its keys the reader's keyring now seals with.\<close>

theorem store_put_get:
  assumes f: "frame_ok f" and g: "frame_ok g" "reads_from g f" and c: "aead_correct c"
    and r: "entropy_sized r" "entropy_total r" and os: "store_contract os contents"
    and p: "length (concat payload) < 2 ^ 62"
  shows "\<exists>sealed r'. enc_put c f os location payload opts s r
           = (fst (os_put os location sealed opts s), snd (os_put os location sealed opts s), r') \<and>
         (\<forall>x s'. os_put os location sealed opts s = (Inr x, s') \<longrightarrow>
            (\<forall>options. enc_get c g os location options s'
               = rbind (os_get os location (options\<lparr>go_range := None, go_head := True\<rparr>) s')
                   (\<lambda>head. Inr (served options (concat payload) head))))"
proof -
  obtain sealed r' where seal: "seal c f (concat payload) r = (Inr sealed, r')" using seal_total [OF f c r] .
  have "holds c g (concat payload) sealed" by (rule seal_holds [OF f c r(1) seal p g(2)])
  then have rd: "readable c g (concat payload) sealed" by (rule holds_readable [OF g(1)])
  have get: "enc_get c g os location options s'
      = rbind (os_get os location (options\<lparr>go_range := None, go_head := True\<rparr>) s')
          (\<lambda>head. Inr (served options (concat payload) head))"
    if "os_put os location sealed opts s = (Inr x, s')" for x s' options
    using contract_put [OF os that] by (intro enc_get_readable [OF os _ rd]) simp
  show ?thesis
    by (intro exI [of _ sealed] exI [of _ r'] conjI allI impI get)
      (auto simp: enc_put_def seal split_beta)
qed

theorem store_put_get_witness:
  "\<exists>sealed r'. enc_put demo_aead demo_frame demo_store ''t/1'' [replicate 50 1, replicate 50 2] () (\<lambda>_. None) demo_entropy
           = (Inr (), [''t/1'' \<mapsto> sealed], r') \<and>
     enc_get demo_aead demo_rotated demo_store ''t/1'' demo_get [''t/1'' \<mapsto> sealed]
       = Inr \<lparr>gr_payload = replicate 10 2, gr_range = (60, 70), gr_attributes = (),
              gr_meta = \<lparr>om_location = ''t/1'', om_size = 100, om_rest = ()\<rparr>\<rparr>"
proof -
  obtain sealed r' where 1: "enc_put demo_aead demo_frame demo_store ''t/1'' [replicate 50 1, replicate 50 2] () (\<lambda>_. None) demo_entropy
      = (Inr (), [''t/1'' \<mapsto> sealed], r')"
    and 2: "enc_get demo_aead demo_rotated demo_store ''t/1'' demo_get [''t/1'' \<mapsto> sealed]
      = rbind (os_get demo_store ''t/1'' (demo_get\<lparr>go_range := None, go_head := True\<rparr>) [''t/1'' \<mapsto> sealed])
          (\<lambda>head. Inr (served demo_get (concat [replicate 50 1, replicate 50 2]) head))"
    using store_put_get [OF demo_frames demo_aead_correct demo_entropy_sized demo_entropy_total demo_store_contract,
        of "[replicate 50 1, replicate 50 2]" "''t/1''" "()" "\<lambda>_. None"]
    by (auto simp: demo_store_def)
  have "drop 60 (replicate 50 (1::byte) @ replicate 50 2) = replicate 40 2" by simp
  then have "served demo_get (concat [replicate 50 1, replicate 50 2])
      \<lparr>gr_payload = sealed, gr_range = (0, word_of_nat (length sealed)), gr_attributes = (),
       gr_meta = \<lparr>om_location = ''t/1'', om_size = word_of_nat (length sealed), om_rest = ()\<rparr>\<rparr>
      = \<lparr>gr_payload = replicate 10 2, gr_range = (60, 70), gr_attributes = (),
              gr_meta = \<lparr>om_location = ''t/1'', om_size = 100, om_rest = ()\<rparr>\<rparr>"
    by (simp add: served_def demo_get_def cut_def Let_def)
  then show ?thesis using 1 2 by (intro exI [of _ sealed] exI [of _ r'] conjI) (simp_all add: demo_store_def)
qed

text \<open>C7: sealing always succeeds with a working random source, and fetching the header and the span
  computed for a range of a sealed object opens to exactly that range of the plaintext, under the
  sealing frame's key or under any later keyring that still holds it.\<close>

theorem seal_read_range:
  assumes f: "frame_ok f" and g: "frame_ok g" "reads_from g f" and c: "aead_correct c"
    and r: "entropy_sized r" "entropy_total r" and p: "length p < 2 ^ 62" and w: "s < e" "e \<le> length p"
  shows "\<exists>sealed r' framing.
     let span = ciphertext_span g (word_of_nat s, word_of_nat e) (word_of_nat (length p)) in
     seal c f p r = (Inr sealed, r') \<and>
     read_header g (cut 0 HEADER_LEN sealed) = Inr framing \<and>
     open_span c g (cut (unat (fst span)) (unat (snd span)) sealed) span (word_of_nat s, word_of_nat e) framing
       = Inr (cut s e p)"
proof -
  obtain sealed r' where seal: "seal c f p r = (Inr sealed, r')" using seal_total [OF f c r] .
  have "holds c g p sealed" by (rule seal_holds [OF f c r(1) seal p g(2)])
  then have "readable c g p sealed" by (rule holds_readable [OF g(1)])
  then obtain fr where "read_header g (take 13 sealed) = Inr fr"
    "open_span c g (cut (unat (fst (ciphertext_span g (word_of_nat s, word_of_nat e) (word_of_nat (length p)))))
         (unat (snd (ciphertext_span g (word_of_nat s, word_of_nat e) (word_of_nat (length p))))) sealed)
       (ciphertext_span g (word_of_nat s, word_of_nat e) (word_of_nat (length p))) (word_of_nat s, word_of_nat e) fr
     = Inr (cut s e p)" by (rule readable_range [OF _ w refl])
  then show ?thesis using seal by (auto simp: Let_def cut_def frame_consts)
qed

theorem seal_read_range_witness:
  "\<exists>sealed r' framing.
     let span = ciphertext_span demo_rotated (word_of_nat 60, word_of_nat 70) (word_of_nat 100) in
     seal demo_aead demo_frame (replicate 100 3) demo_entropy = (Inr sealed, r') \<and>
     read_header demo_rotated (cut 0 HEADER_LEN sealed) = Inr framing \<and>
     open_span demo_aead demo_rotated (cut (unat (fst span)) (unat (snd span)) sealed) span (word_of_nat 60, word_of_nat 70) framing
       = Inr (replicate 10 3)"
  using seal_read_range [OF demo_frames demo_aead_correct demo_entropy_sized demo_entropy_total, of "replicate 100 3" 60 70]
  by (simp add: cut_def)

text \<open>C8: a streaming upload writes exactly the bytes that sealing the object in one piece writes, however
  its bytes are cut into parts, and draws as much from the random source; it fails only where the inner
  upload or the seal does.\<close>

theorem upload_equals_seal:
  assumes "frame_ok f" and "upload_contract ops uploaded"
    and "seal c f (concat (concat parts)) r0 = (Inr sealed, r')"
  shows "\<exists>u r x u'. put_parts c ops parts (sealing_upload_new inner f location) r0 = (Inr (), u, r) \<and>
    complete c ops u r = (Inr x, u', r') \<and> uploaded (su_inner u') = uploaded inner @ sealed"
  by (rule upload_seals [OF assms])

theorem upload_equals_seal_witness:
  "\<exists>sealed r' u r x u'. seal demo_aead demo_frame (replicate 100 3) demo_entropy = (Inr sealed, r') \<and>
    put_parts demo_aead demo_upload [[replicate 30 3], [], [replicate 40 3, replicate 30 3]]
      (sealing_upload_new [] demo_frame ''t/1'') demo_entropy = (Inr (), u, r) \<and>
    complete demo_aead demo_upload u r = (Inr x, u', r') \<and> su_inner u' = sealed"
proof -
  obtain sealed r' where seal: "seal demo_aead demo_frame (replicate 100 3) demo_entropy = (Inr sealed, r')"
    using seal_total [OF demo_frames(1) demo_aead_correct demo_entropy_sized demo_entropy_total] .
  have "concat (concat [[replicate 30 3], [], [replicate 40 3, replicate 30 3]]) = replicate 100 (3::byte)"
    by (simp flip: replicate_add)
  with seal have "seal demo_aead demo_frame (concat (concat [[replicate 30 3], [], [replicate 40 3, replicate 30 3]])) demo_entropy
      = (Inr sealed, r')" by (simp only:)
  from upload_equals_seal [OF demo_frames(1) demo_upload_contract this, of "[]" "''t/1''"] seal
  show ?thesis by auto
qed

section \<open>Lengths and spans\<close>

text \<open>C29: the length arithmetic, at the width of the code. For every plaintext below \<open>2 ^ 62\<close> bytes no
  step wraps: the sealed object has the length \<open>ciphertext_len\<close> predicts, and \<open>plaintext_len\<close> is its
  exact inverse, accepting a length below \<open>2 ^ 62\<close> only if some plaintext has it as its sealed length.\<close>

theorem sealed_length:
  assumes f: "frame_ok f" and c: "aead_correct c" and r: "entropy_sized r"
  shows "(\<forall>p sealed r'. length p < 2 ^ 62 \<longrightarrow> seal c f p r = (Inr sealed, r') \<longrightarrow>
            length sealed = unat (ciphertext_len f (word_of_nat (length p)))) \<and>
         (\<forall>m. m < 2 ^ 62 \<longrightarrow>
            (case plaintext_len f m of
               Inr n \<Rightarrow> n < m \<and> ciphertext_len f n = m
             | Inl e \<Rightarrow> e = Truncated \<and> (\<forall>n < m. ciphertext_len f n \<noteq> m)))"
proof (intro conjI allI impI)
  fix p sealed r' assume p: "length p < 2 ^ 62" and seal: "seal c f p r = (Inr sealed, r')"
  then have "holds c f p sealed" using seal_holds [OF f c r] reads_from_refl [OF f] by blast
  then have "length sealed = ct_len (bf_block_size f) (length p)" by (rule plaintext_len_sealed(2) [OF f])
  then show "length sealed = unat (ciphertext_len f (word_of_nat (length p)))"
    using p by (simp add: unat_ciphertext_len [OF f])
next
  fix m :: u64 assume m: "m < 2 ^ 62"
  let ?b = "bf_block_size f"
  have b: "0 < ?b" using f by (rule frame_ok_block)
  have um: "unat m < 2 ^ 62" using m by (simp add: word_less_nat_alt)
  have ct: "unat (ciphertext_len f n) = ct_len ?b (unat n)" if "n < m" for n
    by (rule unat_ciphertext_len [OF f]) (use that um in \<open>simp add: word_less_nat_alt\<close>)
  show "case plaintext_len f m of Inr n \<Rightarrow> n < m \<and> ciphertext_len f n = m
      | Inl e \<Rightarrow> e = Truncated \<and> (\<forall>n < m. ciphertext_len f n \<noteq> m)"
  proof (cases "pt_len ?b (unat m)")
    case None
    have "ciphertext_len f n \<noteq> m" if "n < m" for n
      using ct [OF that] None pt_len_ct_len [OF b, of "unat n"] by auto
    then show ?thesis by (simp add: unat_plaintext_len [OF f] None)
  next
    case (Some n)
    then have n: "ct_len ?b n = unat m" by (rule ct_len_pt_len [OF b])
    then have "n < unat m" by (auto simp: ct_len_def)
    then have "unat (word_of_nat n :: u64) = n" using um by simp
    then have "word_of_nat n < m" "ciphertext_len f (word_of_nat n) = m"
      using n \<open>n < unat m\<close> ct [of "word_of_nat n"] by (simp_all add: word_less_nat_alt word_unat_eq_iff)
    then show ?thesis by (simp add: unat_plaintext_len [OF f] Some)
  qed
qed

theorem sealed_length_witness:
  "\<exists>sealed r'. seal demo_aead demo_frame (replicate 100 3) demo_entropy = (Inr sealed, r') \<and>
     length sealed = unat (ciphertext_len demo_frame 100) \<and> ciphertext_len demo_frame 100 = 169 \<and>
     plaintext_len demo_frame 169 = Inr 100 \<and> (\<forall>n < 132. ciphertext_len demo_frame n \<noteq> 132)"
proof -
  obtain sealed r' where seal: "seal demo_aead demo_frame (replicate 100 3) demo_entropy = (Inr sealed, r')"
    using seal_total [OF demo_frames(1) demo_aead_correct demo_entropy_sized demo_entropy_total] .
  have "plaintext_len demo_frame 132 = Inl Truncated"
    by (simp add: plaintext_len_def sealed_block_len_def frame_consts Let_def)
  moreover have "ciphertext_len demo_frame 100 = 169" "plaintext_len demo_frame 169 = Inr 100"
    by (simp_all add: plaintext_len_def ciphertext_len_def sealed_block_len_def frame_consts Let_def)
  moreover note len = sealed_length [OF demo_frames(1) demo_aead_correct demo_entropy_sized]
  have "length sealed = unat (ciphertext_len demo_frame (word_of_nat (length (replicate 100 (3 :: byte)))))"
    using len [THEN conjunct1, rule_format, OF _ seal] by simp
  moreover have "\<forall>n < 132. ciphertext_len demo_frame n \<noteq> 132"
    using len [THEN conjunct2, rule_format, of 132] \<open>plaintext_len demo_frame 132 = Inl Truncated\<close> by simp
  ultimately show ?thesis using seal by simp
qed

text \<open>A range read fetches whole blocks and no more of them than the range touches: the span starts
  at a block, lies inside the sealed object, covers both ends of the range, and is at most as many
  strides long as there are blocks with a byte of the range in them.\<close>

theorem span_is_tight:
  assumes f: "frame_ok f" and w: "s < e" "e \<le> n" "n < 2 ^ 62"
  shows "\<exists>blocks. blocks = (e - 1) div bf_block_size f - s div bf_block_size f + 1 \<and>
     (let (start, stop) = ciphertext_span f (word_of_nat s, word_of_nat e) (word_of_nat n) in
      unat start = HEADER_LEN + s div bf_block_size f * sealed_block_len f \<and>
      start < stop \<and> stop \<le> ciphertext_len f (word_of_nat n) \<and>
      unat stop - unat start \<le> blocks * sealed_block_len f)"
proof -
  let ?b = "bf_block_size f"
  define span where "span = ciphertext_span f (word_of_nat s, word_of_nat e) (word_of_nat n)"
  have b: "0 < ?b" using f by (rule frame_ok_block)
  have u: "unat (fst span) = span_start ?b s" "unat (snd span) = span_stop ?b s e n"
    using unat_ciphertext_span [OF f, of "word_of_nat s" "word_of_nat e" "word_of_nat n"] w by (simp_all add: span_def)
  have ct: "unat (ciphertext_len f (word_of_nat n)) = ct_len ?b n" using unat_ciphertext_len [OF f] w(3) by simp
  note ss = span_stop_within [OF b w(1,2)] and ql = range_last_block [OF b w(1,2)]
  have c: "ceil_div e ?b = (e - 1) div ?b + 1" by (rule ceil_div_last [OF b]) (use w in simp)
  have "s div ?b * (?b + 28) < ceil_div e ?b * (?b + 28)" using ql(1) by (intro mult_less_mono1) simp_all
  moreover have "s div ?b \<le> n div ?b" using w by (intro div_le_mono) simp
  then have "s div ?b * (?b + 28) \<le> n div ?b * (?b + 28)" by (rule mult_le_mono1)
  ultimately have lt: "span_start ?b s < span_stop ?b s e n"
    unfolding ss(1) ct_len_strides span_start_def by linarith
  have "span_stop ?b s e n - span_start ?b s \<le> ceil_div e ?b * (?b + 28) - s div ?b * (?b + 28)"
    unfolding ss(1) span_start_def by linarith
  also have "\<dots> = (ceil_div e ?b - s div ?b) * (?b + 28)" by (simp only: diff_mult_distrib)
  also have "ceil_div e ?b - s div ?b = (e - 1) div ?b - s div ?b + 1" using ql(1) by (simp add: c)
  finally show ?thesis
    using u ct lt ss(3) by (auto simp: word_less_nat_alt word_le_nat_alt sealed_block_len_def frame_consts
        span_start_def split_beta simp flip: span_def)
qed

theorem span_is_tight_witness:
  "ciphertext_span demo_frame (70, 71) 200 = (105, 197) \<and>
   (\<exists>blocks. blocks = 1 \<and>
     (let (start, stop) = ciphertext_span demo_frame (70, 71) 200 in
      unat start = 105 \<and> start < stop \<and> stop \<le> ciphertext_len demo_frame 200 \<and>
      unat stop - unat start \<le> blocks * 92))"
proof -
  have "ciphertext_span demo_frame (70, 71) 200 = (105, 197)"
    by (simp add: ciphertext_span_def ciphertext_len_def div_ceil_def sealed_block_len_def frame_consts Let_def max_def min_def)
  moreover have "\<exists>blocks. blocks = 1 \<and>
     (let (start, stop) = ciphertext_span demo_frame (70, 71) 200 in
      unat start = 105 \<and> start < stop \<and> stop \<le> ciphertext_len demo_frame 200 \<and>
      unat stop - unat start \<le> blocks * 92)"
    using span_is_tight [OF demo_frames(1), of 70 71 200] by (simp add: sealed_block_len_def frame_consts)
  ultimately show ?thesis by blast
qed

section \<open>Tampering\<close>

text \<open>A header is accepted exactly when it is the one this frame would write under a key it holds:
  magic, version, the configured block size and a known key id, in that order, and it then reports that
  size and key.\<close>

theorem header_accepted:
  assumes "frame_ok g"
  shows "read_header g bs = Inr framing \<longleftrightarrow>
    (\<exists>k rest. k \<in> set (btree_keys (bf_keys g)) \<and> bs = header (g\<lparr>bf_current := k\<rparr>) @ rest \<and>
       framing = \<lparr>framing_block_size = bf_block_size g, framing_key = k\<rparr>)"
  by (rule read_header_iff [OF assms])

theorem header_accepted_witness:
  "read_header demo_rotated (header demo_frame) = Inr \<lparr>framing_block_size = 64, framing_key = DataKeyId 1\<rparr>"
proof -
  have "header demo_frame = header (demo_rotated\<lparr>bf_current := DataKeyId 1\<rparr>) @ []"
    by (simp add: header_def demo_frame_def demo_rotated_def)
  moreover have "DataKeyId 1 \<in> set (btree_keys (bf_keys demo_rotated))" by (simp add: demo_rotated_def btree_keys_def)
  ultimately show ?thesis
    using header_accepted [OF demo_frames(2), of "header demo_frame"] by auto
qed

text \<open>C30: exchanging two full blocks of a sealed object is detected: each is valid on its own, but reading
  the object fails at the first place of the exchange, because the index is authenticated.\<close>

theorem exchanged_blocks_detected:
  assumes "frame_ok f" and "aead_correct c" and "entropy_sized r" and "aead_binds_aad c"
    and "length p < 2 ^ 62" and "seal c f p r = (Inr sealed, r')"
    and "i < j" and "j < length p div bf_block_size f"
  shows "open_whole c f (exchange_blocks (bf_block_size f) i j sealed) = Inl (Authentication (word_of_nat i))"
  by (rule exchanged_refused [OF assms])

theorem exchanged_blocks_detected_witness:
  "\<exists>sealed r'. seal demo_aead demo_frame (replicate 200 3) demo_entropy = (Inr sealed, r') \<and>
     open_whole demo_aead demo_frame (exchange_blocks 64 0 2 sealed) = Inl (Authentication 0)"
proof -
  obtain sealed r' where seal: "seal demo_aead demo_frame (replicate 200 3) demo_entropy = (Inr sealed, r')"
    using seal_total [OF demo_frames(1) demo_aead_correct demo_entropy_sized demo_entropy_total] .
  show ?thesis
    using exchanged_blocks_detected [OF demo_frames(1) demo_aead_correct demo_entropy_sized demo_aead_binds_aad _ seal, of 0 2] seal
    by simp
qed

text \<open>A sealed block opens in no other role. Read at another index, under another key id, or with the
  other final marker (which the reader takes from the block's length), it fails to authenticate, and
  whatever was opened before it is not returned.\<close>

theorem relabelled_block_refused:
  assumes c: "aead_correct c" "aead_binds_aad c" and r: "entropy_sized r"
    and s: "frame_cipher f (bf_current f) = Inr secret"
    and eq: "seal_block c f x index final r = (Inr piece, r')"
    and moved: "(key', index', length piece < stride) \<noteq> (bf_current f, index, final)"
  shows "open_loop c secret key' stride wanted index' offset (piece # rest) opened = Inl (Authentication index')"
proof -
  have sp: "seal_piece c secret (bf_current f) x index final r = (Inr piece, r')"
    using eq by (simp add: seal_block_piece [OF s])
  have "length secret = 32" using s by (auto simp: frame_cipher_def aes_key_len_def rbind_Inr_iff split: if_splits)
  then have "28 \<le> length piece" by (rule seal_piece_length [OF c(1) r _ sp])
  moreover have "aead_decrypt c secret (take 12 piece) (associated_data key' index' (length piece < stride)) (drop 12 piece) = None"
    by (rule seal_piece_moved [OF c(2) r sp moved])
  ultimately show ?thesis by (simp add: frame_consts)
qed

theorem relabelled_block_refused_witness:
  "\<exists>piece r'. seal_block demo_aead demo_frame (replicate 64 5) 0 False demo_entropy = (Inr piece, r') \<and>
     open_loop demo_aead (demo_key 7) (DataKeyId 1) 92 (0, 64) 1 64 [piece] [] = Inl (Authentication 1)"
proof -
  have s: "frame_cipher demo_frame (bf_current demo_frame) = Inr (demo_key 7)"
    by (simp add: frame_cipher_def demo_frame_def demo_key_def aes_key_len_def)
  obtain piece r' where "seal_block demo_aead demo_frame (replicate 64 5) 0 False demo_entropy = (Inr piece, r')"
    by (simp add: seal_block_def s fill_def demo_entropy_def demo_aead_def demo_encrypt_def)
  with relabelled_block_refused [OF demo_aead_correct demo_aead_binds_aad demo_entropy_sized s this, of "DataKeyId 1" 1 92 "(0, 64)" 64 "[]" "[]"]
  show ?thesis by auto
qed

text \<open>No nonce is used twice. Every block of an object takes its own answer of the random source, one
  per block in order, so as long as that source does not repeat itself the nonces of two objects sealed
  one after the other are pairwise distinct.\<close>

theorem nonces_distinct:
  assumes f: "frame_ok f" and c: "aead_correct c" and r: "entropy_sized r"
    and s1: "seal c f p r = (Inr a, r1)" and s2: "seal c f q r1 = (Inr b, r2)"
    and fresh: "entropy_fresh n r" "drawn r2 \<le> n"
  shows "distinct (object_nonces (bf_block_size f) (length p div bf_block_size f + 1) a
                   @ object_nonces (bf_block_size f) (length q div bf_block_size f + 1) b)"
proof -
  let ?i = "length p div bf_block_size f + 1" and ?j = "length q div bf_block_size f + 1"
  note n1 = seal_nonces [OF f c r s1]
  have "entropy_sized r1" using r n1(1) by simp
  note n2 = seal_nonces [OF f c this s2]
  have src: "source r1 = source r" using n1(1) by simp
  have "[drawn r..<drawn r + ?i] @ [drawn r1..<drawn r1 + ?j] = [drawn r..<drawn r + ?i + ?j]"
    using n1(1) upt_add_eq_append [of "drawn r" "drawn r + ?i" ?j] by simp
  then have "map Some (object_nonces (bf_block_size f) ?i a @ object_nonces (bf_block_size f) ?j b)
      = map (\<lambda>k. source r k 12) [drawn r..<drawn r + ?i + ?j]"
    using n1(2) n2(2) by (simp only: map_append src [symmetric]) (simp only: src map_append [symmetric])
  moreover have "drawn r + ?i + ?j \<le> n" using fresh(2) n1(1) n2(1) by simp
  ultimately show ?thesis using fresh_distinct [OF fresh(1)] by blast
qed

theorem nonces_distinct_witness:
  "\<exists>a b r1 r2. seal demo_aead demo_frame (replicate 100 3) demo_entropy = (Inr a, r1) \<and>
     seal demo_aead demo_frame (replicate 10 4) r1 = (Inr b, r2) \<and>
     distinct (object_nonces 64 2 a @ object_nonces 64 1 b)"
proof -
  obtain a r1 where s1: "seal demo_aead demo_frame (replicate 100 3) demo_entropy = (Inr a, r1)"
    using seal_total [OF demo_frames(1) demo_aead_correct demo_entropy_sized demo_entropy_total] .
  have r1: "r1 = demo_entropy\<lparr>drawn := 2\<rparr>"
    using seal_nonces(1) [OF demo_frames(1) demo_aead_correct demo_entropy_sized s1] by (simp add: demo_entropy_def)
  then have e1: "entropy_sized r1" "entropy_total r1" using demo_entropy_sized demo_entropy_total by simp_all
  obtain b r2 where s2: "seal demo_aead demo_frame (replicate 10 4) r1 = (Inr b, r2)"
    using seal_total [OF demo_frames(1) demo_aead_correct e1] .
  have "drawn r2 \<le> 10"
    using seal_nonces(1) [OF demo_frames(1) demo_aead_correct e1(1) s2] by (simp add: r1)
  moreover have "entropy_fresh 10 demo_entropy" by (rule demo_entropy_fresh) simp
  ultimately show ?thesis
    using nonces_distinct [OF demo_frames(1) demo_aead_correct demo_entropy_sized s1 s2, of 10] s1 s2 by (simp add: numeral_2_eq_2)
qed

text \<open>C31: truncation is not always detected. An object cut after any number of full blocks and closed by
  28 bytes of any value is served without an error as the plaintext cut at that block: the reported
  length counts the 28 bytes as an empty final block, no range of that length reaches them, and the
  final marker of the block before them is never asked for.\<close>

theorem truncated_object_is_served:
  assumes g: "frame_ok g" and f: "frame_ok f" "reads_from g f" and c: "aead_correct c" and r: "entropy_sized r"
    and p: "length p < 2 ^ 62" and seal: "seal c f p r = (Inr sealed, r')"
    and os: "store_contract os contents" and k: "0 < k" "k \<le> length p div bf_block_size g"
    and tampered: "contents s location = Some (take (HEADER_LEN + k * sealed_block_len g) sealed @ junk)" "length junk = 28"
  shows "enc_get c g os location options s
    = rbind (os_get os location (options\<lparr>go_range := None, go_head := True\<rparr>) s)
        (\<lambda>head. Inr (served options (take (k * bf_block_size g) p) head))"
proof -
  have "holds c g p sealed" by (rule seal_holds [OF f(1) c r seal p f(2)])
  then have "readable c g (take (k * bf_block_size g) p) (take (13 + k * (bf_block_size g + 28)) sealed @ junk)"
    using g k tampered(2) by (intro cut_object_readable)
  then show ?thesis using tampered(1) by (intro enc_get_readable [OF os]) (simp_all add: sealed_block_len_def frame_consts)
qed

theorem truncated_object_is_served_witness:
  "\<exists>sealed r' stored. seal demo_aead demo_frame (replicate 100 3) demo_entropy = (Inr sealed, r') \<and>
     stored = take 105 sealed @ replicate 28 0 \<and>
     enc_get demo_aead demo_frame demo_store ''t/1'' \<lparr>go_head = False, go_range = None, go_conditions = ()\<rparr> [''t/1'' \<mapsto> stored]
       = Inr \<lparr>gr_payload = replicate 64 3, gr_range = (0, 64), gr_attributes = (),
              gr_meta = \<lparr>om_location = ''t/1'', om_size = 64, om_rest = ()\<rparr>\<rparr>"
proof -
  obtain sealed r' where seal: "seal demo_aead demo_frame (replicate 100 3) demo_entropy = (Inr sealed, r')"
    using seal_total [OF demo_frames(1) demo_aead_correct demo_entropy_sized demo_entropy_total] .
  show ?thesis
    using truncated_object_is_served [OF demo_frames(1,1) reads_from_refl [OF demo_frames(1)] demo_aead_correct
        demo_entropy_sized _ seal demo_store_contract, of 1 "[''t/1'' \<mapsto> take 105 sealed @ replicate 28 0]" "''t/1''" "replicate 28 0"
        "\<lparr>go_head = False, go_range = None, go_conditions = ()\<rparr>"] seal
    by (simp add: sealed_block_len_def frame_consts served_def demo_store_def Let_def cut_def)
qed

end
