(* ===== verification/Text.thy ===== *)
theory Text
  imports Prelude
begin

text \<open>
  The parts of \<open>str\<close> and \<open>std::fmt\<close> the line formats of the program use: the characters of a string,
  splitting at a character, \<open>lines\<close>, decimal and hexadecimal numbers, and the locale of an escaped field.
  A string is the list of its UTF-8 bytes; every character looked for is ASCII. What a file holds may be
  any bytes: \<open>utf8\<close> says which byte strings are a Rust \<open>String\<close>.
\<close>

abbreviation tab :: char where "tab \<equiv> CHR 0x09"
abbreviation newline :: char where "newline \<equiv> CHR 0x0A"
abbreviation carriage :: char where "carriage \<equiv> CHR 0x0D"
abbreviation backslash :: char where "backslash \<equiv> CHR 0x5C"

text \<open>\<open>as_bytes\<close>: the bytes of a string.\<close>

definition ascii :: "string \<Rightarrow> bytes" where
  "ascii s = map (\<lambda>ch. word_of_nat (of_char ch)) s"

lemma ascii_inject [simp]: "ascii s = ascii t \<longleftrightarrow> s = t"
proof -
  have "inj (\<lambda>ch :: char. word_of_nat (of_char ch) :: byte)"
  proof (rule injI)
    fix a b :: char assume "(word_of_nat (of_char a) :: byte) = word_of_nat (of_char b)"
    then have "unat (word_of_nat (of_char a) :: byte) = unat (word_of_nat (of_char b) :: byte)" by simp
    then have "(of_char a :: nat) mod 256 = of_char b mod 256" by (simp only: unat_of_nat_byte)
    then have "(of_char a :: nat) = of_char b" by (simp only: of_char_mod_256)
    then show "a = b" by (simp only: of_char_eq_iff)
  qed
  then show ?thesis by (simp add: ascii_def inj_map_eq_map)
qed

lemma length_ascii [simp]: "length (ascii s) = length s"
  by (simp add: ascii_def)

section \<open>Characters\<close>

text \<open>
  \<open>str::chars\<close> on the bytes: the first byte of a character says how many continuation bytes follow. A byte
  string is UTF-8 when every piece is well formed (Unicode, table 3-7).
\<close>

definition continuations :: "char \<Rightarrow> nat" where
  "continuations c =
     (let n = of_char c :: nat in if n < 192 then 0 else if n < 224 then 1 else if n < 240 then 2 else 3)"

fun characters :: "string \<Rightarrow> string list" where
  "characters [] = []"
| "characters (c # cs) = (c # take (continuations c) cs) # characters (drop (continuations c) cs)"

definition tail_byte :: "nat \<Rightarrow> bool" where
  "tail_byte n \<longleftrightarrow> 128 \<le> n \<and> n < 192"

fun well_formed_bytes :: "nat list \<Rightarrow> bool" where
  "well_formed_bytes [a] \<longleftrightarrow> a < 128"
| "well_formed_bytes [a, b] \<longleftrightarrow> 194 \<le> a \<and> a < 224 \<and> tail_byte b"
| "well_formed_bytes [a, b, c] \<longleftrightarrow>
     224 \<le> a \<and> a < 240 \<and> tail_byte b \<and> tail_byte c \<and> (a = 224 \<longrightarrow> 160 \<le> b) \<and> (a = 237 \<longrightarrow> b < 160)"
| "well_formed_bytes [a, b, c, d] \<longleftrightarrow>
     240 \<le> a \<and> a < 245 \<and> tail_byte b \<and> tail_byte c \<and> tail_byte d \<and> (a = 240 \<longrightarrow> 144 \<le> b) \<and> (a = 244 \<longrightarrow> b < 144)"
| "well_formed_bytes _ \<longleftrightarrow> False"

definition well_formed :: "string \<Rightarrow> bool" where
  "well_formed s \<longleftrightarrow> well_formed_bytes (map of_char s)"

definition utf8 :: "string \<Rightarrow> bool" where
  "utf8 s \<longleftrightarrow> list_all well_formed (characters s)"

text \<open>The number of a character: its code point.\<close>

fun code_point_bytes :: "nat list \<Rightarrow> nat" where
  "code_point_bytes [a] = a"
| "code_point_bytes [a, b] = (a - 192) * 64 + (b - 128)"
| "code_point_bytes [a, b, c] = (a - 224) * 4096 + (b - 128) * 64 + (c - 128)"
| "code_point_bytes [a, b, c, d] = (a - 240) * 262144 + (b - 128) * 4096 + (c - 128) * 64 + (d - 128)"
| "code_point_bytes _ = 0"

definition code_point :: "string \<Rightarrow> nat" where
  "code_point ch = code_point_bytes (map of_char ch)"

lemma well_formed_cases:
  assumes "well_formed ch"
  obtains c where "ch = [c]" "of_char c < (128 :: nat)"
    | c cs where "ch = c # cs" "length cs = continuations c" "cs \<noteq> []" "\<forall>x \<in> set ch. 128 \<le> (of_char x :: nat)"
proof -
  from assms have "well_formed_bytes (map of_char ch)" by (simp add: well_formed_def)
  then consider a where "map of_char ch = [a :: nat]" "a < 128"
    | a b where "map of_char ch = [a :: nat, b]" "194 \<le> a" "a < 224" "tail_byte b"
    | a b c where "map of_char ch = [a :: nat, b, c]" "224 \<le> a" "a < 240" "tail_byte b" "tail_byte c"
    | a b c d where "map of_char ch = [a :: nat, b, c, d]" "240 \<le> a" "a < 245" "tail_byte b" "tail_byte c" "tail_byte d"
    by (cases "map of_char ch :: nat list" rule: well_formed_bytes.cases) auto
  then show ?thesis
  proof cases
    case 1
    then show ?thesis by (auto simp: map_eq_Cons_conv intro: that(1))
  next
    case 2
    then obtain x y where "ch = [x, y]" "of_char x = a" "of_char y = b" by (auto simp: map_eq_Cons_conv)
    with 2 show ?thesis by (intro that(2) [of x "[y]"]) (auto simp: continuations_def tail_byte_def)
  next
    case 3
    then obtain x y z where "ch = [x, y, z]" "of_char x = a" "of_char y = b" "of_char z = c" by (auto simp: map_eq_Cons_conv)
    with 3 show ?thesis by (intro that(2) [of x "[y, z]"]) (auto simp: continuations_def tail_byte_def)
  next
    case 4
    then obtain x y z u where "ch = [x, y, z, u]" "of_char x = a" "of_char y = b" "of_char z = c" "of_char u = d"
      by (auto simp: map_eq_Cons_conv)
    with 4 show ?thesis by (intro that(2) [of x "[y, z, u]"]) (auto simp: continuations_def tail_byte_def)
  qed
qed

lemma characters_first: "well_formed ch \<Longrightarrow> characters (ch @ s) = ch # characters s"
  by (erule well_formed_cases) (auto simp: continuations_def)

lemma utf8_Nil [simp]: "utf8 []"
  by (simp add: utf8_def)

lemma utf8_first [simp]: "well_formed ch \<Longrightarrow> utf8 (ch @ s) \<longleftrightarrow> utf8 s"
  by (simp add: utf8_def characters_first)

lemma concat_characters: "concat (characters s) = s"
  by (induction s rule: characters.induct) simp_all

lemma utf8_induct [consumes 1, case_names Nil char]:
  assumes "utf8 s" and "P []" and "\<And>ch s. well_formed ch \<Longrightarrow> utf8 s \<Longrightarrow> P s \<Longrightarrow> P (ch @ s)"
  shows "P s"
proof -
  have "list_all well_formed chs \<Longrightarrow> utf8 (concat chs) \<and> P (concat chs)" for chs
    by (induction chs) (use assms(2,3) in auto)
  then show ?thesis using assms(1) concat_characters [of s] by (metis utf8_def)
qed

lemma utf8_append [simp]: "utf8 s \<Longrightarrow> utf8 (s @ t) \<longleftrightarrow> utf8 t"
  by (induction rule: utf8_induct) simp_all

lemma utf8_ascii_char [simp]: "of_char c < (128 :: nat) \<Longrightarrow> utf8 (c # s) \<longleftrightarrow> utf8 s"
  using utf8_first [of "[c]" s] by (simp add: well_formed_def)

lemma utf8_ascii: "(\<And>c. c \<in> set s \<Longrightarrow> of_char c < (128 :: nat)) \<Longrightarrow> utf8 s"
  by (induction s) auto

lemma utf8_concat: "(\<And>s. s \<in> set ss \<Longrightarrow> utf8 s) \<Longrightarrow> utf8 (concat ss)"
  by (induction ss) auto

text \<open>Reading a file to a string: bytes that are not UTF-8 are an error of the call.\<close>

definition NOT_UTF8 :: string where "NOT_UTF8 = ''stream did not contain valid UTF-8''"

definition decode_text :: "string \<Rightarrow> string + string" where
  "decode_text content = (if utf8 content then Inr content else Inl NOT_UTF8)"

section \<open>Splitting\<close>

text \<open>\<open>str::split\<close> at a character: always at least one field.\<close>

fun split_on :: "'a \<Rightarrow> 'a list \<Rightarrow> 'a list list" where
  "split_on c [] = [[]]"
| "split_on c (x # xs) =
     (if x = c then [] # split_on c xs
      else (case split_on c xs of [] \<Rightarrow> [[x]] | f # fs \<Rightarrow> (x # f) # fs))"

lemma split_on_not_Nil [simp]: "split_on c xs \<noteq> []"
  by (induction xs) (auto split: list.split)

lemma split_on_none [simp]: "c \<notin> set xs \<Longrightarrow> split_on c xs = [xs]"
  by (induction xs) auto

lemma split_on_append: "c \<notin> set xs \<Longrightarrow> split_on c (xs @ c # ys) = xs # split_on c ys"
  by (induction xs) auto

text \<open>
  \<open>str::lines\<close>: a line ends at a line feed; a carriage return before it belongs to the ending, one at
  the very end of the text does not; an empty rest after the last line feed is no line.
\<close>

definition strip_carriage :: "string \<Rightarrow> string" where
  "strip_carriage l = (if l \<noteq> [] \<and> last l = carriage then butlast l else l)"

definition lines_of :: "string \<Rightarrow> string list" where
  "lines_of s =
     (let parts = split_on newline s
      in map strip_carriage (butlast parts) @ (if last parts = [] then [] else [last parts]))"

lemma lines_of_Nil [simp]: "lines_of [] = []"
  by (simp add: lines_of_def)

lemma lines_of_line: "newline \<notin> set l \<Longrightarrow> lines_of (l @ newline # s) = strip_carriage l # lines_of s"
  by (simp add: lines_of_def split_on_append Let_def)

lemma strip_carriage_id: "l = [] \<or> last l \<noteq> carriage \<Longrightarrow> strip_carriage l = l"
  by (auto simp: strip_carriage_def)

text \<open>A text that ends with a line feed, or is empty, and what is appended to it are read separately.\<close>

definition whole_lines :: "string \<Rightarrow> bool" where
  "whole_lines s \<longleftrightarrow> s = [] \<or> last s = newline"

lemma whole_lines_induct [consumes 1, case_names Nil line]:
  assumes w: "whole_lines s" and n: "P []"
    and l: "\<And>l s. newline \<notin> set l \<Longrightarrow> whole_lines s \<Longrightarrow> P s \<Longrightarrow> P (l @ newline # s)"
  shows "P s"
  using w
proof (induction "length s" arbitrary: s rule: less_induct)
  case less
  show ?case
  proof (cases "s = []")
    case True
    then show ?thesis using n by simp
  next
    case False
    then have "newline \<in> set s" using less.prems last_in_set [OF False] by (auto simp: whole_lines_def)
    then obtain l t where s: "s = l @ newline # t" and l': "newline \<notin> set l" by (metis split_list_first)
    have t: "whole_lines t" using less.prems by (simp add: whole_lines_def s split: if_splits)
    have "P t" by (rule less.hyps [OF _ t]) (simp add: s)
    then show ?thesis using l l' t by (simp add: s)
  qed
qed

lemma lines_of_append: "whole_lines s \<Longrightarrow> lines_of (s @ t) = lines_of s @ lines_of t"
  by (induction rule: whole_lines_induct) (simp_all add: lines_of_line)

section \<open>Decimal numbers\<close>

definition digit :: "nat \<Rightarrow> char" where "digit n = char_of (48 + n)"

fun show_nat :: "nat \<Rightarrow> string" where
  "show_nat n = (if n < 10 then [digit n] else show_nat (n div 10) @ [digit (n mod 10)])"

declare show_nat.simps [simp del]

definition digit_value :: "char \<Rightarrow> nat option" where
  "digit_value c = (let n = of_char c in if 48 \<le> n \<and> n \<le> 57 then Some (n - 48) else None)"

fun digits_value :: "nat \<Rightarrow> string \<Rightarrow> nat option" where
  "digits_value acc [] = Some acc"
| "digits_value acc (c # cs) =
     (case digit_value c of None \<Rightarrow> None | Some d \<Rightarrow> digits_value (acc * 10 + d) cs)"

text \<open>\<open>str::parse::<u64>\<close>: an optional plus sign, at least one digit, no overflow.\<close>

definition parse_u64 :: "string \<Rightarrow> u64 option" where
  "parse_u64 s =
     (let ds = (case s of c # cs \<Rightarrow> if c = CHR ''+'' then cs else s | [] \<Rightarrow> [])
      in if ds = [] then None
         else (case digits_value 0 ds of
                 None \<Rightarrow> None
               | Some n \<Rightarrow> if n < 2 ^ 64 then Some (word_of_nat n) else None))"

lemma of_char_digit [simp]: "n < 10 \<Longrightarrow> of_char (digit n) = (48 + n :: nat)"
  by (simp add: digit_def)

lemma digit_value_digit [simp]: "n < 10 \<Longrightarrow> digit_value (digit n) = Some n"
  by (simp add: digit_value_def Let_def)

lemma digits_value_append:
  "digits_value acc (xs @ ys) = (case digits_value acc xs of None \<Rightarrow> None | Some n \<Rightarrow> digits_value n ys)"
  by (induction xs arbitrary: acc) (auto split: option.splits)

lemma digits_value_show: "digits_value 0 (show_nat n) = Some n"
proof (induction n rule: show_nat.induct)
  case (1 n)
  then show ?case
    by (cases "n < 10") (simp_all add: show_nat.simps [of n] digits_value_append)
qed

lemma show_nat_digits: "c \<in> set (show_nat n) \<Longrightarrow> \<exists>d < 10. c = digit d"
proof (induction n rule: show_nat.induct)
  case (1 n)
  have "n mod 10 < 10" by simp
  then have "\<exists>d < 10. digit (n mod 10) = digit d" by blast
  with 1 show ?case
    by (cases "n < 10") (auto simp: show_nat.simps [of n])
qed

lemma show_nat_not_Nil [simp]: "show_nat n \<noteq> []"
  by (simp add: show_nat.simps [of n])

lemma digit_range: "d < 10 \<Longrightarrow> of_char (digit d) \<in> {48..57 :: nat}"
  by simp

lemma show_nat_plain: "of_char c < (48 :: nat) \<or> 57 < (of_char c :: nat) \<Longrightarrow> c \<notin> set (show_nat n)"
  using show_nat_digits digit_range by fastforce

lemma utf8_show_nat [simp]: "utf8 (show_nat n)"
proof (rule utf8_ascii)
  fix c assume "c \<in> set (show_nat n)"
  then obtain d where "d < 10" "c = digit d" using show_nat_digits by blast
  then show "of_char c < (128 :: nat)" by simp
qed

lemma parse_show_u64 [simp]: "parse_u64 (show_nat (unat w)) = Some w"
proof -
  have "CHR ''+'' \<notin> set (show_nat (unat w))" by (rule show_nat_plain) simp
  then have "(case show_nat (unat w) of c # cs \<Rightarrow> if c = CHR ''+'' then cs else show_nat (unat w) | [] \<Rightarrow> [])
      = show_nat (unat w)" by (cases "show_nat (unat w)") auto
  then show ?thesis using unat_u64_bound [of w] by (simp add: parse_u64_def digits_value_show)
qed

section \<open>Hexadecimal\<close>

definition hex_digit :: "nat \<Rightarrow> char" where
  "hex_digit n = char_of (if n < 10 then 48 + n else 87 + n)"

text \<open>\<open>{byte:02x}\<close>, for every byte of a hash.\<close>

definition hex_byte :: "byte \<Rightarrow> string" where
  "hex_byte b = [hex_digit (unat b div 16), hex_digit (unat b mod 16)]"

definition hex :: "bytes \<Rightarrow> string" where
  "hex bs = concat (map hex_byte bs)"

definition hex_value :: "char \<Rightarrow> nat option" where
  "hex_value c =
     (let n = of_char c in
      if 48 \<le> n \<and> n \<le> 57 then Some (n - 48)
      else if 97 \<le> n \<and> n \<le> 102 then Some (n - 87)
      else if 65 \<le> n \<and> n \<le> 70 then Some (n - 55) else None)"

text \<open>\<open>u8::from_str_radix(pair, 16)\<close> on two characters: a leading plus sign is accepted.\<close>

definition hex_pair_value :: "char \<Rightarrow> char \<Rightarrow> byte option" where
  "hex_pair_value a b =
     (if a = CHR ''+'' then map_option word_of_nat (hex_value b)
      else (case (hex_value a, hex_value b) of
              (Some x, Some y) \<Rightarrow> Some (word_of_nat (16 * x + y))
            | _ \<Rightarrow> None))"

fun unhex_pairs :: "string \<Rightarrow> bytes option" where
  "unhex_pairs (a # b # rest) =
     (case hex_pair_value a b of
        None \<Rightarrow> None
      | Some x \<Rightarrow> (case unhex_pairs rest of None \<Rightarrow> None | Some xs \<Rightarrow> Some (x # xs)))"
| "unhex_pairs [] = Some []"
| "unhex_pairs [a] = None"

lemma of_char_hex_digit [simp]: "n < 16 \<Longrightarrow> of_char (hex_digit n) = (if n < 10 then 48 + n else 87 + n :: nat)"
  by (simp add: hex_digit_def)

lemma hex_value_digit [simp]: "n < 16 \<Longrightarrow> hex_value (hex_digit n) = Some n"
  by (simp add: hex_value_def Let_def)

lemma hex_digit_not_plus: "n < 16 \<Longrightarrow> hex_digit n \<noteq> CHR ''+''"
proof
  assume "n < 16" "hex_digit n = CHR ''+''"
  then have "of_char (hex_digit n) = (43 :: nat)" by simp
  with \<open>n < 16\<close> show False by (simp split: if_splits)
qed

lemma hex_pair_byte: "hex_pair_value (hex_digit (unat b div 16)) (hex_digit (unat b mod 16)) = Some (b :: byte)"
proof -
  have "unat b < 256" using unat_bound [of b] by simp
  then have d: "unat b div 16 < 16" by simp
  have "16 * (unat b div 16) + unat b mod 16 = unat b" by simp
  then have "word_of_nat (16 * (unat b div 16) + unat b mod 16) = b" by simp
  then show ?thesis using d hex_digit_not_plus [OF d] by (simp add: hex_pair_value_def del: of_nat_add of_nat_mult)
qed

lemma unhex_hex: "unhex_pairs (hex bs) = Some bs"
  by (induction bs) (simp_all add: hex_def hex_byte_def hex_pair_byte)

lemma length_hex [simp]: "length (hex bs) = 2 * length bs"
  by (induction bs) (simp_all add: hex_def hex_byte_def)

lemma hex_plain: "of_char c < (48 :: nat) \<Longrightarrow> c \<notin> set (hex bs)"
proof
  assume c: "of_char c < (48 :: nat)" and "c \<in> set (hex bs)"
  then obtain b where "c = hex_digit (unat (b :: byte) div 16) \<or> c = hex_digit (unat b mod 16)"
    by (auto simp: hex_def hex_byte_def)
  moreover have "unat b div 16 < 16" "unat b mod 16 < 16" using unat_bound [of b] by auto
  ultimately show False using c by (auto split: if_splits)
qed

lemma utf8_hex [simp]: "utf8 (hex bs)"
proof (rule utf8_ascii)
  fix c assume "c \<in> set (hex bs)"
  then obtain b where "c = hex_digit (unat (b :: byte) div 16) \<or> c = hex_digit (unat b mod 16)"
    by (auto simp: hex_def hex_byte_def)
  moreover have "unat b div 16 < 16" "unat b mod 16 < 16" using unat_bound [of b] by auto
  ultimately show "of_char c < (128 :: nat)" by (auto split: if_splits)
qed

section \<open>Escaped fields\<close>

text \<open>
  A codec for a free-form field of a line: what it writes can be read back, and contains none of the
  characters the line format gives a meaning.
\<close>

locale field_codec =
  fixes enc :: "string \<Rightarrow> string" and dec :: "string \<Rightarrow> string" and special :: "char set"
  assumes dec_enc: "dec (enc s) = s"
    and enc_clean: "c \<in> special \<Longrightarrow> c \<notin> set (enc s)"
begin

lemma enc_inject: "enc s = enc t \<longleftrightarrow> s = t"
  by (metis dec_enc)

lemma enc_field: "c \<in> special \<Longrightarrow> split_on c (enc s @ c # rest) = enc s # split_on c rest"
  by (simp add: split_on_append enc_clean)

lemma enc_last_field: "c \<in> special \<Longrightarrow> split_on c (enc s) = [enc s]"
  by (simp add: enc_clean)

lemma enc_line: "newline \<in> special \<Longrightarrow> carriage \<in> special \<Longrightarrow> lines_of (enc s @ newline # rest) = enc s # lines_of rest"
  using enc_clean [of carriage s] enc_clean [of newline s]
  by (simp add: lines_of_line) (rule strip_carriage_id, metis last_in_set)

end

end
