(* ===== verification/Keyring.thy ===== *)
theory Keyring
  imports Object_Claims Text
begin

text \<open>
  \<open>crypto/keyring.rs\<close>: the set of data keys of a database, wrapped under a key derived from the
  passphrase, and the keyfile it is persisted as. Argon2id is the parameter \<open>kdf\<close> (passphrase and
  salt to key, \<open>None\<close> where the crate returns an error) and HMAC-SHA256 the parameter \<open>mac\<close>.

  An operation on \<open>&mut self\<close> returns the keyring it leaves behind on its error branches too, since the
  caller still holds it. A call to the random source that fails is taken to leave its buffer as it was.
\<close>

section \<open>Parameters\<close>

type_synonym kdf = "string \<Rightarrow> bytes \<Rightarrow> bytes option"
type_synonym mac = "bytes \<Rightarrow> bytes \<Rightarrow> bytes"

text \<open>\<open>hash_password_into\<close> fills the buffer it is given, here thirty-two bytes.\<close>

definition kdf_sized :: "kdf \<Rightarrow> bool" where
  "kdf_sized kdf \<longleftrightarrow> (\<forall>passphrase salt key. kdf passphrase salt = Some key \<longrightarrow> length key = 32)"

section \<open>Errors and constants\<close>

datatype keyring_error =
    WrongPassphrase
  | MalformedKeyfile string
  | UnsupportedKeyfile byte
  | KeySpaceExhausted
  | Random
  | Derivation
  | Wrapping

definition KEYFILE_VERSION :: byte where "KEYFILE_VERSION = 2"
definition SALT_LEN :: nat where "SALT_LEN = 16"
definition PREFIX_LEN :: nat where "PREFIX_LEN = 1 + SALT_LEN + NONCE_LEN"
definition ENTRY_LEN :: nat where "ENTRY_LEN = 4 + KEY_LEN"
definition SET_HEADER_LEN :: nat where "SET_HEADER_LEN = 4 + 2"

lemmas keyring_consts = SALT_LEN_def PREFIX_LEN_def ENTRY_LEN_def SET_HEADER_LEN_def KEY_LEN_def frame_consts

definition KEYFILE_CONTEXT :: bytes where "KEYFILE_CONTEXT = ascii ''euledb-keyfile-v2''"

record keyring =
  kr_keys :: "(data_key_id \<times> secret_key) list"
  kr_current :: data_key_id
  kr_kek :: secret_key
  kr_salt :: bytes
  kr_nonce :: bytes
  kr_sealed :: bytes

section \<open>The key set as bytes\<close>

text \<open>The count saturates at the largest \<open>u16\<close>.\<close>

definition encode_key_set :: "data_key_id \<Rightarrow> (data_key_id \<times> secret_key) list \<Rightarrow> bytes" where
  "encode_key_set current keys =
     le32 (key_id_get current)
     @ le16 (if length keys < 2 ^ 16 then word_of_nat (length keys) else - 1)
     @ concat (map (\<lambda>(id, key). le32 (key_id_get id) @ key) keys)"

definition decode_entry :: "bytes \<Rightarrow> data_key_id \<times> secret_key" where
  "decode_entry entry = (DataKeyId (from_le32 (take 4 entry)), drop 4 entry)"

definition decode_key_set :: "bytes \<Rightarrow> keyring_error + data_key_id \<times> (data_key_id \<times> secret_key) list" where
  "decode_key_set bs =
     (if length bs < SET_HEADER_LEN then Inl (MalformedKeyfile ''key set is shorter than its own header'')
      else
        (let current = DataKeyId (from_le32 (cut 0 4 bs));
             count = unat (from_le16 (cut 4 6 bs));
             entries = drop SET_HEADER_LEN bs
         in if length entries \<noteq> count * ENTRY_LEN
            then Inl (MalformedKeyfile ''key set does not hold the number of keys it declares'')
            else
              (let keys = foldl (\<lambda>acc entry. btree_insert (fst (decode_entry entry)) (snd (decode_entry entry)) acc)
                            [] (chunks ENTRY_LEN entries)
               in if current \<notin> set (btree_keys keys)
                  then Inl (MalformedKeyfile ''the current key is not in the key set'')
                  else Inr (current, keys))))"

section \<open>Deriving and wrapping\<close>

definition derive_key_encryption_key :: "kdf \<Rightarrow> string \<Rightarrow> bytes \<Rightarrow> keyring_error + secret_key" where
  "derive_key_encryption_key kdf passphrase salt = ok_or Derivation (kdf passphrase salt)"

definition wrap_cipher :: "secret_key \<Rightarrow> keyring_error + secret_key" where
  "wrap_cipher key = (if length key = aes_key_len then Inr key else Inl Wrapping)"

text \<open>The nonce is replaced before the key set is sealed, so a failure leaves it beside the old one.\<close>

definition reseal :: "aead \<Rightarrow> keyring \<Rightarrow> entropy \<Rightarrow> (keyring_error + unit) \<times> keyring \<times> entropy" where
  "reseal c k r =
     (case fill NONCE_LEN r of
        (None, r') \<Rightarrow> (Inl Random, k, r')
      | (Some nonce, r') \<Rightarrow>
          (let k1 = k\<lparr>kr_nonce := nonce\<rparr>; plaintext = encode_key_set (kr_current k1) (kr_keys k1) in
           case wrap_cipher (kr_kek k1) of
             Inl e \<Rightarrow> (Inl e, k1, r')
           | Inr key \<Rightarrow>
               (case aead_encrypt c key nonce KEYFILE_CONTEXT plaintext of
                  None \<Rightarrow> (Inl Wrapping, k1, r')
                | Some sealed \<Rightarrow> (Inr (), k1\<lparr>kr_sealed := sealed\<rparr>, r'))))"

section \<open>Operations\<close>

definition keyring_create :: "aead \<Rightarrow> kdf \<Rightarrow> string \<Rightarrow> entropy \<Rightarrow> (keyring_error + keyring) \<times> entropy" where
  "keyring_create c kdf passphrase r =
     (case secret_key_generate r of
        (None, r1) \<Rightarrow> (Inl Random, r1)
      | (Some key, r1) \<Rightarrow>
          (let keys = btree_insert FIRST_KEY key [] in
           case fill SALT_LEN r1 of
             (None, r2) \<Rightarrow> (Inl Random, r2)
           | (Some salt, r2) \<Rightarrow>
               (case derive_key_encryption_key kdf passphrase salt of
                  Inl e \<Rightarrow> (Inl e, r2)
                | Inr kek \<Rightarrow>
                    (case reseal c \<lparr>kr_keys = keys, kr_current = FIRST_KEY, kr_kek = kek, kr_salt = salt,
                                    kr_nonce = replicate NONCE_LEN 0, kr_sealed = []\<rparr> r2 of
                       (Inl e, k, r3) \<Rightarrow> (Inl e, r3)
                     | (Inr _, k, r3) \<Rightarrow> (Inr k, r3)))))"

definition keyring_open :: "aead \<Rightarrow> kdf \<Rightarrow> bytes \<Rightarrow> string \<Rightarrow> keyring_error + keyring" where
  "keyring_open c kdf keyfile passphrase =
     (if length keyfile < PREFIX_LEN then Inl (MalformedKeyfile ''shorter than a keyfile header'')
      else if keyfile ! 0 \<noteq> KEYFILE_VERSION then Inl (UnsupportedKeyfile (keyfile ! 0))
      else
        (let rest = drop 1 keyfile;
             salt = take SALT_LEN rest;
             rest' = drop SALT_LEN rest;
             nonce = take NONCE_LEN rest';
             sealed = drop NONCE_LEN rest'
         in if length sealed < SET_HEADER_LEN + ENTRY_LEN + TAG_LEN
            then Inl (MalformedKeyfile ''too short to hold even one key'')
            else if (length sealed - TAG_LEN - SET_HEADER_LEN) mod ENTRY_LEN \<noteq> 0
            then Inl (MalformedKeyfile ''length is not a whole number of keys'')
            else
              rbind (derive_key_encryption_key kdf passphrase salt) (\<lambda>kek.
              rbind (wrap_cipher kek) (\<lambda>key.
              rbind (ok_or WrongPassphrase (aead_decrypt c key nonce KEYFILE_CONTEXT sealed)) (\<lambda>opened.
              rbind (decode_key_set opened) (\<lambda>(current, keys).
                Inr \<lparr>kr_keys = keys, kr_current = current, kr_kek = kek, kr_salt = salt, kr_nonce = nonce,
                     kr_sealed = sealed\<rparr>))))))"

definition to_keyfile :: "keyring \<Rightarrow> bytes" where
  "to_keyfile k = [KEYFILE_VERSION] @ kr_salt k @ kr_nonce k @ kr_sealed k"

definition rotate_data_key :: "aead \<Rightarrow> keyring \<Rightarrow> entropy \<Rightarrow> (keyring_error + data_key_id) \<times> keyring \<times> entropy" where
  "rotate_data_key c k r =
     (let newest = (if btree_keys (kr_keys k) = [] then FIRST_KEY else last (btree_keys (kr_keys k))) in
      case key_id_next newest of
        None \<Rightarrow> (Inl KeySpaceExhausted, k, r)
      | Some next_id \<Rightarrow>
          (case secret_key_generate r of
             (None, r1) \<Rightarrow> (Inl Random, k, r1)
           | (Some key, r1) \<Rightarrow>
               (let k1 = k\<lparr>kr_keys := btree_insert next_id key (kr_keys k), kr_current := next_id\<rparr> in
                case reseal c k1 r1 of
                  (Inl e, k2, r2) \<Rightarrow> (Inl e, k2, r2)
                | (Inr _, k2, r2) \<Rightarrow> (Inr next_id, k2, r2))))"

definition change_passphrase ::
  "aead \<Rightarrow> kdf \<Rightarrow> keyring \<Rightarrow> string \<Rightarrow> entropy \<Rightarrow> (keyring_error + unit) \<times> keyring \<times> entropy" where
  "change_passphrase c kdf k passphrase r =
     (case fill SALT_LEN r of
        (None, r1) \<Rightarrow> (Inl Random, k, r1)
      | (Some salt, r1) \<Rightarrow>
          (let k1 = k\<lparr>kr_salt := salt\<rparr> in
           case derive_key_encryption_key kdf passphrase salt of
             Inl e \<Rightarrow> (Inl e, k1, r1)
           | Inr kek \<Rightarrow> reseal c (k1\<lparr>kr_kek := kek\<rparr>) r1))"

definition token_key :: "mac \<Rightarrow> keyring \<Rightarrow> bytes" where
  "token_key mac k = mac (kr_kek k) (ascii ''euledb/token-key/v1'')"

definition data_key_ids :: "keyring \<Rightarrow> data_key_id list" where
  "data_key_ids k = btree_keys (kr_keys k)"

definition data_key :: "keyring \<Rightarrow> data_key_id \<Rightarrow> secret_key option" where
  "data_key k key = map_of (kr_keys k) key"

definition keyring_frame :: "keyring \<Rightarrow> nat \<Rightarrow> block_frame" where
  "keyring_frame k block_size = block_frame_new (kr_keys k) (kr_current k) block_size"

end
