(* ===== verification/Keyring_Proofs.thy ===== *)
theory Keyring_Proofs
  imports Keyring
begin

text \<open>
  The invariant of a keyring, that every operation keeps it, and the round trip through the keyfile.
\<close>

section \<open>The invariant\<close>

text \<open>
  The part every keyring has, even after a failed operation: ordered keys of the right length, among
  them the current one.
\<close>

definition key_set_ok :: "data_key_id \<Rightarrow> (data_key_id \<times> secret_key) list \<Rightarrow> bool" where
  "key_set_ok current keys \<longleftrightarrow>
     btree_ok keys \<and> current \<in> set (btree_keys keys) \<and> (\<forall>key \<in> snd ` set keys. length key = KEY_LEN)"

definition keyring_ok :: "keyring \<Rightarrow> bool" where
  "keyring_ok k \<longleftrightarrow>
     key_set_ok (kr_current k) (kr_keys k) \<and> length (kr_kek k) = 32 \<and> length (kr_salt k) = SALT_LEN \<and>
     length (kr_nonce k) = NONCE_LEN"

text \<open>The part an operation that succeeded establishes: the sealed bytes wrap the key set held.\<close>

definition wrapped :: "aead \<Rightarrow> keyring \<Rightarrow> bool" where
  "wrapped c k \<longleftrightarrow>
     aead_encrypt c (kr_kek k) (kr_nonce k) KEYFILE_CONTEXT (encode_key_set (kr_current k) (kr_keys k))
       = Some (kr_sealed k)"

lemma reseal_result:
  assumes c: "aead_correct c" and r: "entropy_sized r" and k: "keyring_ok k"
    and eq: "reseal c k r = (res, k', r')"
  shows "keyring_ok k'" and "entropy_sized r'" and "kr_keys k' = kr_keys k" and "kr_current k' = kr_current k"
    and "kr_kek k' = kr_kek k" and "kr_salt k' = kr_salt k"
    and "res = Inr () \<Longrightarrow> wrapped c k'" and "res = Inr () \<or> res = Inl Random"
    and "res = Inl Random \<Longrightarrow> k' = k"
proof -
  have key: "wrap_cipher (kr_kek k) = Inr (kr_kek k)" "length (kr_kek k) = 32"
    using k by (simp_all add: wrap_cipher_def aes_key_len_def keyring_ok_def)
  consider (none) "source r (drawn r) 12 = None" | (some) nonce where "source r (drawn r) 12 = Some nonce" by blast
  then have "keyring_ok k' \<and> entropy_sized r' \<and> kr_keys k' = kr_keys k \<and> kr_current k' = kr_current k \<and>
    kr_kek k' = kr_kek k \<and> kr_salt k' = kr_salt k \<and> (res = Inr () \<longrightarrow> wrapped c k') \<and>
    (res = Inr () \<or> res = Inl Random) \<and> (res = Inl Random \<longrightarrow> k' = k)"
  proof cases
    case none
    then show ?thesis using eq k r by (auto simp: reseal_def fill_def frame_consts)
  next
    case (some nonce)
    then have n: "length nonce = 12" using r by (simp add: entropy_sized_def)
    obtain ct where "aead_encrypt c (kr_kek k) nonce KEYFILE_CONTEXT (encode_key_set (kr_current k) (kr_keys k)) = Some ct"
      using c key(2) n by (rule aead_correctD)
    then show ?thesis using eq k r some n key
      by (auto simp: reseal_def fill_def frame_consts wrapped_def keyring_ok_def Let_def)
  qed
  then show "keyring_ok k'" "entropy_sized r'" "kr_keys k' = kr_keys k" "kr_current k' = kr_current k"
    "kr_kek k' = kr_kek k" "kr_salt k' = kr_salt k"
    "res = Inr () \<Longrightarrow> wrapped c k'" "res = Inr () \<or> res = Inl Random" "res = Inl Random \<Longrightarrow> k' = k"
    by blast+
qed

section \<open>Decoding what was encoded\<close>

lemma decode_entry_encode: "decode_entry (le32 (key_id_get i) @ key) = (i, key)"
  by (simp add: decode_entry_def)

lemma encode_chunks:
  assumes "\<forall>key \<in> snd ` set keys. length key = KEY_LEN"
  shows "chunks ENTRY_LEN (concat (map (\<lambda>(id, key). le32 (key_id_get id) @ key) keys))
    = map (\<lambda>(id, key). le32 (key_id_get id) @ key) keys"
    and "length (concat (map (\<lambda>(id, key). le32 (key_id_get id) @ key) keys)) = length keys * ENTRY_LEN"
proof -
  let ?ps = "map (\<lambda>(id, key). le32 (key_id_get id) @ key) keys"
  have "\<forall>x \<in> set ?ps. length x = ENTRY_LEN" using assms by (auto simp: keyring_consts)
  then show "chunks ENTRY_LEN (concat ?ps) = ?ps"
    using chunks_concat [of ENTRY_LEN ?ps "[]"] by (simp add: keyring_consts)
  show "length (concat ?ps) = length keys * ENTRY_LEN"
    using assms by (induction keys) (auto simp: keyring_consts)
qed

lemma foldl_decode:
  "foldl (\<lambda>acc entry. btree_insert (fst (decode_entry entry)) (snd (decode_entry entry)) acc) m
     (map (\<lambda>(id, key). le32 (key_id_get id) @ key) keys)
   = foldl (\<lambda>acc (id, key). btree_insert id key acc) m keys"
  by (induction keys arbitrary: m) (auto simp: decode_entry_encode)

lemma decode_encode:
  assumes ok: "key_set_ok current keys"
  shows "decode_key_set (encode_key_set current keys) =
    (if length keys < 2 ^ 16 then Inr (current, keys)
     else Inl (MalformedKeyfile ''key set does not hold the number of keys it declares''))"
proof -
  let ?n = "if length keys < 2 ^ 16 then word_of_nat (length keys) else - 1 :: u16"
  let ?body = "concat (map (\<lambda>(id, key). le32 (key_id_get id) @ key) keys)"
  let ?bs = "encode_key_set current keys"
  have keys: "\<forall>key \<in> snd ` set keys. length key = KEY_LEN" "btree_ok keys" "current \<in> set (btree_keys keys)"
    using ok by (simp_all add: key_set_ok_def)
  have bs: "?bs = le32 (key_id_get current) @ le16 ?n @ ?body" by (simp add: encode_key_set_def)
  have parts: "cut 0 4 ?bs = le32 (key_id_get current)" "cut 4 6 ?bs = le16 ?n" "drop 6 ?bs = ?body"
    unfolding bs by (simp_all add: cut_def)
  have un: "unat ?n = (if length keys < 2 ^ 16 then length keys else 2 ^ 16 - 1)"
    by (simp add: unat_of_nat unsigned_minus_1_eq_mask mask_eq_exp_minus_1)
  have "foldl (\<lambda>acc (id, key). btree_insert id key acc) [] keys = [] @ keys"
    by (rule btree_rebuild) (use keys in simp)
  then have "foldl (\<lambda>acc entry. btree_insert (fst (decode_entry entry)) (snd (decode_entry entry)) acc) []
      (chunks ENTRY_LEN ?body) = keys"
    by (simp add: encode_chunks [OF keys(1)] foldl_decode)
  moreover have "length ?body = unat ?n * ENTRY_LEN \<longleftrightarrow> length keys < 2 ^ 16"
    using encode_chunks(2) [OF keys(1)] un by (simp add: keyring_consts)
  moreover have "\<not> length ?bs < SET_HEADER_LEN" by (simp add: bs keyring_consts)
  ultimately show ?thesis
    using keys(3) parts by (simp add: decode_key_set_def Let_def SET_HEADER_LEN_def)
qed

section \<open>The keyfile\<close>

lemma encode_length:
  "key_set_ok current keys \<Longrightarrow> length (encode_key_set current keys) = SET_HEADER_LEN + length keys * ENTRY_LEN"
  by (simp add: encode_key_set_def encode_chunks(2) key_set_ok_def keyring_consts)

lemma open_wrapped:
  assumes c: "aead_correct c" and k: "keyring_ok k" and w: "wrapped c k" and d: "kdf passphrase (kr_salt k) = Some (kr_kek k)"
  shows "keyring_open c kdf (to_keyfile k) passphrase =
    (if length (kr_keys k) < 2 ^ 16 then Inr k
     else Inl (MalformedKeyfile ''key set does not hold the number of keys it declares''))"
proof -
  let ?set = "encode_key_set (kr_current k) (kr_keys k)"
  have ks: "key_set_ok (kr_current k) (kr_keys k)" "length (kr_kek k) = 32" "length (kr_salt k) = 16" "length (kr_nonce k) = 12"
    using k by (simp_all add: keyring_ok_def keyring_consts)
  have "kr_keys k \<noteq> []" using ks(1) by (auto simp: key_set_ok_def btree_keys_def)
  obtain ct where ct: "aead_encrypt c (kr_kek k) (kr_nonce k) KEYFILE_CONTEXT ?set = Some ct" "length ct = length ?set + 16"
    "aead_decrypt c (kr_kek k) (kr_nonce k) KEYFILE_CONTEXT ct = Some ?set"
    using c ks(2,4) by (rule aead_correctD)
  have s: "kr_sealed k = ct" using w ct(1) by (simp add: wrapped_def)
  have len: "length (kr_sealed k) = SET_HEADER_LEN + length (kr_keys k) * ENTRY_LEN + TAG_LEN"
    using ct(2) s encode_length [OF ks(1)] by (simp add: frame_consts)
  have big: "\<not> length (kr_sealed k) < SET_HEADER_LEN + ENTRY_LEN + TAG_LEN"
    using \<open>kr_keys k \<noteq> []\<close> len by (cases "kr_keys k") auto
  have mult: "(length (kr_sealed k) - TAG_LEN - SET_HEADER_LEN) mod ENTRY_LEN = 0" by (simp add: len)
  have d': "derive_key_encryption_key kdf passphrase (kr_salt k) = Inr (kr_kek k)" by (simp add: derive_key_encryption_key_def d)
  have wc: "wrap_cipher (kr_kek k) = Inr (kr_kek k)" by (simp add: wrap_cipher_def aes_key_len_def ks)
  have parts: "\<not> length (to_keyfile k) < PREFIX_LEN" "to_keyfile k ! 0 = KEYFILE_VERSION"
    "take SALT_LEN (drop 1 (to_keyfile k)) = kr_salt k"
    "take NONCE_LEN (drop SALT_LEN (drop 1 (to_keyfile k))) = kr_nonce k"
    "drop NONCE_LEN (drop SALT_LEN (drop 1 (to_keyfile k))) = kr_sealed k"
    by (simp_all add: to_keyfile_def ks keyring_consts)
  have eta: "\<lparr>kr_keys = kr_keys k, kr_current = kr_current k, kr_kek = kr_kek k, kr_salt = kr_salt k,
      kr_nonce = kr_nonce k, kr_sealed = ct\<rparr> = k" using s by (cases k) simp
  show ?thesis
    unfolding keyring_open_def Let_def
    by (simp only: parts big mult d') (simp add: s wc ct(3) decode_encode [OF ks(1)] eta)
qed

section \<open>The operations keep the invariant\<close>

lemma create_ok:
  assumes c: "aead_correct c" and kd: "kdf_sized kdf" and r: "entropy_sized r"
    and eq: "keyring_create c kdf passphrase r = (Inr k, r')"
  shows "keyring_ok k" and "wrapped c k" and "kdf passphrase (kr_salt k) = Some (kr_kek k)" and "entropy_sized r'"
    and "data_key_ids k = [FIRST_KEY]"
proof -
  let ?r1 = "r\<lparr>drawn := Suc (drawn r)\<rparr>"
  let ?r2 = "r\<lparr>drawn := Suc (Suc (drawn r))\<rparr>"
  from eq obtain key salt kek where key: "source r (drawn r) 32 = Some key"
    and salt: "source r (Suc (drawn r)) 16 = Some salt" and kek: "kdf passphrase salt = Some kek"
    and re: "reseal c \<lparr>kr_keys = [(FIRST_KEY, key)], kr_current = FIRST_KEY, kr_kek = kek, kr_salt = salt,
      kr_nonce = replicate 12 0, kr_sealed = []\<rparr> ?r2 = (Inr (), k, r')"
    by (auto simp: keyring_create_def secret_key_generate_def fill_def keyring_consts derive_key_encryption_key_def Let_def
        split: option.splits sum.splits prod.splits)
  have "length key = 32" "length salt = 16" using r key salt by (simp_all add: entropy_sized_def)
  moreover have "length kek = 32" using kd kek by (simp add: kdf_sized_def)
  ultimately have ok: "keyring_ok \<lparr>kr_keys = [(FIRST_KEY, key)], kr_current = FIRST_KEY, kr_kek = kek, kr_salt = salt,
      kr_nonce = replicate 12 0, kr_sealed = []\<rparr>"
    by (simp add: keyring_ok_def key_set_ok_def btree_ok_def btree_keys_def keyring_consts)
  have "entropy_sized ?r2" using r by simp
  note rr = reseal_result [OF c this ok re]
  show "keyring_ok k" "wrapped c k" "entropy_sized r'" using rr by simp_all
  show "kdf passphrase (kr_salt k) = Some (kr_kek k)" using rr kek by simp
  show "data_key_ids k = [FIRST_KEY]" using rr by (simp add: data_key_ids_def btree_keys_def)
qed

lemma newest_key:
  assumes "keyring_ok k"
  shows "data_key_ids k \<noteq> []"
    and "(if btree_keys (kr_keys k) = [] then FIRST_KEY else last (btree_keys (kr_keys k))) = last (data_key_ids k)"
  using assms by (auto simp: keyring_ok_def key_set_ok_def data_key_ids_def)

lemma next_is_new:
  assumes k: "keyring_ok k" and n: "key_id_next (last (data_key_ids k)) = Some new_id"
  shows "\<forall>l \<in> set (data_key_ids k). l < new_id"
proof
  fix l assume "l \<in> set (data_key_ids k)"
  then have "l \<le> last (data_key_ids k)"
    using k btree.last_is_greatest [of "kr_keys k" l] newest_key(1) [OF k]
    by (simp add: data_key_ids_def keyring_ok_def key_set_ok_def)
  also have "\<dots> < new_id" using n by (rule key_id_next_greater)
  finally show "l < new_id" .
qed

lemma insert_key_ok:
  assumes k: "keyring_ok k" and key: "length key = 32" and new: "\<forall>l \<in> set (data_key_ids k). l < new_id"
  shows "keyring_ok (k\<lparr>kr_keys := btree_insert new_id key (kr_keys k), kr_current := new_id\<rparr>)"
    and "btree_insert new_id key (kr_keys k) = kr_keys k @ [(new_id, key)]"
proof -
  have ks: "btree_ok (kr_keys k)" "\<forall>key \<in> snd ` set (kr_keys k). length key = KEY_LEN"
    using k by (simp_all add: keyring_ok_def key_set_ok_def)
  show app: "btree_insert new_id key (kr_keys k) = kr_keys k @ [(new_id, key)]"
    by (rule btree_insert_append) (use new in \<open>auto simp: data_key_ids_def btree_keys_def\<close>)
  have "btree_ok (kr_keys k @ [(new_id, key)])" using btree.ok_insert [OF ks(1), of new_id key] app by simp
  then show "keyring_ok (k\<lparr>kr_keys := btree_insert new_id key (kr_keys k), kr_current := new_id\<rparr>)"
    using k ks(2) key by (auto simp: app keyring_ok_def key_set_ok_def btree_keys_def KEY_LEN_def)
qed

text \<open>Rotation, on every branch.\<close>

lemma rotate_cases:
  assumes c: "aead_correct c" and r: "entropy_sized r" and k: "keyring_ok k"
    and eq: "rotate_data_key c k r = (res, k', r')"
  obtains (exhausted) "key_id_next (last (data_key_ids k)) = None" and "res = Inl KeySpaceExhausted" and "k' = k" and "r' = r"
  | (no_key) "res = Inl Random" and "k' = k" and "r' = r\<lparr>drawn := Suc (drawn r)\<rparr>"
  | (added) new_id key where "key_id_next (last (data_key_ids k)) = Some new_id"
      and "\<forall>l \<in> set (data_key_ids k). l < new_id" and "length key = 32"
      and "kr_keys k' = kr_keys k @ [(new_id, key)]" and "kr_current k' = new_id" and "kr_salt k' = kr_salt k"
      and "kr_kek k' = kr_kek k" and "keyring_ok k'" and "entropy_sized r'"
      and "res = Inr new_id \<and> wrapped c k' \<or> res = Inl Random"
proof (cases "key_id_next (last (data_key_ids k))")
  case None
  then have "rotate_data_key c k r = (Inl KeySpaceExhausted, k, r)"
    by (simp add: rotate_data_key_def newest_key(2) [OF k])
  with eq show ?thesis by (intro exhausted None) simp_all
next
  case (Some new_id)
  note new = next_is_new [OF k Some]
  show ?thesis
  proof (cases "source r (drawn r) 32")
    case None
    then have "rotate_data_key c k r = (Inl Random, k, r\<lparr>drawn := Suc (drawn r)\<rparr>)"
      using Some by (simp add: rotate_data_key_def newest_key(2) [OF k] secret_key_generate_def fill_def KEY_LEN_def)
    with eq show ?thesis by (intro no_key) simp_all
  next
    case (Some key)
    have len: "length key = 32" using r Some by (simp add: entropy_sized_def)
    note ins = insert_key_ok [OF k len new]
    let ?k1 = "k\<lparr>kr_keys := btree_insert new_id key (kr_keys k), kr_current := new_id\<rparr>"
    obtain res1 k2 r2 where re: "reseal c ?k1 (r\<lparr>drawn := Suc (drawn r)\<rparr>) = (res1, k2, r2)"
      by (cases "reseal c ?k1 (r\<lparr>drawn := Suc (drawn r)\<rparr>)") auto
    have "rotate_data_key c k r = ((case res1 of Inl e \<Rightarrow> Inl e | Inr _ \<Rightarrow> Inr new_id), k2, r2)"
      using Some \<open>key_id_next (last (data_key_ids k)) = Some new_id\<close> re
      by (simp add: rotate_data_key_def newest_key(2) [OF k] secret_key_generate_def fill_def KEY_LEN_def Let_def
          split: sum.split)
    then have res: "res = (case res1 of Inl e \<Rightarrow> Inl e | Inr _ \<Rightarrow> Inr new_id)" "k2 = k'" "r2 = r'" using eq by simp_all
    have "entropy_sized (r\<lparr>drawn := Suc (drawn r)\<rparr>)" using r by simp
    note rr = reseal_result [OF c this ins(1) re, unfolded res]
    show ?thesis
      by (rule added [OF \<open>key_id_next (last (data_key_ids k)) = Some new_id\<close> new len])
        (use rr ins(2) res in auto)
  qed
qed

text \<open>Changing the passphrase, on every branch.\<close>

lemma change_passphrase_cases:
  assumes c: "aead_correct c" and kd: "kdf_sized kdf" and r: "entropy_sized r" and k: "keyring_ok k"
    and eq: "change_passphrase c kdf k passphrase r = (res, k', r')"
  obtains (no_salt) "res = Inl Random" and "k' = k" and "entropy_sized r'"
  | (no_key) salt where "source r (drawn r) 16 = Some salt" and "length salt = 16" and "kdf passphrase salt = None"
      and "res = Inl Derivation" and "k' = k\<lparr>kr_salt := salt\<rparr>" and "entropy_sized r'"
  | (no_nonce) salt kek where "source r (drawn r) 16 = Some salt" and "length salt = 16" and "kdf passphrase salt = Some kek"
      and "length kek = 32" and "res = Inl Random" and "k' = k\<lparr>kr_salt := salt, kr_kek := kek\<rparr>" and "entropy_sized r'"
  | (changed) "res = Inr ()" and "wrapped c k'" and "keyring_ok k'" and "kr_keys k' = kr_keys k"
      and "kr_current k' = kr_current k" and "kdf passphrase (kr_salt k') = Some (kr_kek k')" and "entropy_sized r'"
proof (cases "source r (drawn r) 16")
  case None
  then show ?thesis using eq no_salt r by (auto simp: change_passphrase_def fill_def SALT_LEN_def)
next
  case (Some salt)
  have ls: "length salt = 16" using r Some by (simp add: entropy_sized_def)
  show ?thesis
  proof (cases "kdf passphrase salt")
    case None
    then show ?thesis using eq no_key [OF Some ls] Some r
      by (auto simp: change_passphrase_def fill_def SALT_LEN_def derive_key_encryption_key_def)
  next
    case (Some kek)
    have lk: "length kek = 32" using kd Some by (simp add: kdf_sized_def)
    let ?k1 = "k\<lparr>kr_salt := salt, kr_kek := kek\<rparr>"
    have re: "reseal c ?k1 (r\<lparr>drawn := Suc (drawn r)\<rparr>) = (res, k', r')"
      using eq Some \<open>source r (drawn r) 16 = Some salt\<close>
      by (simp add: change_passphrase_def fill_def SALT_LEN_def derive_key_encryption_key_def)
    have "keyring_ok ?k1" using k ls lk by (simp add: keyring_ok_def SALT_LEN_def)
    moreover have "entropy_sized (r\<lparr>drawn := Suc (drawn r)\<rparr>)" using r by simp
    ultimately have rr: "keyring_ok k'" "entropy_sized r'" "kr_keys k' = kr_keys k" "kr_current k' = kr_current k"
      "kr_kek k' = kek" "kr_salt k' = salt" "res = Inr () \<longrightarrow> wrapped c k'" "res = Inr () \<or> res = Inl Random"
      "res = Inl Random \<longrightarrow> k' = ?k1"
      using reseal_result [OF c _ _ re] by auto
    from rr(8) show ?thesis
    proof
      assume "res = Inr ()"
      then show ?thesis using changed rr Some by simp
    next
      assume "res = Inl Random"
      then show ?thesis using no_nonce \<open>source r (drawn r) 16 = Some salt\<close> ls Some lk rr by blast
    qed
  qed
qed

end
