(* ===== verification/Keyring_Claims.thy ===== *)
theory Keyring_Claims
  imports Keyring_Proofs
begin

text \<open>
  The life of a keyring as a step relation, and the properties of the keyring: the keyfile round
  trip, rotation, passphrase changes and where the key set's own limits lie.
\<close>

section \<open>The life of a keyring\<close>

text \<open>
  \<open>keyring_history c kdf passphrase k r\<close>: \<open>k\<close> was created and then rotated, given new passphrases or
  reopened from its keyfile any number of times, each call succeeding; \<open>passphrase\<close> is the last one set.
\<close>

inductive keyring_history :: "aead \<Rightarrow> kdf \<Rightarrow> string \<Rightarrow> keyring \<Rightarrow> entropy \<Rightarrow> bool" for c kdf where
  created: "entropy_sized r \<Longrightarrow> keyring_create c kdf passphrase r = (Inr k, r') \<Longrightarrow>
     keyring_history c kdf passphrase k r'"
| rotated: "keyring_history c kdf passphrase k r \<Longrightarrow> rotate_data_key c k r = (Inr new_id, k', r') \<Longrightarrow>
     keyring_history c kdf passphrase k' r'"
| rephrased: "keyring_history c kdf passphrase k r \<Longrightarrow> change_passphrase c kdf k passphrase' r = (Inr (), k', r') \<Longrightarrow>
     keyring_history c kdf passphrase' k' r'"
| reopened: "keyring_history c kdf passphrase k r \<Longrightarrow> keyring_open c kdf (to_keyfile k) passphrase = Inr k' \<Longrightarrow>
     keyring_history c kdf passphrase k' r"

definition history_inv :: "aead \<Rightarrow> kdf \<Rightarrow> string \<Rightarrow> keyring \<Rightarrow> entropy \<Rightarrow> bool" where
  "history_inv c kdf passphrase k r \<longleftrightarrow>
     keyring_ok k \<and> wrapped c k \<and> kdf passphrase (kr_salt k) = Some (kr_kek k) \<and> entropy_sized r \<and>
     data_key_ids k = map (\<lambda>i. DataKeyId (word_of_nat i)) [1..<length (kr_keys k) + 1] \<and> length (kr_keys k) < 2 ^ 32"

lemma numbered_next:
  assumes "0 < n" and "n < 2 ^ 32"
  shows "key_id_next (DataKeyId (word_of_nat n)) = (if n + 1 < 2 ^ 32 then Some (DataKeyId (word_of_nat (n + 1))) else None)"
proof -
  have "unat (word_of_nat n :: u32) = n" using assms by (simp add: unat_of_nat)
  then show ?thesis by (simp add: key_id_next_def add.commute)
qed

lemma history_last:
  assumes "history_inv c kdf passphrase k r"
  shows "last (data_key_ids k) = DataKeyId (word_of_nat (length (kr_keys k)))" and "0 < length (kr_keys k)"
proof -
  have "keyring_ok k" using assms by (simp add: history_inv_def del: upt_Suc)
  then have "data_key_ids k \<noteq> []" by (rule newest_key(1))
  then show p: "0 < length (kr_keys k)" by (auto simp: data_key_ids_def btree_keys_def)
  then obtain n where n: "length (kr_keys k) = Suc n" by (cases "length (kr_keys k)") auto
  have "data_key_ids k = map (\<lambda>i. DataKeyId (word_of_nat i)) [1..<Suc n + 1]"
    using assms n by (simp add: history_inv_def)
  then show "last (data_key_ids k) = DataKeyId (word_of_nat (length (kr_keys k)))" by (simp add: n)
qed

lemma history_invI:
  assumes c: "aead_correct c" and kd: "kdf_sized kdf" and h: "keyring_history c kdf passphrase k r"
  shows "history_inv c kdf passphrase k r"
  using h
proof (induction rule: keyring_history.induct)
  case (created r passphrase k r')
  note ok = create_ok [OF c kd created]
  have "length (kr_keys k) = length (data_key_ids k)" by (simp add: data_key_ids_def btree_keys_def)
  then have "length (kr_keys k) = 1" by (simp add: ok(5))
  then show ?case using ok by (simp add: history_inv_def FIRST_KEY_def)
next
  case (rotated passphrase k r new_id k' r')
  let ?n = "length (kr_keys k)"
  from rotated.IH have i: "entropy_sized r" "keyring_ok k" "kdf passphrase (kr_salt k) = Some (kr_kek k)"
    "data_key_ids k = map (\<lambda>i. DataKeyId (word_of_nat i)) [1..<?n + 1]" "?n < 2 ^ 32"
    by (simp_all add: history_inv_def)
  note l = history_last [OF rotated.IH] and next_id = numbered_next [OF history_last(2) [OF rotated.IH] i(5)]
  show ?case
  proof (cases rule: rotate_cases [OF c i(1,2) rotated.hyps(2)])
    case (3 new_id' key)
    have "?n + 1 < 2 ^ 32" "new_id' = DataKeyId (word_of_nat (?n + 1))"
      using 3(1) l(1) next_id by (auto split: if_splits)
    then show ?thesis using 3 i by (auto simp: history_inv_def data_key_ids_def btree_keys_def)
  qed simp_all
next
  case (rephrased passphrase k r passphrase' k' r')
  then have i: "entropy_sized r" "keyring_ok k"  by (simp_all add: history_inv_def)
  show ?case
    by (cases rule: change_passphrase_cases [OF c kd i rephrased.hyps(2)])
      (use rephrased.IH in \<open>simp_all add: history_inv_def data_key_ids_def\<close>)
next
  case (reopened passphrase k r k')
  then have "k' = k" using open_wrapped [OF c] by (auto simp: history_inv_def split: if_splits)
  then show ?case using reopened by simp
qed

text \<open>With a working random source and derivation, any number of rotations up to the limit is possible.\<close>

definition kdf_total :: "kdf \<Rightarrow> bool" where
  "kdf_total kdf \<longleftrightarrow> (\<forall>passphrase salt. \<exists>key. kdf passphrase salt = Some key)"

lemma reseal_total:
  assumes c: "aead_correct c" and r: "entropy_sized r" "entropy_total r" and k: "keyring_ok k"
  obtains k' r' where "reseal c k r = (Inr (), k', r')" and "entropy_total r'"
proof -
  obtain n where n: "source r (drawn r) 12 = Some n" using r(2) by (auto simp: entropy_total_def)
  then have "length n = 12" using r(1) by (simp add: entropy_sized_def)
  moreover have key: "length (kr_kek k) = 32" using k by (simp add: keyring_ok_def)
  ultimately obtain ct where "aead_encrypt c (kr_kek k) n KEYFILE_CONTEXT (encode_key_set (kr_current k) (kr_keys k)) = Some ct"
    using aead_correctD [OF c] by metis
  then show ?thesis using that n key r(2)
    by (simp add: reseal_def fill_def frame_consts wrap_cipher_def aes_key_len_def Let_def)
qed

lemma create_total:
  assumes c: "aead_correct c" and kd: "kdf_sized kdf" "kdf_total kdf" and r: "entropy_sized r" "entropy_total r"
  obtains k r' where "keyring_create c kdf passphrase r = (Inr k, r')" and "entropy_total r'"
proof -
  obtain key where key: "source r (drawn r) 32 = Some key" using r(2) by (auto simp: entropy_total_def)
  obtain salt where salt: "source r (Suc (drawn r)) 16 = Some salt" using r(2) by (auto simp: entropy_total_def)
  obtain kek where kek: "kdf passphrase salt = Some kek" using kd(2) by (auto simp: kdf_total_def)
  have len: "length key = 32" "length salt = 16" "length kek = 32"
    using r(1) key salt kd(1) kek by (simp_all add: entropy_sized_def kdf_sized_def)
  let ?k = "\<lparr>kr_keys = [(FIRST_KEY, key)], kr_current = FIRST_KEY, kr_kek = kek, kr_salt = salt,
      kr_nonce = replicate 12 0, kr_sealed = []\<rparr>"
  let ?r = "r\<lparr>drawn := Suc (Suc (drawn r))\<rparr>"
  have "keyring_ok ?k" using len by (simp add: keyring_ok_def key_set_ok_def btree_ok_def btree_keys_def keyring_consts)
  moreover have "entropy_sized ?r" "entropy_total ?r" using r by simp_all
  ultimately obtain k' r' where "reseal c ?k ?r = (Inr (), k', r')" "entropy_total r'"
    using reseal_total [OF c] by metis
  then show ?thesis using that key salt kek
    by (simp add: keyring_create_def secret_key_generate_def fill_def keyring_consts derive_key_encryption_key_def Let_def)
qed

lemma rotate_total:
  assumes c: "aead_correct c" and r: "entropy_sized r" "entropy_total r" and k: "keyring_ok k"
    and n: "key_id_next (last (data_key_ids k)) = Some new_id"
  obtains k' r' where "rotate_data_key c k r = (Inr new_id, k', r')" and "entropy_total r'"
proof -
  obtain key where key: "source r (drawn r) 32 = Some key" using r(2) by (auto simp: entropy_total_def)
  have "length key = 32" using r(1) key by (simp add: entropy_sized_def)
  then have "keyring_ok (k\<lparr>kr_keys := btree_insert new_id key (kr_keys k), kr_current := new_id\<rparr>)"
    by (rule insert_key_ok(1) [OF k _ next_is_new [OF k n]])
  moreover have "entropy_sized (r\<lparr>drawn := Suc (drawn r)\<rparr>)" "entropy_total (r\<lparr>drawn := Suc (drawn r)\<rparr>)" using r by simp_all
  ultimately obtain k' r' where "reseal c (k\<lparr>kr_keys := btree_insert new_id key (kr_keys k), kr_current := new_id\<rparr>)
      (r\<lparr>drawn := Suc (drawn r)\<rparr>) = (Inr (), k', r')" "entropy_total r'"
    using reseal_total [OF c] by metis
  then show ?thesis using that key n
    by (simp add: rotate_data_key_def newest_key(2) [OF k] secret_key_generate_def fill_def KEY_LEN_def Let_def)
qed

lemma change_passphrase_total:
  assumes c: "aead_correct c" and kd: "kdf_sized kdf" "kdf_total kdf" and r: "entropy_sized r" "entropy_total r"
    and k: "keyring_ok k" and eq: "change_passphrase c kdf k passphrase r = (res, k', r')"
  shows "res = Inr ()"
proof -
  obtain salt where salt: "source r (drawn r) 16 = Some salt" using r(2) by (auto simp: entropy_total_def)
  obtain kek where kek: "kdf passphrase salt = Some kek" using kd(2) by (auto simp: kdf_total_def)
  have len: "length salt = 16" "length kek = 32" using r(1) salt kd(1) kek by (simp_all add: entropy_sized_def kdf_sized_def)
  have "keyring_ok (k\<lparr>kr_salt := salt, kr_kek := kek\<rparr>)" using k len by (simp add: keyring_ok_def SALT_LEN_def)
  moreover have "entropy_sized (r\<lparr>drawn := Suc (drawn r)\<rparr>)" "entropy_total (r\<lparr>drawn := Suc (drawn r)\<rparr>)" using r by simp_all
  ultimately obtain k2 r2 where "reseal c (k\<lparr>kr_salt := salt, kr_kek := kek\<rparr>) (r\<lparr>drawn := Suc (drawn r)\<rparr>) = (Inr (), k2, r2)"
    using reseal_total [OF c] by metis
  then show ?thesis using eq salt kek
    by (simp add: change_passphrase_def fill_def SALT_LEN_def derive_key_encryption_key_def)
qed

lemma history_exists:
  assumes c: "aead_correct c" and kd: "kdf_sized kdf" "kdf_total kdf" and r: "entropy_sized r" "entropy_total r"
    and n: "n + 1 < 2 ^ 32"
  shows "\<exists>k r'. keyring_history c kdf passphrase k r' \<and> length (kr_keys k) = n + 1 \<and> entropy_total r'"
  using n
proof (induction n)
  case 0
  obtain k r' where k: "keyring_create c kdf passphrase r = (Inr k, r')" "entropy_total r'"
    using create_total [OF c kd r] .
  have "length (kr_keys k) = length (data_key_ids k)" by (simp add: data_key_ids_def btree_keys_def)
  then have "length (kr_keys k) = 1" using create_ok(5) [OF c kd(1) r(1) k(1)] by simp
  then show ?case using keyring_history.created [OF r(1) k(1)] k(2) by auto
next
  case (Suc n)
  then obtain k r' where h: "keyring_history c kdf passphrase k r'" "length (kr_keys k) = n + 1" "entropy_total r'" by auto
  note inv = history_invI [OF c kd(1) h(1)]
  have ok: "keyring_ok k" "entropy_sized r'" using inv by (simp_all add: history_inv_def)
  have "key_id_next (last (data_key_ids k)) = Some (DataKeyId (word_of_nat (n + 2)))"
    using numbered_next [of "n + 1"] history_last(1) [OF inv] Suc.prems h(2) by simp
  then obtain k' r2 where k': "rotate_data_key c k r' = (Inr (DataKeyId (word_of_nat (n + 2))), k', r2)" "entropy_total r2"
    by (rule rotate_total [OF c ok(2) h(3) ok(1)])
  have "length (kr_keys k') = Suc (length (kr_keys k))"
    by (cases rule: rotate_cases [OF c ok(2,1) k'(1)]) simp_all
  then show ?case using keyring_history.rotated [OF h(1) k'(1)] k'(2) h(2) by auto
qed

section \<open>A concrete derivation\<close>

text \<open>A derivation for the witnesses: the salt followed by the characters of the passphrase, cut to size.\<close>

definition demo_kdf :: kdf where
  "demo_kdf passphrase salt = Some (take 32 (ascii passphrase @ salt @ replicate 32 0))"

lemma demo_kdf_ok: "kdf_sized demo_kdf" "kdf_total demo_kdf"
  by (auto simp: demo_kdf_def kdf_sized_def kdf_total_def)

section \<open>The keyfile\<close>

lemma length_data_key_ids: "length (data_key_ids k) = length (kr_keys k)"
  by (simp add: data_key_ids_def btree_keys_def)

lemma history_open:
  assumes c: "aead_correct c" and kd: "kdf_sized kdf" and h: "keyring_history c kdf passphrase k r"
  shows "keyring_open c kdf (to_keyfile k) passphrase =
    (if length (data_key_ids k) < 65536 then Inr k
     else Inl (MalformedKeyfile ''key set does not hold the number of keys it declares''))"
proof -
  have "keyring_ok k" "wrapped c k" "kdf passphrase (kr_salt k) = Some (kr_kek k)"
    using history_invI [OF c kd h] by (simp_all add: history_inv_def del: upt_Suc)
  then show ?thesis using open_wrapped [OF c, of k kdf passphrase] by (simp add: length_data_key_ids)
qed

text \<open>C10: the keyfile round trip. A keyring that was created, rotated, given new passphrases and reopened
  any number of times, and holds fewer than 65536 keys, is returned exactly by opening the keyfile it
  writes with the passphrase set last: the same keys, current key and wrapping.\<close>

theorem keyfile_round_trip:
  assumes c: "aead_correct c" and kd: "kdf_sized kdf" and h: "keyring_history c kdf passphrase k r"
    and n: "length (data_key_ids k) < 65536"
  shows "keyring_open c kdf (to_keyfile k) passphrase = Inr k"
  using history_open [OF c kd h] n by simp

theorem keyfile_round_trip_witness:
  "\<exists>k r. keyring_history demo_aead demo_kdf ''hunter2'' k r \<and> length (data_key_ids k) = 3 \<and>
     keyring_open demo_aead demo_kdf (to_keyfile k) ''hunter2'' = Inr k"
proof -
  obtain k r where k: "keyring_history demo_aead demo_kdf ''hunter2'' k r" "length (kr_keys k) = 3"
    using history_exists [OF demo_aead_correct demo_kdf_ok demo_entropy_sized demo_entropy_total, of 2 "''hunter2''"] by auto
  then have "length (data_key_ids k) = 3" by (simp add: data_key_ids_def btree_keys_def)
  then show ?thesis using keyfile_round_trip [OF demo_aead_correct demo_kdf_ok(1) k(1)] k(1) by auto
qed

text \<open>C33: the sixteen-bit count of the key set is a limit the rotation does not check. A keyring with
  65536 keys or more is written as a keyfile that its own passphrase no longer opens: the count
  saturates, so the key set is refused as malformed. Rotation reports no error there, since the
  id space it checks has room for four billion.\<close>

theorem too_many_keys_lock_out:
  assumes c: "aead_correct c" and kd: "kdf_sized kdf" and h: "keyring_history c kdf passphrase k r"
    and n: "65536 \<le> length (data_key_ids k)"
  shows "keyring_open c kdf (to_keyfile k) passphrase
    = Inl (MalformedKeyfile ''key set does not hold the number of keys it declares'')"
  using history_open [OF c kd h] n by simp

theorem too_many_keys_lock_out_witness:
  "\<exists>k r. keyring_history demo_aead demo_kdf ''hunter2'' k r \<and> length (data_key_ids k) = 65536 \<and>
     keyring_open demo_aead demo_kdf (to_keyfile k) ''hunter2''
       = Inl (MalformedKeyfile ''key set does not hold the number of keys it declares'')"
proof -
  obtain k r where k: "keyring_history demo_aead demo_kdf ''hunter2'' k r" "length (kr_keys k) = 65536"
    using history_exists [OF demo_aead_correct demo_kdf_ok demo_entropy_sized demo_entropy_total, of 65535 "''hunter2''"] by auto
  then have "length (data_key_ids k) = 65536" by (simp add: data_key_ids_def btree_keys_def)
  then show ?thesis using too_many_keys_lock_out [OF demo_aead_correct demo_kdf_ok(1) k(1)] k(1) by auto
qed

section \<open>Rotation\<close>

lemma keyring_frame_ok:
  "keyring_ok k \<Longrightarrow> block_size_new b = Inr b \<Longrightarrow> frame_ok (keyring_frame k b)"
  by (simp add: keyring_ok_def key_set_ok_def keyring_frame_def block_frame_new_def frame_ok_def)

lemma rotated_reads:
  assumes k: "keyring_ok k" and k': "keyring_ok k'" and keys: "\<forall>l \<in> set (data_key_ids k). data_key k' l = data_key k l"
  shows "reads_from (keyring_frame k' b) (keyring_frame k b)"
  using assms
  by (simp add: reads_from_def keyring_frame_def block_frame_new_def keyring_ok_def key_set_ok_def data_key_def data_key_ids_def)

text \<open>Rotating. The only errors are an exhausted id space, exactly when the newest id is the largest
  \<open>u32\<close>, and a failed random source; neither loses a key. Otherwise a key is added under the id after
  the newest one, becomes the current key, and every key held before is still held under its id. What
  was sealed before stays readable through the frame of the rotated keyring, on every branch.\<close>

theorem rotation_keeps_keys:
  assumes c: "aead_correct c" and r: "entropy_sized r" and k: "keyring_ok k"
    and eq: "rotate_data_key c k r = (res, k', r')"
  shows "keyring_ok k' \<and>
    (\<forall>l \<in> set (data_key_ids k). data_key k' l = data_key k l) \<and>
    (\<forall>b. reads_from (keyring_frame k' b) (keyring_frame k b)) \<and>
    (case res of
       Inr new_id \<Rightarrow> data_key_ids k' = data_key_ids k @ [new_id] \<and> kr_current k' = new_id \<and>
         key_id_get new_id = key_id_get (last (data_key_ids k)) + 1 \<and> new_id \<notin> set (data_key_ids k)
     | Inl e \<Rightarrow> e = Random \<or> e = KeySpaceExhausted \<and> k' = k) \<and>
    (res = Inl KeySpaceExhausted \<longleftrightarrow> key_id_get (last (data_key_ids k)) = - 1)"
proof -
  have main: "keyring_ok k' \<and> (\<forall>l \<in> set (data_key_ids k). data_key k' l = data_key k l) \<and>
    (case res of
       Inr new_id \<Rightarrow> data_key_ids k' = data_key_ids k @ [new_id] \<and> kr_current k' = new_id \<and>
         key_id_get new_id = key_id_get (last (data_key_ids k)) + 1 \<and> new_id \<notin> set (data_key_ids k)
     | Inl e \<Rightarrow> e = Random \<or> e = KeySpaceExhausted \<and> k' = k) \<and>
    (res = Inl KeySpaceExhausted \<longleftrightarrow> key_id_get (last (data_key_ids k)) = - 1)"
  proof (cases rule: rotate_cases [OF c r k eq])
    case 1
    then show ?thesis using k by (simp add: key_id_next_None)
  next
    case 2
    have "key_id_next (last (data_key_ids k)) \<noteq> None"
      using eq 2(1) by (cases "key_id_next (last (data_key_ids k))") (simp_all add: rotate_data_key_def newest_key(2) [OF k])
    then show ?thesis using k 2 by (simp add: key_id_next_None)
  next
    case (3 new_id key)
    then have "key_id_next (last (data_key_ids k)) \<noteq> None" by simp
    then have "key_id_get (last (data_key_ids k)) \<noteq> - 1" by (simp add: key_id_next_None)
    moreover have "key_id_get new_id = key_id_get (last (data_key_ids k)) + 1" using 3(1) by (auto simp: key_id_next_Some)
    moreover have "new_id \<notin> set (data_key_ids k)" using 3(2) by auto
    moreover have "data_key_ids k' = data_key_ids k @ [new_id]" using 3(4) by (simp add: data_key_ids_def btree_keys_def)
    moreover have "data_key k' l = data_key k l" if "l \<in> set (data_key_ids k)" for l
      using that 3(2,4) by (auto simp: data_key_def data_key_ids_def map_add_def btree_keys_def split: option.split)
    ultimately show ?thesis using 3 by auto
  qed
  then show ?thesis using rotated_reads [OF k] by blast
qed

theorem rotation_keeps_keys_witness:
  "\<exists>k r k' r' new_id. keyring_history demo_aead demo_kdf ''hunter2'' k r \<and>
     rotate_data_key demo_aead k r = (Inr new_id, k', r') \<and> new_id = DataKeyId 2 \<and>
     data_key k' FIRST_KEY = data_key k FIRST_KEY \<and> reads_from (keyring_frame k' 64) (keyring_frame k 64)"
proof -
  obtain k r where k: "keyring_history demo_aead demo_kdf ''hunter2'' k r" "length (kr_keys k) = 1" "entropy_total r"
    using history_exists [OF demo_aead_correct demo_kdf_ok demo_entropy_sized demo_entropy_total, of 0 "''hunter2''"] by auto
  note inv = history_invI [OF demo_aead_correct demo_kdf_ok(1) k(1)]
  have ok: "keyring_ok k" "entropy_sized r" and ids: "data_key_ids k = [FIRST_KEY]"
    using inv k(2) by (simp_all add: history_inv_def FIRST_KEY_def)
  have "key_id_next (last (data_key_ids k)) = Some (DataKeyId 2)" by (simp add: ids FIRST_KEY_def key_id_next_def)
  then obtain k' r' where rot: "rotate_data_key demo_aead k r = (Inr (DataKeyId 2), k', r')"
    by (rule rotate_total [OF demo_aead_correct ok(2) k(3) ok(1)])
  show ?thesis
    using rotation_keeps_keys [OF demo_aead_correct ok(2,1) rot] k(1) rot ids by auto
qed

inductive keyring_step :: "aead \<Rightarrow> kdf \<Rightarrow> keyring \<times> entropy \<Rightarrow> keyring \<times> entropy \<Rightarrow> bool" for c kdf where
  rotate: "rotate_data_key c k r = (res, k', r') \<Longrightarrow> keyring_step c kdf (k, r) (k', r')"
| rephrase: "change_passphrase c kdf k passphrase r = (res, k', r') \<Longrightarrow> keyring_step c kdf (k, r) (k', r')"


lemma keyring_step_keeps:
  assumes c: "aead_correct c" and kd: "kdf_sized kdf" and s: "keyring_step c kdf (k, r) (k', r')"
    and k: "keyring_ok k" "entropy_sized r"
  shows "keyring_ok k' \<and> entropy_sized r' \<and> (\<forall>l \<in> set (data_key_ids k). data_key k' l = data_key k l)
    \<and> set (data_key_ids k) \<subseteq> set (data_key_ids k')"
  using s
proof cases
  case (rotate res)
  show ?thesis
  proof (cases rule: rotate_cases [OF c k(2,1) rotate])
    case (3 new_id key)
    have "data_key k' l = data_key k l" if "l \<in> set (data_key_ids k)" for l
      using that 3(2,4) by (auto simp: data_key_def data_key_ids_def map_add_def btree_keys_def split: option.split)
    then show ?thesis using 3 by (auto simp: data_key_ids_def btree_keys_def)
  qed (use k in simp_all)
next
  case (rephrase passphrase res)
  show ?thesis
    by (cases rule: change_passphrase_cases [OF c kd k(2,1) rephrase])
      (use k in \<open>simp_all add: keyring_ok_def SALT_LEN_def data_key_def data_key_ids_def\<close>)
qed

lemma keyring_steps_keep:
  assumes c: "aead_correct c" and kd: "kdf_sized kdf" and s: "(keyring_step c kdf)\<^sup>*\<^sup>* a z"
    and k: "keyring_ok (fst a)" "entropy_sized (snd a)"
  shows "keyring_ok (fst z) \<and> entropy_sized (snd z) \<and>
    (\<forall>l \<in> set (data_key_ids (fst a)). data_key (fst z) l = data_key (fst a) l)
    \<and> set (data_key_ids (fst a)) \<subseteq> set (data_key_ids (fst z))"
  using s
proof (induction rule: rtranclp_induct)
  case base
  then show ?case using k by simp
next
  case (step y z)
  have "keyring_step c kdf (fst y, snd y) (fst z, snd z)" using step.hyps(2) by simp
  from keyring_step_keeps [OF c kd this] step.IH show ?case by auto
qed

text \<open>C9: an object outlives every key change. What was sealed under a keyring reads back, range by range,
  through the frame of any keyring reached from it by rotations and passphrase changes, whether those
  succeeded or failed half way.\<close>

theorem objects_outlive_key_changes:
  assumes c: "aead_correct c" and kd: "kdf_sized kdf" and k: "keyring_ok k" "entropy_sized r0"
    and later: "(keyring_step c kdf)\<^sup>*\<^sup>* (k, r0) (k', r1)" and b: "block_size_new b = Inr b"
    and r: "entropy_sized r" and p: "length p < 2 ^ 62" and seal: "seal c (keyring_frame k b) p r = (Inr sealed, r')"
    and w: "s < e" "e \<le> length p"
  shows "\<exists>framing. let f = keyring_frame k' b; span = ciphertext_span f (word_of_nat s, word_of_nat e) (word_of_nat (length p)) in
     plaintext_len f (word_of_nat (length sealed)) = Inr (word_of_nat (length p)) \<and>
     read_header f (cut 0 HEADER_LEN sealed) = Inr framing \<and>
     open_span c f (cut (unat (fst span)) (unat (snd span)) sealed) span (word_of_nat s, word_of_nat e) framing
       = Inr (cut s e p)"
proof -
  have keep: "keyring_ok k'" "\<forall>l \<in> set (data_key_ids k). data_key k' l = data_key k l"
    using keyring_steps_keep [OF c kd later] k by simp_all
  note f = keyring_frame_ok [OF k(1) b] and g = keyring_frame_ok [OF keep(1) b]
  have "holds c (keyring_frame k' b) p sealed"
    by (rule seal_holds [OF f c r seal p rotated_reads [OF k(1) keep]])
  then have rd: "readable c (keyring_frame k' b) p sealed" by (rule holds_readable [OF g])
  obtain fr where "read_header (keyring_frame k' b) (take 13 sealed) = Inr fr"
    "open_span c (keyring_frame k' b)
       (cut (unat (fst (ciphertext_span (keyring_frame k' b) (word_of_nat s, word_of_nat e) (word_of_nat (length p)))))
         (unat (snd (ciphertext_span (keyring_frame k' b) (word_of_nat s, word_of_nat e) (word_of_nat (length p))))) sealed)
       (ciphertext_span (keyring_frame k' b) (word_of_nat s, word_of_nat e) (word_of_nat (length p)))
       (word_of_nat s, word_of_nat e) fr = Inr (cut s e p)" by (rule readable_range [OF rd w refl])
  then show ?thesis using rd by (auto simp: Let_def cut_def frame_consts readable_def)
qed

theorem objects_outlive_key_changes_witness:
  "\<exists>k r0 k' r1 sealed r' framing. keyring_history demo_aead demo_kdf ''hunter2'' k r0 \<and>
     rotate_data_key demo_aead k r0 = (Inr (DataKeyId 2), k', r1) \<and>
     seal demo_aead (keyring_frame k 64) (replicate 100 3) demo_entropy = (Inr sealed, r') \<and>
     (let f = keyring_frame k' 64; span = ciphertext_span f (word_of_nat 60, word_of_nat 70) (word_of_nat 100) in
      open_span demo_aead f (cut (unat (fst span)) (unat (snd span)) sealed) span (word_of_nat 60, word_of_nat 70) framing
        = Inr (replicate 10 3))"
proof -
  obtain k r where k: "keyring_history demo_aead demo_kdf ''hunter2'' k r" "length (kr_keys k) = 1" "entropy_total r"
    using history_exists [OF demo_aead_correct demo_kdf_ok demo_entropy_sized demo_entropy_total, of 0 "''hunter2''"] by auto
  note inv = history_invI [OF demo_aead_correct demo_kdf_ok(1) k(1)]
  have ok: "keyring_ok k" "entropy_sized r" and ids: "data_key_ids k = [FIRST_KEY]"
    using inv k(2) by (simp_all add: history_inv_def FIRST_KEY_def)
  have "key_id_next (last (data_key_ids k)) = Some (DataKeyId 2)" by (simp add: ids FIRST_KEY_def key_id_next_def)
  then obtain k' r' where rot: "rotate_data_key demo_aead k r = (Inr (DataKeyId 2), k', r')"
    by (rule rotate_total [OF demo_aead_correct ok(2) k(3) ok(1)])
  have b: "block_size_new 64 = Inr 64" using demo_frames(1) by (simp add: frame_ok_def)
  note f = keyring_frame_ok [OF ok(1) b]
  obtain sealed r2 where seal: "seal demo_aead (keyring_frame k 64) (replicate 100 3) demo_entropy = (Inr sealed, r2)"
    using seal_total [OF f demo_aead_correct demo_entropy_sized demo_entropy_total] .
  have "(keyring_step demo_aead demo_kdf)\<^sup>*\<^sup>* (k, r) (k', r')" using keyring_step.rotate [OF rot] by auto
  from objects_outlive_key_changes [OF demo_aead_correct demo_kdf_ok(1) ok this b demo_entropy_sized _ seal, of 60 70]
  show ?thesis using k(1) rot seal by (fastforce simp: Let_def cut_def)
qed

text \<open>C32: changing the passphrase. On success the data keys and the current key are untouched, and the
  keyfile opens under the new passphrase. A failure is not atomic: when the derivation fails the keyring
  keeps the old wrapping beside the new salt, so that its keyfile is no longer the one of any passphrase
  change that completed.\<close>

theorem passphrase_change:
  assumes c: "aead_correct c" and kd: "kdf_sized kdf" and r: "entropy_sized r" and k: "keyring_ok k"
    and n: "length (data_key_ids k) < 65536" and eq: "change_passphrase c kdf k passphrase r = (res, k', r')"
  shows "keyring_ok k' \<and> kr_keys k' = kr_keys k \<and> kr_current k' = kr_current k \<and>
    (case res of
       Inr _ \<Rightarrow> keyring_open c kdf (to_keyfile k') passphrase = Inr k'
     | Inl Derivation \<Rightarrow> \<exists>salt. source r (drawn r) SALT_LEN = Some salt \<and>
         to_keyfile k' = [KEYFILE_VERSION] @ salt @ kr_nonce k @ kr_sealed k
     | Inl e \<Rightarrow> e = Random \<and> kr_sealed k' = kr_sealed k)"
proof (cases rule: change_passphrase_cases [OF c kd r k eq])
  case 4
  then have "keyring_open c kdf (to_keyfile k') passphrase = Inr k'"
    using open_wrapped [OF c, of k' kdf passphrase] n by (simp add: length_data_key_ids)
  then show ?thesis using 4 by simp
qed (use k in \<open>auto simp: keyring_ok_def SALT_LEN_def to_keyfile_def\<close>)

theorem passphrase_change_witness:
  "\<exists>k r k' r'. keyring_history demo_aead demo_kdf ''hunter2'' k r \<and>
     change_passphrase demo_aead demo_kdf k ''correct horse'' r = (Inr (), k', r') \<and>
     kr_keys k' = kr_keys k \<and> keyring_open demo_aead demo_kdf (to_keyfile k') ''correct horse'' = Inr k'"
proof -
  obtain k r where k: "keyring_history demo_aead demo_kdf ''hunter2'' k r" "length (kr_keys k) = 3" "entropy_total r"
    using history_exists [OF demo_aead_correct demo_kdf_ok demo_entropy_sized demo_entropy_total, of 2 "''hunter2''"] by auto
  have ok: "keyring_ok k" "entropy_sized r"
    using history_invI [OF demo_aead_correct demo_kdf_ok(1) k(1)] by (simp_all add: history_inv_def del: upt_Suc)
  obtain res k' r' where ch: "change_passphrase demo_aead demo_kdf k ''correct horse'' r = (res, k', r')"
    by (cases "change_passphrase demo_aead demo_kdf k ''correct horse'' r") auto
  have "res = Inr ()" using change_passphrase_total [OF demo_aead_correct demo_kdf_ok ok(2) k(3) ok(1) ch] .
  then show ?thesis
    using passphrase_change [OF demo_aead_correct demo_kdf_ok(1) ok(2,1) _ ch] k ch by (auto simp: length_data_key_ids)
qed

end
