(* ===== verification/Action.thy ===== *)
theory Action
  imports Prelude
begin

text \<open>
  Operations that change a state and may fail: the state is passed through, and an error returns the
  state as it was left when the error arose. \<open>act_bind\<close> is the question mark operator of a method
  with effects.
\<close>

type_synonym ('s, 'e, 'a) act = "'s \<Rightarrow> ('e + 'a) \<times> 's"

definition act_ok :: "'a \<Rightarrow> ('s, 'e, 'a) act" where
  "act_ok x s = (Inr x, s)"

definition act_of :: "'e + 'a \<Rightarrow> ('s, 'e, 'a) act" where
  "act_of r s = (r, s)"

definition act_read :: "('s \<Rightarrow> 'e + 'a) \<Rightarrow> ('s, 'e, 'a) act" where
  "act_read f s = (f s, s)"

definition act_bind :: "('s, 'e, 'a) act \<Rightarrow> ('a \<Rightarrow> ('s, 'e, 'b) act) \<Rightarrow> ('s, 'e, 'b) act" where
  "act_bind m k s = (case m s of (Inl e, s') \<Rightarrow> (Inl e, s') | (Inr x, s') \<Rightarrow> k x s')"

named_theorems act_simps "running a sequence of operations"

lemma act_run [act_simps]:
  "act_ok x s = (Inr x, s)" "act_of r s = (r, s)" "act_read f s = (f s, s)"
  by (simp_all add: act_ok_def act_of_def act_read_def)

lemma act_bind_run [act_simps]:
  "act_bind m k s = (case fst (m s) of Inl e \<Rightarrow> (Inl e, snd (m s)) | Inr x \<Rightarrow> k x (snd (m s)))"
  by (simp add: act_bind_def split: prod.split sum.split)

lemma act_bind_step: "m s = (Inr x, s') \<Longrightarrow> act_bind m k s = k x s'"
  and act_bind_fail: "m s = (Inl e, s') \<Longrightarrow> act_bind m k s = (Inl e, s')"
  by (simp_all add: act_bind_def)

lemma act_bind_of [simp]:
  "act_bind (act_of (Inr x)) k = k x" "act_bind (act_of (Inl e)) k = act_of (Inl e)" "act_bind (act_ok x) k = k x"
  by (rule ext, simp add: act_simps)+

lemma act_pure_iff:
  "act_ok x s = (r, s') \<longleftrightarrow> r = Inr x \<and> s' = s" "act_of m s = (r, s') \<longleftrightarrow> r = m \<and> s' = s"
  by (auto simp: act_run)

lemma act_bind_assoc: "act_bind (act_bind m k) h = act_bind m (\<lambda>x. act_bind (k x) h)"
  by (rule ext) (simp add: act_simps split: sum.split)

lemma act_bind_Inr:
  "act_bind m k s = (Inr y, s'') \<longleftrightarrow> (\<exists>x s'. m s = (Inr x, s') \<and> k x s' = (Inr y, s''))"
  by (simp add: act_bind_def split: prod.split sum.split)

lemma act_bindE:
  assumes "act_bind m k s = (r, s'')"
  obtains e where "m s = (Inl e, s'')" and "r = Inl e"
  | x s' where "m s = (Inr x, s')" and "k x s' = (r, s'')"
  using assms by (auto simp: act_bind_def split: prod.splits sum.splits)

text \<open>
  A view of the state that an operation leaves alone: \<open>keeps v m\<close> says that whatever \<open>m\<close> returns, the
  view \<open>v\<close> of the state is the one it started with.
\<close>

definition keeps :: "('s \<Rightarrow> 'v) \<Rightarrow> ('s, 'e, 'a) act \<Rightarrow> bool" where
  "keeps v m \<longleftrightarrow> (\<forall>s. v (snd (m s)) = v s)"

lemma keepsD: "keeps v m \<Longrightarrow> v (snd (m s)) = v s"
  by (simp add: keeps_def)

lemma keeps_pure [simp, intro]: "keeps v (act_ok x)" "keeps v (act_of r)" "keeps v (act_read f)"
  by (simp_all add: keeps_def act_simps)

lemma keeps_bind [intro!]:
  assumes "keeps v m" and "\<And>x. keeps v (k x)"
  shows "keeps v (act_bind m k)"
  unfolding keeps_def
proof
  fix s
  show "v (snd (act_bind m k s)) = v s"
  proof (cases "fst (m s)")
    case (Inr x)
    then have "v (snd (act_bind m k s)) = v (snd (m s))" using assms(2) by (simp add: act_simps keepsD)
    then show ?thesis using assms(1) by (simp add: keepsD)
  qed (use assms(1) in \<open>simp add: act_simps keepsD\<close>)
qed

text \<open>An operation that leaves the whole state alone only reads.\<close>

lemma act_bind_read:
  assumes "keeps (\<lambda>s. s) m"
  shows "act_bind m k s = (case fst (m s) of Inl e \<Rightarrow> (Inl e, s) | Inr x \<Rightarrow> k x s)"
  using keepsD [OF assms, of s] by (simp add: act_simps split: sum.split)

text \<open>A loop over a list, up to the first failure.\<close>

fun act_each :: "('a \<Rightarrow> ('s, 'e, unit) act) \<Rightarrow> 'a list \<Rightarrow> ('s, 'e, unit) act" where
  "act_each f [] = act_ok ()"
| "act_each f (x # xs) = act_bind (f x) (\<lambda>_. act_each f xs)"

fun act_map :: "('a \<Rightarrow> ('s, 'e, 'b) act) \<Rightarrow> 'a list \<Rightarrow> ('s, 'e, 'b list) act" where
  "act_map f [] = act_ok []"
| "act_map f (x # xs) = act_bind (f x) (\<lambda>y. act_bind (act_map f xs) (\<lambda>ys. act_ok (y # ys)))"

lemma keeps_each [intro]: "(\<And>x. keeps v (f x)) \<Longrightarrow> keeps v (act_each f xs)"
  by (induction xs) auto

lemma keeps_map [intro]: "(\<And>x. keeps v (f x)) \<Longrightarrow> keeps v (act_map f xs)"
  by (induction xs) auto

lemma act_map_Inr:
  assumes "act_map f xs s = (Inr ys, s')"
  shows "length ys = length xs"
  using assms by (induction xs arbitrary: s ys s') (auto simp: act_bind_Inr act_ok_def)

end
