(* ===== verification/Float_Round.thy ===== *)
theory Float_Round
  imports Complex_Main
begin

text \<open>
  Binary floating point as the program uses it: non-negative values of a type with \<open>p\<close> significant bits,
  each operation rounded to the nearest value, ties to even. A value is the rational it denotes. The
  exponent is unbounded here; where a result of the program could leave the range of \<open>f32\<close> or \<open>f64\<close> the
  definition that uses this theory says what the code does.
\<close>

section \<open>The exponent\<close>

fun bits :: "nat \<Rightarrow> nat" where
  "bits m = (if m = 0 then 0 else Suc (bits (m div 2)))"

declare bits.simps [simp del]

lemma bits_bounds: "0 < m \<Longrightarrow> 2 ^ (bits m - 1) \<le> m \<and> m < 2 ^ bits m"
proof (induction m rule: bits.induct)
  case (1 m)
  show ?case
  proof (cases "m div 2 = 0")
    case True
    then have "m = 1" using "1.prems" by auto
    then show ?thesis by (simp add: bits.simps [of "Suc 0"] bits.simps [of 0])
  next
    case False
    then have "2 ^ (bits (m div 2) - 1) \<le> m div 2" "m div 2 < 2 ^ bits (m div 2)" using "1.IH" "1.prems" by auto
    moreover obtain k where k: "bits (m div 2) = Suc k" using False by (simp add: bits.simps [of "m div 2"])
    moreover have "bits m = Suc (Suc k)" using "1.prems" k by (simp add: bits.simps [of m])
    ultimately show ?thesis by auto
  qed
qed

text \<open>The exponent of the leading bit of a positive value.\<close>

definition exponent :: "rat \<Rightarrow> int" where
  "exponent x =
     (let (n, d) = quotient_of x;
          e = int (bits (nat n)) - int (bits (nat d))
      in if 2 powi e \<le> x then e else e - 1)"

lemma powi_mult: "(2 :: rat) powi i * 2 powi j = 2 powi (i + j)"
  by (simp add: power_int_add)

lemma powi_div: "(2 :: rat) powi i / 2 powi j = 2 powi (i - j)"
  by (simp add: power_int_diff)

lemma powi_bits: "0 < m \<Longrightarrow> (2 :: rat) powi (int (bits m) - 1) \<le> of_nat m \<and> of_nat m < (2 :: rat) powi (int (bits m))"
proof -
  assume m: "0 < m"
  then obtain k where k: "bits m = Suc k" by (simp add: bits.simps [of m])
  have "(of_nat (2 ^ k) :: rat) \<le> of_nat m" "(of_nat m :: rat) < of_nat (2 ^ Suc k)"
    using bits_bounds [OF m] unfolding k of_nat_le_iff of_nat_less_iff by auto
  then show ?thesis by (simp add: k power_int_def nat_add_distrib)
qed

lemma exponent_bounds:
  assumes "0 < x"
  shows "2 powi exponent x \<le> x" and "x < 2 powi (exponent x + 1)"
proof -
  obtain n d where q: "quotient_of x = (n, d)" by (cases "quotient_of x")
  have d: "0 < d" using quotient_of_denom_pos [OF q] .
  have x: "x = of_int n / of_int d" by (rule quotient_of_div [OF q])
  have n: "0 < n" using assms d by (simp add: x zero_less_divide_iff)
  let ?a = "int (bits (nat n))" and ?b = "int (bits (nat d))"
  have N: "2 powi (?a - 1) \<le> (of_int n :: rat)" "(of_int n :: rat) < 2 powi ?a"
    using powi_bits [of "nat n"] n by simp_all
  have D: "2 powi (?b - 1) \<le> (of_int d :: rat)" "(of_int d :: rat) < 2 powi ?b"
    using powi_bits [of "nat d"] d by simp_all
  have pos: "0 < (2 :: rat) powi i" for i by simp
  have up: "x < 2 powi (?a - ?b + 1)"
  proof -
    have "x \<le> of_int n / 2 powi (?b - 1)" unfolding x using D n d pos by (intro divide_left_mono) auto
    also have "\<dots> < 2 powi ?a / 2 powi (?b - 1)" using N by (intro divide_strict_right_mono) simp_all
    also have "\<dots> = 2 powi (?a - (?b - 1))" by (simp add: power_int_diff)
    finally show ?thesis by (simp add: algebra_simps)
  qed
  have low: "2 powi (?a - ?b - 1) \<le> x"
  proof -
    have "2 powi (?a - ?b - 1) = 2 powi (?a - 1) / (2 :: rat) powi ?b"
      unfolding powi_div by (rule arg_cong [of _ _ "(powi) 2"]) simp
    also have "\<dots> \<le> of_int n / 2 powi ?b" using N by (intro divide_right_mono) simp_all
    also have "\<dots> \<le> x" unfolding x using D n d by (intro divide_left_mono) auto
    finally show ?thesis .
  qed
  have e: "exponent x = (if 2 powi (?a - ?b) \<le> x then ?a - ?b else ?a - ?b - 1)"
    by (simp add: exponent_def q)
  show "2 powi exponent x \<le> x" using low by (simp add: e)
  show "x < 2 powi (exponent x + 1)" using up by (simp add: e not_le)
qed

section \<open>Rounding\<close>

definition round_even :: "rat \<Rightarrow> int" where
  "round_even s =
     (let f = \<lfloor>s\<rfloor>; r = s - of_int f
      in if r < 1 / 2 then f else if 1 / 2 < r then f + 1 else if even f then f else f + 1)"

lemma round_even_of_int [simp]: "round_even (of_int n) = n"
  by (simp add: round_even_def)

lemma round_even_range: "\<lfloor>s\<rfloor> \<le> round_even s" "round_even s \<le> \<lfloor>s\<rfloor> + 1"
  by (simp_all add: round_even_def Let_def)

lemma round_even_mono: "s \<le> t \<Longrightarrow> round_even s \<le> round_even t"
proof -
  assume st: "s \<le> t"
  then have f: "\<lfloor>s\<rfloor> \<le> \<lfloor>t\<rfloor>" by (rule floor_mono)
  show ?thesis
  proof (cases "\<lfloor>s\<rfloor> = \<lfloor>t\<rfloor>")
    case True
    then show ?thesis using st by (auto simp: round_even_def Let_def)
  next
    case False
    then have "\<lfloor>s\<rfloor> + 1 \<le> \<lfloor>t\<rfloor>" using f by simp
    then show ?thesis using round_even_range(2) [of s] round_even_range(1) [of t] by linarith
  qed
qed

definition float_round :: "nat \<Rightarrow> rat \<Rightarrow> rat" where
  "float_round p x =
     (if x \<le> 0 then 0
      else (let q = 2 powi (exponent x - int p + 1) in of_int (round_even (x / q)) * q))"

lemma float_round_bounds:
  assumes x: "0 < x" and p: "0 < p"
  shows "2 powi exponent x \<le> float_round p x" and "float_round p x \<le> 2 powi (exponent x + 1)"
proof -
  let ?q = "(2 :: rat) powi (exponent x - int p + 1)"
  have q: "0 < ?q" by simp
  have "(of_int (2 ^ (p - 1)) :: rat) = 2 powi (int p - 1)" "(of_int (2 ^ p) :: rat) = 2 powi int p"
    using p by (simp_all add: power_int_def nat_diff_distrib)
  then have lo: "(2 :: rat) powi exponent x = of_int (2 ^ (p - 1)) * ?q"
    and hi: "(2 :: rat) powi (exponent x + 1) = of_int (2 ^ p) * ?q"
    by (simp_all only: powi_mult) (simp_all add: algebra_simps)
  have "of_int (2 ^ (p - 1)) \<le> x / ?q" "x / ?q \<le> of_int (2 ^ p)"
    using exponent_bounds [OF x] q unfolding lo hi by (simp_all add: pos_le_divide_eq pos_divide_le_eq)
  then have "2 ^ (p - 1) \<le> round_even (x / ?q)" "round_even (x / ?q) \<le> 2 ^ p"
    using round_even_mono [of "of_int (2 ^ (p - 1))" "x / ?q"] round_even_mono [of "x / ?q" "of_int (2 ^ p)"]
    by (simp_all only: round_even_of_int)
  then have "of_int (2 ^ (p - 1)) * ?q \<le> of_int (round_even (x / ?q)) * ?q"
    "of_int (round_even (x / ?q)) * ?q \<le> of_int (2 ^ p) * ?q"
    using q by (intro mult_right_mono; simp only: of_int_le_iff; simp)+
  then show "2 powi exponent x \<le> float_round p x" "float_round p x \<le> 2 powi (exponent x + 1)"
    using x unfolding lo hi by (simp_all add: float_round_def Let_def)
qed

lemma float_round_pos: "0 < x \<Longrightarrow> 0 < p \<Longrightarrow> 0 < float_round p x"
  using float_round_bounds(1) [of x p] by (meson less_le_trans zero_less_power_int zero_less_numeral)

lemma float_round_mono:
  assumes p: "0 < p" and xy: "x \<le> y"
  shows "float_round p x \<le> float_round p y"
proof (cases "0 < x")
  case False
  then show ?thesis
    using float_round_pos [of y p] p by (cases "0 < y") (simp_all add: float_round_def)
next
  case True
  then have y: "0 < y" using xy by simp
  have "(2 :: rat) powi exponent x < 2 powi (exponent y + 1)"
    using exponent_bounds(1) [OF True] exponent_bounds(2) [OF y] xy by linarith
  then have e: "exponent x \<le> exponent y" using power_int_increasing [of "exponent y + 1" "exponent x" "2 :: rat"] by (meson not_le one_le_numeral zle_add1_eq_le)
  show ?thesis
  proof (cases "exponent x = exponent y")
    case True
    let ?q = "(2 :: rat) powi (exponent y - int p + 1)"
    have "x / ?q \<le> y / ?q" using xy by (intro divide_right_mono) simp_all
    then have "of_int (round_even (x / ?q)) * ?q \<le> of_int (round_even (y / ?q)) * ?q"
      by (intro mult_right_mono) (simp_all add: round_even_mono)
    then show ?thesis using \<open>0 < x\<close> y True by (simp add: float_round_def Let_def)
  next
    case False
    then have "exponent x + 1 \<le> exponent y" using e by simp
    then have "(2 :: rat) powi (exponent x + 1) \<le> 2 powi exponent y" by (intro power_int_increasing) simp_all
    then show ?thesis
      using float_round_bounds(2) [OF \<open>0 < x\<close> p] float_round_bounds(1) [OF y p] by linarith
  qed
qed

text \<open>A value of the type is its own rounding.\<close>

lemma exponent_unique:
  assumes "2 powi e \<le> x" and "x < 2 powi (e + 1)"
  shows "exponent x = e"
proof -
  have x: "0 < x" using assms(1) by (meson less_le_trans zero_less_power_int zero_less_numeral)
  note b = exponent_bounds [OF x]
  have lt: "i < j" if "(2 :: rat) powi i < 2 powi j" for i j
    using that power_int_increasing [of j i "2 :: rat"] by (meson not_le one_le_numeral)
  have "(2 :: rat) powi exponent x < 2 powi (e + 1)" "(2 :: rat) powi e < 2 powi (exponent x + 1)"
    using b assms by linarith+
  then have "exponent x < e + 1" "e < exponent x + 1" by (blast intro: lt)+
  then show ?thesis by simp
qed

lemma float_round_on_grid:
  assumes x: "0 < x" and n: "x = of_int n * 2 powi (exponent x - int p + 1)"
  shows "float_round p x = x"
proof -
  let ?q = "(2 :: rat) powi (exponent x - int p + 1)"
  have "x / ?q = of_int n" by (subst n) simp
  then have "round_even (x / ?q) = n" by (simp only: round_even_of_int)
  then show ?thesis using x n by (simp add: float_round_def Let_def)
qed

lemma float_round_idem:
  assumes p: "0 < p"
  shows "float_round p (float_round p x) = float_round p x"
proof (cases "0 < x")
  case False
  then show ?thesis by (simp add: float_round_def)
next
  case True
  let ?y = "float_round p x" and ?q = "(2 :: rat) powi (exponent x - int p + 1)"
  have y: "0 < ?y" by (rule float_round_pos [OF True p])
  have grid: "?y = of_int (round_even (x / ?q)) * ?q" using True by (simp add: float_round_def Let_def)
  note b = float_round_bounds [OF True p]
  show ?thesis
  proof (cases "?y = 2 powi (exponent x + 1)")
    case True
    have e: "exponent ?y = exponent x + 1" unfolding True by (rule exponent_unique) (simp_all add: power_int_add)
    have "(of_int (2 ^ (p - 1)) :: rat) = 2 powi (int p - 1)" using p by (simp add: power_int_def nat_diff_distrib)
    then have "(2 :: rat) powi (exponent x + 1) = of_int (2 ^ (p - 1)) * 2 powi (exponent x + 1 - int p + 1)"
      by (simp only: powi_mult) (simp add: algebra_simps)
    then have g: "?y = of_int (2 ^ (p - 1)) * 2 powi (exponent x + 1 - int p + 1)" by (rule trans [OF True])
    show ?thesis
    proof (rule float_round_on_grid [OF y])
      show "?y = of_int (2 ^ (p - 1)) * 2 powi (exponent ?y - int p + 1)" unfolding e by (rule g)
    qed
  next
    case False
    have e: "exponent ?y = exponent x" by (rule exponent_unique) (use b False in auto)
    show ?thesis by (rule float_round_on_grid [OF y]) (simp only: e, rule grid)
  qed
qed

text \<open>Operations on \<open>f32\<close>: twenty-four significant bits.\<close>

definition f32_round :: "rat \<Rightarrow> rat" where "f32_round = float_round 24"
definition f32_add :: "rat \<Rightarrow> rat \<Rightarrow> rat" where "f32_add a b = f32_round (a + b)"
definition f32_div :: "rat \<Rightarrow> rat \<Rightarrow> rat" where "f32_div a b = f32_round (a / b)"
definition f32_of_nat :: "nat \<Rightarrow> rat" where "f32_of_nat n = f32_round (of_nat n)"

lemmas f32_defs = f32_add_def f32_div_def f32_of_nat_def

lemma f32_round_pos: "0 < x \<Longrightarrow> 0 < f32_round x"
  by (simp add: f32_round_def float_round_pos)

lemma f32_round_mono: "x \<le> y \<Longrightarrow> f32_round x \<le> f32_round y"
  by (simp add: f32_round_def float_round_mono)

lemma f32_round_idem [simp]: "f32_round (f32_round x) = f32_round x"
  by (simp add: f32_round_def float_round_idem)

lemma f32_round_0 [simp]: "f32_round 0 = 0"
  by (simp add: f32_round_def float_round_def)

end
