(* ===== verification/Float32.thy ===== *)
theory Float32
  imports Float_Round "HOL-Library.Word"
begin

text \<open>
  The primitive type \<open>f32\<close> with its operations: a bit pattern, the value it denotes, and arithmetic that
  rounds the exact result to the nearest pattern, ties to even, through the subnormal numbers at one end
  and to infinity at the other. Every NaN is the same one: which payload a NaN has is not specified.
\<close>

type_synonym f32 = "32 word"

section \<open>Values\<close>

datatype f32_value = NaN | Infinite bool | Finite bool rat

text \<open>The magnitude of a finite pattern without its sign bit.\<close>

definition magnitude :: "nat \<Rightarrow> rat" where
  "magnitude m =
     (if m < 2 ^ 23 then of_nat m * 2 powi - 149
      else of_nat (2 ^ 23 + m mod 2 ^ 23) * 2 powi (int (m div 2 ^ 23) - 150))"

definition INFINITE :: nat where "INFINITE = 255 * 2 ^ 23"

definition f32_value :: "f32 \<Rightarrow> f32_value" where
  "f32_value b =
     (let m = unat b mod 2 ^ 31; s = 2 ^ 31 \<le> unat b in
      if INFINITE < m then NaN else if m = INFINITE then Infinite s else Finite s (magnitude m))"

text \<open>
  The pattern nearest to a magnitude. With \<open>q\<close> the exponent of the last place, the pattern is the multiple
  of \<open>2 powi q\<close> on top of the exponent field; a carry into the next binade and the step from the largest
  subnormal to the smallest normal number come out of the same sum.
\<close>

definition nearest_pattern :: "rat \<Rightarrow> nat" where
  "nearest_pattern x =
     (let q = (if x = 0 then - 149 else max (exponent x - 23) (- 149)) in
      min (nat ((q + 149) * 2 ^ 23 + round_even (x / 2 powi q))) INFINITE)"

definition with_sign :: "bool \<Rightarrow> nat \<Rightarrow> f32" where
  "with_sign s m = word_of_nat (if s then 2 ^ 31 + m else m)"

fun f32_of :: "f32_value \<Rightarrow> f32" where
  "f32_of NaN = word_of_nat (INFINITE + 2 ^ 22)"
| "f32_of (Infinite s) = with_sign s INFINITE"
| "f32_of (Finite s x) = with_sign s (nearest_pattern x)"

lemma nearest_magnitude:
  assumes "m < INFINITE"
  shows "nearest_pattern (magnitude m) = m"
proof -
  consider (zero) "m = 0" | (subnormal) "0 < m" "m < 2 ^ 23" | (normal) "2 ^ 23 \<le> m" by linarith
  then show ?thesis
  proof cases
    case zero
    then show ?thesis using round_even_of_int [of 0] by (simp add: magnitude_def nearest_pattern_def)
  next
    case subnormal
    let ?x = "of_nat m * 2 powi - 149 :: rat"
    have x: "0 < ?x" using subnormal by simp
    have "(of_nat m :: rat) < 2 powi 23" using subnormal by (simp add: power_int_def flip: of_nat_power_less_of_nat_cancel_iff)
    then have "?x < 2 powi 23 * 2 powi - 149" by (intro mult_strict_right_mono) simp_all
    also have "\<dots> = 2 powi - 126" by (simp only: powi_mult) simp
    finally have "(2 :: rat) powi exponent ?x < 2 powi - 126" using exponent_bounds(1) [OF x] by linarith
    then have "exponent ?x < - 126"
      using power_int_increasing [of "- 126" "exponent ?x" "2 :: rat"] by (meson not_le one_le_numeral)
    moreover have "?x / 2 powi - 149 = of_int (int m)" by simp
    ultimately show ?thesis
      using subnormal assms round_even_of_int [of "int m"] by (simp add: magnitude_def nearest_pattern_def max_def)
  next
    case normal
    let ?e = "int (m div 2 ^ 23)" and ?n = "2 ^ 23 + m mod 2 ^ 23"
    let ?x = "of_nat ?n * 2 powi (?e - 150) :: rat"
    have e: "1 \<le> ?e" using normal by (simp add: div_greater_zero_iff Suc_le_eq)
    have "(of_nat ?n :: rat) < of_nat (2 ^ 24)" unfolding of_nat_less_iff by simp
    then have n: "2 powi 23 \<le> (of_nat ?n :: rat)" "(of_nat ?n :: rat) < 2 powi 24" by (simp_all add: power_int_def)
    have "2 powi 23 * 2 powi (?e - 150) \<le> ?x" "?x < 2 powi 24 * 2 powi (?e - 150)"
      using n by (intro mult_right_mono mult_strict_right_mono; simp)+
    then have "exponent ?x = ?e - 127" unfolding powi_mult by (intro exponent_unique) (simp_all add: algebra_simps)
    moreover have "?x / 2 powi (?e - 150) = of_int (int ?n)" by simp
    moreover have "?x \<noteq> 0" by simp
    moreover have "nat ((?e - 1) * 2 ^ 23 + int ?n) = m"
    proof -
      have "int m = ?e * 2 ^ 23 + int (m mod 2 ^ 23)"
        using arg_cong [OF div_mult_mod_eq [of m "2 ^ 23"], of int] unfolding of_nat_add of_nat_mult of_nat_power by simp
      then show ?thesis by (simp add: algebra_simps)
    qed
    moreover have "max (?e - 127 - 23) (- 149) = ?e - 150" "?e - 150 + 149 = ?e - 1" using e by simp_all
    moreover have "magnitude m = ?x" unfolding magnitude_def using normal by (simp only: if_not_P not_less)
    ultimately have "nearest_pattern (magnitude m) = min m INFINITE"
      unfolding nearest_pattern_def Let_def by (simp only: if_False round_even_of_int)
    then show ?thesis using assms by simp
  qed
qed

lemma unat_with_sign: "m < 2 ^ 31 \<Longrightarrow> unat (with_sign s m) = (if s then 2 ^ 31 + m else m)"
  unfolding with_sign_def by (subst unsigned_of_nat) (simp add: take_bit_nat_eq_self)

text \<open>A pattern that is a number is the nearest one to the value it denotes.\<close>

lemma f32_of_value:
  assumes "f32_value b \<noteq> NaN"
  shows "f32_of (f32_value b) = b"
proof -
  let ?m = "unat b mod 2 ^ 31" and ?s = "2 ^ 31 \<le> unat b"
  have "unat b < 2 ^ 32" using unsigned_less [of b] by simp
  then have "(if ?s then 2 ^ 31 + ?m else ?m) = unat b" by (auto simp: mod_if not_less)
  then have b: "with_sign ?s ?m = b" unfolding word_unat_eq_iff by (subst unat_with_sign) simp_all
  show ?thesis
    using assms b nearest_magnitude [of ?m] by (auto simp: f32_value_def Let_def split: if_splits)
qed

section \<open>Arithmetic\<close>

definition apply_sign :: "bool \<Rightarrow> rat \<Rightarrow> rat" where
  "apply_sign s x = (if s then - x else x)"

fun value_add :: "f32_value \<Rightarrow> f32_value \<Rightarrow> f32_value" where
  "value_add (Infinite s) (Infinite t) = (if s = t then Infinite s else NaN)"
| "value_add (Infinite s) (Finite t y) = Infinite s"
| "value_add (Finite s x) (Infinite t) = Infinite t"
| "value_add (Finite s x) (Finite t y) =
     (let z = apply_sign s x + apply_sign t y in if z = 0 then Finite (s \<and> t) 0 else Finite (z < 0) \<bar>z\<bar>)"
| "value_add _ _ = NaN"

fun value_mul :: "f32_value \<Rightarrow> f32_value \<Rightarrow> f32_value" where
  "value_mul (Infinite s) (Infinite t) = Infinite (s \<noteq> t)"
| "value_mul (Infinite s) (Finite t y) = (if y = 0 then NaN else Infinite (s \<noteq> t))"
| "value_mul (Finite s x) (Infinite t) = (if x = 0 then NaN else Infinite (s \<noteq> t))"
| "value_mul (Finite s x) (Finite t y) = Finite (s \<noteq> t) (x * y)"
| "value_mul _ _ = NaN"

fun value_div :: "f32_value \<Rightarrow> f32_value \<Rightarrow> f32_value" where
  "value_div (Infinite s) (Infinite t) = NaN"
| "value_div (Infinite s) (Finite t y) = Infinite (s \<noteq> t)"
| "value_div (Finite s x) (Infinite t) = Finite (s \<noteq> t) 0"
| "value_div (Finite s x) (Finite t y) =
     (if y = 0 then (if x = 0 then NaN else Infinite (s \<noteq> t)) else Finite (s \<noteq> t) (x / y))"
| "value_div _ _ = NaN"

definition fadd :: "f32 \<Rightarrow> f32 \<Rightarrow> f32" where "fadd a b = f32_of (value_add (f32_value a) (f32_value b))"
definition fmul :: "f32 \<Rightarrow> f32 \<Rightarrow> f32" where "fmul a b = f32_of (value_mul (f32_value a) (f32_value b))"
definition fdiv :: "f32 \<Rightarrow> f32 \<Rightarrow> f32" where "fdiv a b = f32_of (value_div (f32_value a) (f32_value b))"

text \<open>The integer part of a square root, two bits of the argument at a time.\<close>

fun isqrt :: "nat \<Rightarrow> nat" where
  "isqrt n =
     (if n = 0 then 0
      else (let r = 2 * isqrt (n div 4) in if (r + 1) * (r + 1) \<le> n then r + 1 else r))"

declare isqrt.simps [simp del]

lemma isqrt: "isqrt n * isqrt n \<le> n \<and> n < (isqrt n + 1) * (isqrt n + 1)"
proof (induction n rule: isqrt.induct)
  case (1 n)
  show ?case
  proof (cases "n = 0")
    case True
    then show ?thesis by (simp add: isqrt.simps)
  next
    case False
    let ?r = "isqrt (n div 4)"
    from 1 [OF False] have "4 * (?r * ?r) \<le> n" "n < 4 * ((?r + 1) * (?r + 1))" by linarith+
    then have "(2 * ?r) * (2 * ?r) \<le> n" "n < (2 * ?r + 1 + 1) * (2 * ?r + 1 + 1)" by (simp_all add: algebra_simps)
    then show ?thesis using False by (simp add: isqrt.simps [of n] Let_def)
  qed
qed

text \<open>
  The square root of a positive magnitude, correctly rounded: twenty-four bits of the root of the value
  scaled by an even power, and the half place decided on the square. A tie would need a value of
  more bits than the type has.
\<close>

definition root_pattern :: "rat \<Rightarrow> nat" where
  "root_pattern x =
     (let q = exponent x div 2 - 23; r = x / 2 powi (2 * q); n = isqrt (nat \<lfloor>r\<rfloor>);
          n' = (if (of_nat n + 1 / 2) * (of_nat n + 1 / 2) < r then n + 1 else n)
      in nat ((q + 149) * 2 ^ 23 + int n'))"

fun fsqrt_value :: "f32_value \<Rightarrow> f32" where
  "fsqrt_value (Finite s x) =
     (if x = 0 then with_sign s 0 else if s then f32_of NaN else with_sign False (root_pattern x))"
| "fsqrt_value (Infinite s) = (if s then f32_of NaN else f32_of (Infinite False))"
| "fsqrt_value NaN = f32_of NaN"

definition fsqrt :: "f32 \<Rightarrow> f32" where "fsqrt a = fsqrt_value (f32_value a)"

text \<open>The comparison \<open>a > 0.0\<close>.\<close>

fun positive_value :: "f32_value \<Rightarrow> bool" where
  "positive_value (Finite s x) = (\<not> s \<and> 0 < x)"
| "positive_value (Infinite s) = (\<not> s)"
| "positive_value NaN = False"

definition fpositive :: "f32 \<Rightarrow> bool" where "fpositive a = positive_value (f32_value a)"

definition F32_ONE :: f32 where "F32_ONE = with_sign False (127 * 2 ^ 23)"
definition F32_NEG_ZERO :: f32 where "F32_NEG_ZERO = with_sign True 0"

lemma f32_one: "f32_value F32_ONE = Finite False 1"
proof -
  have "magnitude (127 * 2 ^ 23) = of_nat (2 ^ 23) * 2 powi (- 23)" by (simp add: magnitude_def)
  also have "\<dots> = 2 powi 23 * 2 powi (- 23)" by (simp add: power_int_def)
  also have "\<dots> = 1" by (simp only: powi_mult) simp
  finally show ?thesis
    using unat_with_sign [of "127 * 2 ^ 23" False] by (simp add: f32_value_def F32_ONE_def INFINITE_def Let_def)
qed

lemma f32_zero: "f32_value 0 = Finite False 0" "f32_value F32_NEG_ZERO = Finite True 0"
  using unat_with_sign [of 0 True]
  by (simp_all add: f32_value_def F32_NEG_ZERO_def INFINITE_def magnitude_def Let_def)

text \<open>Exact cases: dividing by one changes no number, and adding zero none but the negative zero.\<close>

lemma fdiv_one: "f32_value a \<noteq> NaN \<Longrightarrow> fdiv a F32_ONE = a"
  using f32_of_value [of a] by (cases "f32_value a") (auto simp: fdiv_def f32_one)

lemma magnitude_nonneg: "0 \<le> magnitude m"
  by (simp add: magnitude_def)

lemma fadd_zero:
  assumes "f32_value a \<noteq> NaN" and "a \<noteq> F32_NEG_ZERO"
  shows "fadd 0 a = a"
proof (cases "f32_value a")
  case (Finite s x)
  then have x: "0 \<le> x" by (auto simp: f32_value_def Let_def magnitude_nonneg split: if_splits)
  show ?thesis
  proof (cases "x = 0")
    case True
    then have "a = with_sign s (nearest_pattern 0)" using f32_of_value [of a] Finite by simp
    moreover have "F32_NEG_ZERO = with_sign True (nearest_pattern 0)" "0 = with_sign False (nearest_pattern 0)"
      using f32_of_value [of F32_NEG_ZERO] f32_of_value [of 0] by (simp_all add: f32_zero)
    ultimately show ?thesis using assms True by (cases s) (auto simp: fadd_def f32_zero apply_sign_def)
  next
    case False
    then show ?thesis using f32_of_value [of a] x Finite by (cases s) (simp_all add: fadd_def f32_zero apply_sign_def)
  qed
qed (use assms f32_of_value [of a] in \<open>auto simp: fadd_def f32_zero\<close>)

end
