(* ===== verification/Store_Path.thy ===== *)
theory Store_Path
  imports Text
begin

text \<open>
  Paths of a database directory, as \<open>Path::join\<close> of the standard library builds them on Unix: joining an
  absolute path replaces what was there, joining anything else puts one separator between.
\<close>

type_synonym os_path = string

definition is_absolute :: "os_path \<Rightarrow> bool" where
  "is_absolute p \<longleftrightarrow> take 1 p = ''/''"

definition path_join :: "os_path \<Rightarrow> os_path \<Rightarrow> os_path" where
  "path_join base p =
     (if is_absolute p then p
      else if base = [] \<or> last base = CHR ''/'' then base @ p
      else base @ ''/'' @ p)"

lemma path_join_inject:
  assumes "\<not> is_absolute p" and "\<not> is_absolute q" and "path_join base p = path_join base q"
  shows "p = q"
  using assms by (auto simp: path_join_def split: if_splits)

end
