(* ===== verification/Writer_Lock.thy ===== *)
theory Writer_Lock
  imports Store_Path
begin

text \<open>
  \<open>writer_lock.rs\<close>: the one-writer rule. The operating system keeps an advisory lock per file, owned by an
  open handle and released when the handle is closed. Which file a path names is the file system's
  business, so it is a parameter: two spellings of one directory give the same file. The locale
  \<open>exclusive_lock\<close> is what programs that open and close a database rest on.
\<close>

definition LOCK_FILE :: string where "LOCK_FILE = ''.euledb-writer.lock''"

datatype lock_error = Busy os_path | LockUnavailable os_path string

text \<open>
  The file system as far as locking sees it: the file a path names, the failures of the three calls, the
  lock of each file by the handle that owns it, and the next unused handle.
\<close>

record 'i lock_env =
  le_file :: "os_path \<Rightarrow> 'i"
  le_create_dir :: "os_path \<Rightarrow> string option"
  le_open :: "os_path \<Rightarrow> string option"
  le_lock :: "os_path \<Rightarrow> string option"

record 'i os_locks =
  os_owner :: "'i \<Rightarrow> nat option"
  os_next :: nat

record write_lock = wl_handle :: nat

text \<open>
  \<open>acquire\<close>: create the directory, open the file, try the lock. \<open>try_lock\<close> answers at once, and tells a
  held lock from a failing one.
\<close>

definition lock_acquire :: "'i lock_env \<Rightarrow> os_path \<Rightarrow> 'i os_locks \<Rightarrow> (lock_error + write_lock) \<times> 'i os_locks" where
  "lock_acquire env root os =
     (case le_create_dir env root of
        Some cause \<Rightarrow> (Inl (LockUnavailable root cause), os)
      | None \<Rightarrow>
          (let path = path_join root LOCK_FILE in
           case le_open env path of
             Some cause \<Rightarrow> (Inl (LockUnavailable root cause), os)
           | None \<Rightarrow>
               (let handle = os_next os; os1 = os\<lparr>os_next := Suc handle\<rparr> in
                if os_owner os (le_file env path) \<noteq> None then (Inl (Busy root), os1)
                else
                  (case le_lock env path of
                     Some cause \<Rightarrow> (Inl (LockUnavailable root cause), os1)
                   | None \<Rightarrow>
                       (Inr \<lparr>wl_handle = handle\<rparr>,
                        os1\<lparr>os_owner := (os_owner os)(le_file env path \<mapsto> handle)\<rparr>)))))"

text \<open>Closing a handle, by a drop or by the death of its process, releases what it owns.\<close>

definition lock_close :: "nat \<Rightarrow> 'i os_locks \<Rightarrow> 'i os_locks" where
  "lock_close handle os =
     os\<lparr>os_owner := (\<lambda>i. if os_owner os i = Some handle then None else os_owner os i)\<rparr>"

section \<open>Writers over time\<close>

text \<open>
  A system of writers: the locks held and, per open handle, the file it locked and the number of store
  handles that share it. \<open>LanceStore\<close> is \<open>Clone\<close> and its lock is behind an \<open>Arc\<close>, so the handle is closed
  when the last clone is dropped.
\<close>

record 'i writers =
  ws_os :: "'i os_locks"
  ws_open :: "nat \<Rightarrow> ('i \<times> nat) option"

inductive writer_step :: "'i lock_env \<Rightarrow> 'i writers \<Rightarrow> 'i writers \<Rightarrow> bool" for env where
  acquired: "lock_acquire env root (ws_os s) = (Inr l, os') \<Longrightarrow>
     writer_step env s \<lparr>ws_os = os', ws_open = (ws_open s)(wl_handle l \<mapsto> (le_file env (path_join root LOCK_FILE), 1))\<rparr>"
| refused: "lock_acquire env root (ws_os s) = (Inl e, os') \<Longrightarrow> writer_step env s (s\<lparr>ws_os := os'\<rparr>)"
| cloned: "ws_open s h = Some (i, n) \<Longrightarrow> writer_step env s (s\<lparr>ws_open := (ws_open s)(h \<mapsto> (i, Suc n))\<rparr>)"
| dropped: "ws_open s h = Some (i, Suc (Suc n)) \<Longrightarrow> writer_step env s (s\<lparr>ws_open := (ws_open s)(h \<mapsto> (i, Suc n))\<rparr>)"
| closed: "ws_open s h = Some (i, n) \<Longrightarrow>
     writer_step env s \<lparr>ws_os = lock_close h (ws_os s), ws_open = (ws_open s)(h := None)\<rparr>"

definition no_writers :: "'i writers" where
  "no_writers = \<lparr>ws_os = \<lparr>os_owner = (\<lambda>_. None), os_next = 0\<rparr>, ws_open = (\<lambda>_. None)\<rparr>"

text \<open>
  The locks and the open handles agree: a file is owned by exactly the handle that locked it, and no
  unused handle is open.
\<close>

definition writers_agree :: "'i writers \<Rightarrow> bool" where
  "writers_agree s \<longleftrightarrow>
     (\<forall>i h. os_owner (ws_os s) i = Some h \<longleftrightarrow> (\<exists>n. ws_open s h = Some (i, Suc n))) \<and>
     (\<forall>h p. ws_open s h = Some p \<longrightarrow> h < os_next (ws_os s) \<and> 0 < snd p)"

lemma acquire_cases:
  assumes "lock_acquire env root os = (r, os')"
  obtains (refused) e where "r = Inl e" and "os_owner os' = os_owner os" and "os_next os \<le> os_next os'"
    and "e = Busy root \<longrightarrow> os_owner os (le_file env (path_join root LOCK_FILE)) \<noteq> None"
  | (taken) "r = Inr \<lparr>wl_handle = os_next os\<rparr>" and "os_next os' = Suc (os_next os)"
    and "os_owner os (le_file env (path_join root LOCK_FILE)) = None"
    and "os_owner os' = (os_owner os)(le_file env (path_join root LOCK_FILE) \<mapsto> os_next os)"
proof -
  let ?p = "path_join root LOCK_FILE"
  let ?i = "le_file env ?p"
  consider (dir) c where "le_create_dir env root = Some c"
    | (unopened) c where "le_create_dir env root = None" "le_open env ?p = Some c"
    | (busy) "le_create_dir env root = None" "le_open env ?p = None" "os_owner os ?i \<noteq> None"
    | (locking) c where "le_create_dir env root = None" "le_open env ?p = None" "os_owner os ?i = None" "le_lock env ?p = Some c"
    | (free) "le_create_dir env root = None" "le_open env ?p = None" "os_owner os ?i = None" "le_lock env ?p = None"
    by (cases "le_create_dir env root"; cases "le_open env ?p"; cases "os_owner os ?i"; cases "le_lock env ?p") auto
  then show thesis
  proof cases
    case dir
    with assms refused show thesis by (auto simp: lock_acquire_def)
  next
    case unopened
    with assms refused show thesis by (auto simp: lock_acquire_def)
  next
    case busy
    with assms refused show thesis by (auto simp: lock_acquire_def Let_def)
  next
    case locking
    with assms refused show thesis by (auto simp: lock_acquire_def Let_def)
  next
    case free
    with assms taken show thesis by (auto simp: lock_acquire_def Let_def)
  qed
qed

section \<open>The interface to its users\<close>

text \<open>
  An exclusive lock as its users need it: acquiring succeeds only if nobody holds the file and then makes the
  new handle its holder, a refusal changes no holder, releasing takes away what the handle held.
\<close>

locale exclusive_lock =
  fixes acquire :: "'r \<Rightarrow> 's \<Rightarrow> ('e + 'h) \<times> 's"
    and release :: "'h \<Rightarrow> 's \<Rightarrow> 's"
    and holds_lock :: "'h \<Rightarrow> 's \<Rightarrow> 'f \<Rightarrow> bool"
    and locked_file :: "'r \<Rightarrow> 'f"
  assumes acquired: "acquire r s = (Inr h, s') \<Longrightarrow> \<not> holds_lock k s (locked_file r)"
      "acquire r s = (Inr h, s') \<Longrightarrow> holds_lock k s' f \<longleftrightarrow> (if f = locked_file r then k = h else holds_lock k s f)"
    and refused: "acquire r s = (Inl e, s') \<Longrightarrow> holds_lock k s' f \<longleftrightarrow> holds_lock k s f"
    and released: "holds_lock k (release h s) f \<longleftrightarrow> holds_lock k s f \<and> k \<noteq> h"
begin

lemma second_refused: "acquire r s = (Inr h, s1) \<Longrightarrow> locked_file q = locked_file r \<Longrightarrow> \<exists>e. fst (acquire q s1) = Inl e"
  using acquired(1) [of q s1] acquired(2) [of r s h s1 h] by (metis prod.collapse sum.exhaust)

lemma scope_frees: "acquire r s = (Inr h, s1) \<Longrightarrow> locked_file q = locked_file r \<Longrightarrow> \<not> holds_lock k (release h s1) (locked_file q)"
  by (simp add: released acquired(2))

lemma scope_spares: "acquire r s = (Inr h, s1) \<Longrightarrow> k \<noteq> h \<Longrightarrow> holds_lock k s f \<Longrightarrow> holds_lock k (release h s1) f"
  using acquired(1) by (auto simp: released acquired(2))

end

lemma handle_inject: "wl_handle (k :: write_lock) = wl_handle l \<longleftrightarrow> k = l"
  by (cases k, cases l) simp

interpretation writer_lock: exclusive_lock "lock_acquire env" "\<lambda>l :: write_lock. lock_close (wl_handle l)"
  "\<lambda>l os i. os_owner os i = Some (wl_handle l)" "\<lambda>dir. le_file env (path_join dir LOCK_FILE)" for env
proof
  fix dir h k e f and os os' :: "'a os_locks"
  assume "lock_acquire env dir os = (Inr h, os')"
  then show "os_owner os (le_file env (path_join dir LOCK_FILE)) \<noteq> Some (wl_handle k)"
    "os_owner os' f = Some (wl_handle k) \<longleftrightarrow>
       (if f = le_file env (path_join dir LOCK_FILE) then k = h else os_owner os f = Some (wl_handle k))"
    by (auto elim!: acquire_cases simp: handle_inject [symmetric])
next
  fix dir e k f and os os' :: "'a os_locks"
  assume "lock_acquire env dir os = (Inl e, os')"
  then show "os_owner os' f = Some (wl_handle k) \<longleftrightarrow> os_owner os f = Some (wl_handle k)"
    by (auto elim!: acquire_cases)
qed (auto simp: lock_close_def handle_inject)

lemma lock_is_free: "os_owner os i = None \<longleftrightarrow> (\<forall>l :: write_lock. os_owner os i \<noteq> Some (wl_handle l))"
  by (metis not_None_eq option.distinct(1) write_lock.select_convs(1))

text \<open>A scope that opens the lock of a directory and closes it leaves the lock free.\<close>

lemma scope_leaves_free:
  assumes "lock_acquire env dir os = (Inr l, os1)"
  shows "os_owner (lock_close (wl_handle l) os1) (le_file env (path_join dir LOCK_FILE)) = None"
  using writer_lock.scope_frees [OF assms refl] by (simp add: lock_is_free)

lemma writer_step_agrees:
  assumes "writer_step env s s'" and "writers_agree s"
  shows "writers_agree s'"
  using assms
proof (induction rule: writer_step.induct)
  case (acquired root s l os')
  let ?i = "le_file env (path_join root LOCK_FILE)" and ?h = "os_next (ws_os s)"
  from acquired.hyps show ?case
  proof (cases rule: acquire_cases)
    case taken
    have "ws_open s ?h = None"
      using acquired.prems unfolding writers_agree_def by (metis less_irrefl not_None_eq)
    moreover have "\<nexists>h n. ws_open s h = Some (?i, Suc n)"
      using taken(3) acquired.prems unfolding writers_agree_def by (metis option.distinct(1))
    ultimately show ?thesis using taken acquired.prems
      by (auto simp: writers_agree_def less_Suc_eq split: if_splits)
  qed simp
next
  case (refused root s e os')
  from refused.hyps show ?case
  proof (cases rule: acquire_cases)
    case (refused e)
    have "h < os_next os'" if "ws_open s h = Some q" for h q
      using that refused(3) \<open>writers_agree s\<close> unfolding writers_agree_def by (meson less_le_trans)
    with refused \<open>writers_agree s\<close> show ?thesis by (auto simp: writers_agree_def)
  qed simp
next
  case (cloned s h i n)
  then obtain k where "n = Suc k" unfolding writers_agree_def by (metis snd_conv gr0_conv_Suc)
  with cloned show ?case by (auto simp: writers_agree_def)
next
  case (dropped s h i n)
  then show ?case by (auto simp: writers_agree_def)
next
  case (closed s h i n)
  then have "h = k" if "ws_open s k = Some (i, Suc m)" for k m
    using that unfolding writers_agree_def by (metis gr0_conv_Suc option.inject snd_conv)
  with closed show ?case by (auto simp: writers_agree_def lock_close_def split: if_splits)
qed

lemma reached_agrees: "(writer_step env)\<^sup>*\<^sup>* no_writers s \<Longrightarrow> writers_agree s"
proof (induction rule: rtranclp_induct)
  case base
  show ?case by (simp add: writers_agree_def no_writers_def)
qed (rule writer_step_agrees)

text \<open>C11: at most one writer. In every state that any run of openings, clonings, drops and deaths of
  processes reaches, a database has at most one open write handle, whichever spelling of its directory
  was used; while there is one, opening for writing is refused at once as busy, and as soon as there is
  none, it succeeds unless the file system itself fails.\<close>

theorem one_writer:
  assumes reached: "(writer_step env)\<^sup>*\<^sup>* no_writers s"
    and lock_file: "le_file env (path_join root LOCK_FILE) = i"
    and fs: "le_create_dir env root = None" "le_open env (path_join root LOCK_FILE) = None"
      "le_lock env (path_join root LOCK_FILE) = None"
  shows "(\<forall>h h' n n'. ws_open s h = Some (i, n) \<longrightarrow> ws_open s h' = Some (i, n') \<longrightarrow> h = h') \<and>
    (if \<exists>h n. ws_open s h = Some (i, n)
     then fst (lock_acquire env root (ws_os s)) = Inl (Busy root)
     else \<exists>l. fst (lock_acquire env root (ws_os s)) = Inr l)"
proof -
  have agree: "os_owner (ws_os s) i = Some h \<longleftrightarrow> (\<exists>n. ws_open s h = Some (i, n))" for h
    using reached_agrees [OF reached] unfolding writers_agree_def by (metis Suc_pred snd_conv)
  have "h = h'" if "ws_open s h = Some (i, n)" "ws_open s h' = Some (i, n')" for h h' n n'
    using agree [of h] agree [of h'] that by simp
  moreover have "os_owner (ws_os s) i \<noteq> None \<longleftrightarrow> (\<exists>h n. ws_open s h = Some (i, n))" using agree by auto
  ultimately show ?thesis using fs lock_file by (auto simp: lock_acquire_def Let_def)
qed

definition demo_locks :: "string lock_env" where
  "demo_locks = \<lparr>le_file = (\<lambda>p. p), le_create_dir = (\<lambda>_. None), le_open = (\<lambda>_. None), le_lock = (\<lambda>_. None)\<rparr>"

lemma demo_locks_simps [simp]:
  "le_file demo_locks p = p" "le_create_dir demo_locks p = None" "le_open demo_locks p = None" "le_lock demo_locks p = None"
  by (simp_all add: demo_locks_def)

theorem one_writer_witness:
  "\<exists>s :: string writers. ws_open s 0 = Some (''db/.euledb-writer.lock'', 1) \<and> fst (lock_acquire demo_locks ''db'' (ws_os s)) = Inl (Busy ''db'')"
proof -
  let ?i = "''db/.euledb-writer.lock''"
  let ?s = "\<lparr>ws_os = \<lparr>os_owner = [?i \<mapsto> 0], os_next = 1\<rparr>, ws_open = [0 \<mapsto> (?i, 1)]\<rparr>"
  have p: "path_join ''db'' LOCK_FILE = ?i" by (simp add: path_join_def is_absolute_def LOCK_FILE_def)
  have "lock_acquire demo_locks ''db'' (ws_os (no_writers :: string writers)) = (Inr \<lparr>wl_handle = 0\<rparr>, ws_os ?s)"
    unfolding lock_acquire_def p by (simp add: no_writers_def p)
  from writer_step.acquired [OF this] have "writer_step demo_locks no_writers ?s"
    by (simp add: p no_writers_def)
  then have reached: "(writer_step demo_locks)\<^sup>*\<^sup>* no_writers ?s" by blast
  have held: "\<exists>h n. ws_open ?s h = Some (?i, n)" by (intro exI [of _ 0] exI [of _ 1]) simp
  have "fst (lock_acquire demo_locks ''db'' (ws_os ?s)) = Inl (Busy ''db'')"
    using one_writer [OF reached, of "''db''" ?i] unfolding if_P [OF held] p by simp
  then show ?thesis by (intro exI [of _ ?s]) simp
qed

end
