(* ===== verification/Capability.thy ===== *)
theory Capability
  imports Keyring_Claims
begin

text \<open>
  \<open>crypto/capability.rs\<close>: capabilities on one table, signed by the keyring, and the gate a handle checks
  them with. A table name is the string of its UTF-8 bytes.
\<close>

definition CAPABILITY_CONTEXT :: bytes where "CAPABILITY_CONTEXT = ascii ''euledb/capability/v1''"

datatype scope = Read | Write | Schema

fun scope_as_str :: "scope \<Rightarrow> string" where
  "scope_as_str Read = ''read''"
| "scope_as_str Write = ''write''"
| "scope_as_str Schema = ''schema''"

definition scope_as_bytes :: "scope \<Rightarrow> bytes" where
  "scope_as_bytes s = ascii (scope_as_str s)"

record capability =
  cap_table :: string
  cap_scope :: scope
  cap_tag :: bytes

text \<open>What is signed: the context, the length of the table's name, the name and the scope. The length saturates.\<close>

definition tag_message :: "string \<Rightarrow> scope \<Rightarrow> bytes" where
  "tag_message table scope =
     CAPABILITY_CONTEXT @ be64 (if length table < 2 ^ 64 then word_of_nat (length table) else - 1)
     @ ascii table @ scope_as_bytes scope"

definition tag_for :: "mac \<Rightarrow> keyring \<Rightarrow> string \<Rightarrow> scope \<Rightarrow> bytes" where
  "tag_for mac k table scope = mac (token_key mac k) (tag_message table scope)"

definition grant :: "mac \<Rightarrow> keyring \<Rightarrow> string \<Rightarrow> scope \<Rightarrow> capability" where
  "grant mac k table scope = \<lparr>cap_table = table, cap_scope = scope, cap_tag = tag_for mac k table scope\<rparr>"

record gate =
  gate_key :: bytes
  gate_granted :: "capability list"

definition gate_new :: "mac \<Rightarrow> keyring \<Rightarrow> capability list \<Rightarrow> gate" where
  "gate_new mac k granted = \<lparr>gate_key = token_key mac k, gate_granted = granted\<rparr>"

text \<open>\<open>verify_slice\<close> of the mac compares the whole tag.\<close>

definition gate_verifies :: "mac \<Rightarrow> gate \<Rightarrow> capability \<Rightarrow> bool" where
  "gate_verifies mac g cap \<longleftrightarrow> mac (gate_key g) (tag_message (cap_table cap) (cap_scope cap)) = cap_tag cap"

definition permits :: "mac \<Rightarrow> gate \<Rightarrow> string \<Rightarrow> scope \<Rightarrow> bool" where
  "permits mac g table scope \<longleftrightarrow>
     list_ex (\<lambda>cap. cap_scope cap = scope \<and> cap_table cap = table \<and> gate_verifies mac g cap) (gate_granted g)"

section \<open>The signed message has one reading\<close>

lemma scope_as_bytes_inject [simp]: "scope_as_bytes s = scope_as_bytes t \<longleftrightarrow> s = t"
  by (cases s; cases t) (simp_all add: scope_as_bytes_def)

lemma tag_message_inject:
  assumes "length t < 2 ^ 64" and "length u < 2 ^ 64"
  shows "tag_message t s = tag_message u v \<longleftrightarrow> t = u \<and> s = v"
proof
  assume eq: "tag_message t s = tag_message u v"
  then have "be64 (word_of_nat (length t)) = be64 (word_of_nat (length u))"
    and rest: "ascii t @ scope_as_bytes s = ascii u @ scope_as_bytes v"
    using assms by (simp_all add: tag_message_def)
  then have "(word_of_nat (length t) :: u64) = word_of_nat (length u)" by simp
  then have "length t = length u" using assms by (metis unat_of_nat_u64)
  with rest show "t = u \<and> s = v" by (simp add: append_eq_append_conv)
qed simp

section \<open>The gate\<close>

lemma verifies_iff:
  "gate_verifies mac (gate_new mac k caps) cap \<longleftrightarrow> cap_tag cap = tag_for mac k (cap_table cap) (cap_scope cap)"
  by (auto simp: gate_verifies_def gate_new_def tag_for_def)

lemma permits_iff: "permits mac (gate_new mac k caps) table scope \<longleftrightarrow> grant mac k table scope \<in> set caps"
proof -
  have "grant mac k table scope \<in> set caps \<longleftrightarrow>
      (\<exists>cap \<in> set caps. cap_scope cap = scope \<and> cap_table cap = table \<and> cap_tag cap = tag_for mac k table scope)"
  proof
    assume "\<exists>cap \<in> set caps. cap_scope cap = scope \<and> cap_table cap = table \<and> cap_tag cap = tag_for mac k table scope"
    then obtain cap where cap: "cap \<in> set caps" "cap_scope cap = scope" "cap_table cap = table"
      "cap_tag cap = tag_for mac k table scope" by blast
    then have "cap = grant mac k table scope" by (simp add: grant_def)
    with cap(1) show "grant mac k table scope \<in> set caps" by simp
  qed (auto simp: grant_def intro!: bexI)
  then show ?thesis
    by (auto simp: permits_def list_ex_iff verifies_iff) (auto simp: gate_new_def)
qed

text \<open>
  What a holder can make of the tokens it was given without the key: any set of tags the keyring issued,
  each attached to any table and scope.
\<close>

definition relabelled :: "mac \<Rightarrow> keyring \<Rightarrow> (string \<times> scope) list \<Rightarrow> capability list \<Rightarrow> bool" where
  "relabelled mac k issued caps \<longleftrightarrow>
     (\<forall>cap \<in> set caps. \<exists>(t, s) \<in> set issued. cap_tag cap = tag_for mac k t s)"

text \<open>The messages of the tokens in play have different tags, as HMAC-SHA256 is relied on to provide.\<close>

definition mac_separates :: "mac \<Rightarrow> bytes \<Rightarrow> (string \<times> scope) set \<Rightarrow> bool" where
  "mac_separates mac key msgs \<longleftrightarrow> inj_on (\<lambda>m. mac key m) ((\<lambda>(t, s). tag_message t s) ` msgs)"

lemma relabelled_permits:
  assumes caps: "relabelled mac k issued caps" and names: "\<forall>(t, s) \<in> set issued. length t < 2 ^ 64" "length table < 2 ^ 64"
    and m: "mac_separates mac (token_key mac k) (insert (table, scope) (set issued))"
    and p: "permits mac (gate_new mac k caps) table scope"
  shows "(table, scope) \<in> set issued"
proof -
  have "grant mac k table scope \<in> set caps" using p by (simp add: permits_iff)
  then obtain t s where ts: "(t, s) \<in> set issued" "tag_for mac k table scope = tag_for mac k t s"
    using caps by (auto simp: relabelled_def grant_def)
  then have "tag_message table scope = tag_message t s"
    using m unfolding mac_separates_def tag_for_def by (auto dest!: inj_onD)
  then have "table = t \<and> scope = s" using names ts(1) by (intro iffD1 [OF tag_message_inject]) auto
  then show ?thesis using ts(1) by simp
qed

section \<open>Properties\<close>

text \<open>A mac for the witnesses: the key and the message joined.\<close>

definition demo_mac :: mac where "demo_mac key msg = key @ msg"

definition demo_keyring :: keyring where
  "demo_keyring = \<lparr>kr_keys = [(FIRST_KEY, demo_key 7)], kr_current = FIRST_KEY, kr_kek = demo_key 3,
     kr_salt = replicate 16 0, kr_nonce = replicate 12 0, kr_sealed = []\<rparr>"

text \<open>A gate permits exactly what its keyring granted. A handle's capabilities permit a scope on a
  table if and only if they contain the very token the keyring grants for that table and scope; no
  scope implies another, and no token of another keyring counts.\<close>

theorem gate_permits_granted:
  "permits mac (gate_new mac k caps) table scope \<longleftrightarrow> grant mac k table scope \<in> set caps"
  by (rule permits_iff)

text \<open>A holder cannot widen its rights. Whatever tags of issued tokens it attaches to whatever tables
  and scopes, its gate permits only what was issued, as long as the mac separates the messages in play:
  the signed message determines the table and the scope.\<close>

theorem relabelled_tokens_grant_nothing:
  assumes "relabelled mac k issued caps" and "\<forall>(t, s) \<in> set issued. length t < 2 ^ 64" and "length table < 2 ^ 64"
    and "mac_separates mac (token_key mac k) (insert (table, scope) (set issued))"
    and "(table, scope) \<notin> set issued"
  shows "\<not> permits mac (gate_new mac k caps) table scope"
  using relabelled_permits [OF assms(1-4)] assms(5) by blast

theorem relabelled_tokens_grant_nothing_witness:
  "\<not> permits demo_mac (gate_new demo_mac demo_keyring [(grant demo_mac demo_keyring ''notes'' Read)\<lparr>cap_scope := Write\<rparr>])
     ''notes'' Write"
  by (rule relabelled_tokens_grant_nothing [of _ _ "[(''notes'', Read)]"])
    (simp_all add: relabelled_def grant_def mac_separates_def demo_mac_def inj_on_def)

end
