(* ===== verification/Audit_Log.thy ===== *)
theory Audit_Log
  imports Text
begin

text \<open>
  \<open>audit.rs\<close>: the append-only log of operations, one line per record, chained by SHA-256. The digest is
  the parameter \<open>digest\<close>. The log file is its content, \<open>None\<close> while it does not exist, and the file system
  is the parameter \<open>env\<close>: which of the calls of an operation fails, with what message, and how many bytes
  a failing write leaves behind. A file whose bytes are not UTF-8 fails the reading call. The lock serialises the operations, so each runs on its own.
\<close>

section \<open>Records\<close>

definition HASH_LEN :: nat where "HASH_LEN = 32"
definition ANCHOR :: bytes where "ANCHOR = replicate HASH_LEN 0"
definition REANCHOR :: string where "REANCHOR = ''re-anchor after broken link ''"

record audit_record =
  ar_sequence :: u64
  ar_previous :: bytes
  ar_query :: string
  ar_plan :: string
  ar_rows :: u64
  ar_hash :: bytes

text \<open>
  The errors of the log. \<open>AddOverflow\<close> is not one of the source's: it stands for the panic of a build with
  overflow checks where the next sequence number is computed.
\<close>

datatype audit_error =
    Unavailable string
  | BrokenChain u64
  | NothingToReanchor
  | Malformed string
  | AddOverflow

text \<open>A length as \<open>u64::try_from(len).unwrap_or(u64::MAX)\<close> writes it.\<close>

definition length_prefix :: "string \<Rightarrow> bytes" where
  "length_prefix s = be64 (if length s < 2 ^ 64 then word_of_nat (length s) else - 1)"

text \<open>The bytes that are hashed.\<close>

definition record_message :: "audit_record \<Rightarrow> bytes" where
  "record_message r =
     ar_previous r @ be64 (ar_sequence r) @ length_prefix (ar_query r) @ ascii (ar_query r)
     @ length_prefix (ar_plan r) @ ascii (ar_plan r) @ be64 (ar_rows r)"

definition recompute :: "(bytes \<Rightarrow> bytes) \<Rightarrow> audit_record \<Rightarrow> bytes" where
  "recompute digest r = digest (record_message r)"

definition sealed_record :: "(bytes \<Rightarrow> bytes) \<Rightarrow> u64 \<Rightarrow> bytes \<Rightarrow> string \<Rightarrow> string \<Rightarrow> u64 \<Rightarrow> audit_record" where
  "sealed_record digest sequence previous query plan rows =
     (let r = \<lparr>ar_sequence = sequence, ar_previous = previous, ar_query = query, ar_plan = plan,
               ar_rows = rows, ar_hash = ANCHOR\<rparr>
      in r\<lparr>ar_hash := recompute digest r\<rparr>)"

section \<open>Lines\<close>

fun escape :: "string \<Rightarrow> string" where
  "escape [] = []"
| "escape (c # cs) =
     (if c = backslash then [backslash, backslash]
      else if c = tab then [backslash, CHR ''t'']
      else if c = newline then [backslash, CHR ''n'']
      else [c]) @ escape cs"

text \<open>A trailing lone backslash is dropped.\<close>

fun unescape :: "string \<Rightarrow> string" where
  "unescape [] = []"
| "unescape [c] = (if c \<noteq> backslash then [c] else [])"
| "unescape (c # d # cs) =
     (if c \<noteq> backslash then c # unescape (d # cs)
      else (if d = backslash then [backslash]
            else if d = CHR ''t'' then [tab]
            else if d = CHR ''n'' then [newline]
            else [backslash, d]) @ unescape cs)"

definition unhex :: "string \<Rightarrow> bytes option" where
  "unhex s = (if length s \<noteq> HASH_LEN * 2 then None else unhex_pairs s)"

definition to_line :: "audit_record \<Rightarrow> string" where
  "to_line r =
     show_nat (unat (ar_sequence r)) @ [tab] @ hex (ar_previous r) @ [tab] @ hex (ar_hash r) @ [tab]
     @ show_nat (unat (ar_rows r)) @ [tab] @ escape (ar_query r) @ [tab] @ escape (ar_plan r) @ [newline]"

text \<open>The iterator of fields: the next one, or the given reason.\<close>

fun next_field :: "string \<Rightarrow> string list \<Rightarrow> audit_error + (string \<times> string list)" where
  "next_field reason [] = Inl (Malformed reason)"
| "next_field reason (f # fs) = Inr (f, fs)"

definition from_line :: "string \<Rightarrow> audit_error + audit_record" where
  "from_line line =
     rbind (next_field ''no sequence'' (split_on tab line)) (\<lambda>(f1, fs1).
     rbind (ok_or (Malformed ''the sequence is not a number'') (parse_u64 f1)) (\<lambda>sequence.
     rbind (next_field ''no previous hash'' fs1) (\<lambda>(f2, fs2).
     rbind (ok_or (Malformed ''bad previous hash'') (unhex f2)) (\<lambda>previous.
     rbind (next_field ''no hash'' fs2) (\<lambda>(f3, fs3).
     rbind (ok_or (Malformed ''bad hash'') (unhex f3)) (\<lambda>hash.
     rbind (next_field ''no row count'' fs3) (\<lambda>(f4, fs4).
     rbind (ok_or (Malformed ''the row count is not a number'') (parse_u64 f4)) (\<lambda>rows.
     rbind (next_field ''no query'' fs4) (\<lambda>(f5, fs5).
     rbind (next_field ''no plan'' fs5) (\<lambda>(f6, fs6).
     Inr \<lparr>ar_sequence = sequence, ar_previous = previous, ar_query = unescape f5, ar_plan = unescape f6,
          ar_rows = rows, ar_hash = hash\<rparr>))))))))))"

definition parse :: "string \<Rightarrow> audit_error + audit_record list" where
  "parse raw = rmap from_line (filter (\<lambda>line. line \<noteq> []) (lines_of raw))"

text \<open>What a file's content reads as: \<open>read_to_string\<close>, then \<open>parse\<close>.\<close>

definition parse_file :: "string \<Rightarrow> audit_error + audit_record list" where
  "parse_file content =
     (case decode_text content of Inl cause \<Rightarrow> Inl (Unavailable cause) | Inr raw \<Rightarrow> parse raw)"

section \<open>The chain\<close>

definition is_reanchor :: "audit_record \<Rightarrow> bool" where
  "is_reanchor r \<longleftrightarrow> take (length REANCHOR) (ar_query r) = REANCHOR"

text \<open>From the last re-anchoring record on, or all of them.\<close>

fun current_chain :: "audit_record list \<Rightarrow> audit_record list" where
  "current_chain [] = []"
| "current_chain (r # rs) =
     (if list_ex is_reanchor rs then current_chain rs else r # rs)"

fun first_break_from :: "(bytes \<Rightarrow> bytes) \<Rightarrow> bytes \<Rightarrow> audit_record list \<Rightarrow> u64 option" where
  "first_break_from digest expected [] = None"
| "first_break_from digest expected (r # rs) =
     (if ar_previous r \<noteq> expected \<or> ar_hash r \<noteq> recompute digest r then Some (ar_sequence r)
      else first_break_from digest (ar_hash r) rs)"

definition first_break :: "(bytes \<Rightarrow> bytes) \<Rightarrow> audit_record list \<Rightarrow> u64 option" where
  "first_break digest records = first_break_from digest ANCHOR (current_chain records)"

section \<open>Operations on the log\<close>

datatype audit_call = OpenCall | LockCall | SeekCall | ReadCall | WriteCall | FlushCall

text \<open>
  The file system, and whether the build checks additions: which call fails and with what message, and how
  much of a line a failing write leaves.
\<close>

record audit_env =
  env_fault :: "audit_call \<Rightarrow> string option"
  env_torn :: nat
  env_checks :: bool

definition try_call :: "audit_env \<Rightarrow> audit_call \<Rightarrow> audit_error + unit" where
  "try_call env call = (case env_fault env call of Some cause \<Rightarrow> Inl (Unavailable cause) | None \<Rightarrow> Inr ())"

text \<open>\<open>last.sequence + 1\<close>, or zero for an empty log: the largest number wraps, or panics.\<close>

definition next_sequence :: "audit_env \<Rightarrow> audit_record list \<Rightarrow> audit_error + u64" where
  "next_sequence env existing =
     (if existing = [] then Inr 0
      else if env_checks env \<and> ar_sequence (last existing) = - 1 then Inl AddOverflow
      else Inr (ar_sequence (last existing) + 1))"

text \<open>The end of an append: the bytes, or part of them, then the flush.\<close>

definition write_line :: "audit_env \<Rightarrow> string \<Rightarrow> string \<Rightarrow> (audit_error + unit) \<times> string option" where
  "write_line env content line =
     (case try_call env WriteCall of
        Inl e \<Rightarrow> (Inl e, Some (content @ take (env_torn env) line))
      | Inr _ \<Rightarrow> (try_call env FlushCall, Some (content @ line)))"

text \<open>Opening creates the file when there is none.\<close>

definition opened :: "string option \<Rightarrow> string" where
  "opened file = (case file of None \<Rightarrow> [] | Some content \<Rightarrow> content)"

definition audit_append ::
  "audit_env \<Rightarrow> (bytes \<Rightarrow> bytes) \<Rightarrow> string \<Rightarrow> string \<Rightarrow> u64 \<Rightarrow> string option \<Rightarrow> (audit_error + unit) \<times> string option" where
  "audit_append env digest query plan rows file =
     (case try_call env OpenCall of
        Inl e \<Rightarrow> (Inl e, file)
      | Inr _ \<Rightarrow>
          (let raw = opened file in
           case rbind (try_call env LockCall) (\<lambda>_. rbind (try_call env SeekCall) (\<lambda>_.
                  rbind (try_call env ReadCall) (\<lambda>_. parse_file raw))) of
             Inl e \<Rightarrow> (Inl e, Some raw)
           | Inr existing \<Rightarrow>
               (case first_break digest existing of
                  Some at \<Rightarrow> (Inl (BrokenChain at), Some raw)
                | None \<Rightarrow>
                    (case next_sequence env existing of
                       Inl e \<Rightarrow> (Inl e, Some raw)
                     | Inr sequence \<Rightarrow>
                         (let previous = (if existing = [] then ANCHOR else ar_hash (last existing));
                              record = sealed_record digest sequence previous query plan rows
                          in write_line env raw (to_line record))))))"

definition audit_write :: "audit_env \<Rightarrow> audit_record \<Rightarrow> string option \<Rightarrow> (audit_error + unit) \<times> string option" where
  "audit_write env record file =
     (case try_call env OpenCall of
        Inl e \<Rightarrow> (Inl e, file)
      | Inr _ \<Rightarrow>
          (case try_call env LockCall of
             Inl e \<Rightarrow> (Inl e, Some (opened file))
           | Inr _ \<Rightarrow> write_line env (opened file) (to_line record)))"

definition audit_records :: "audit_env \<Rightarrow> string option \<Rightarrow> audit_error + audit_record list" where
  "audit_records env file =
     (case file of
        None \<Rightarrow> Inr []
      | Some raw \<Rightarrow> rbind (try_call env ReadCall) (\<lambda>_. parse_file raw))"

definition audit_verify :: "audit_env \<Rightarrow> (bytes \<Rightarrow> bytes) \<Rightarrow> string option \<Rightarrow> audit_error + unit" where
  "audit_verify env digest file =
     rbind (audit_records env file) (\<lambda>records.
       case first_break digest records of None \<Rightarrow> Inr () | Some at \<Rightarrow> Inl (BrokenChain at))"

definition audit_reanchor ::
  "audit_env \<Rightarrow> (bytes \<Rightarrow> bytes) \<Rightarrow> string option \<Rightarrow> (audit_error + unit) \<times> string option" where
  "audit_reanchor env digest file =
     (case audit_records env file of
        Inl e \<Rightarrow> (Inl e, file)
      | Inr records \<Rightarrow>
          (case first_break digest records of
             None \<Rightarrow> (Inl NothingToReanchor, file)
           | Some at \<Rightarrow>
               (case next_sequence env records of
                  Inl e \<Rightarrow> (Inl e, file)
                | Inr sequence \<Rightarrow>
                    audit_write env (sealed_record digest sequence ANCHOR (REANCHOR @ show_nat (unat at)) [] 0) file)))"

end
