(* ===== verification/Measurement.thy ===== *)
theory Measurement
  imports Text Float_Round
begin

text \<open>
  \<open>measurement.rs\<close>: row identities and sets of them, and the reading of the row counts that the engine
  prints into an executed plan. The compressed bitmap behind a set is code of another package: it is a
  parameter, with the laws its documentation gives.
\<close>

section \<open>Row identities and sets of them\<close>

datatype row_id = RowId (row_get: u64)

instantiation row_id :: linorder
begin

definition less_eq_row_id :: "row_id \<Rightarrow> row_id \<Rightarrow> bool" where
  "less_eq_row_id a b \<longleftrightarrow> row_get a \<le> row_get b"

definition less_row_id :: "row_id \<Rightarrow> row_id \<Rightarrow> bool" where
  "less_row_id a b \<longleftrightarrow> row_get a < row_get b"

instance
  by standard (auto simp: less_eq_row_id_def less_row_id_def row_id.expand)

end

record 't bitmap =
  bm_collect :: "u64 list \<Rightarrow> 't"
  bm_and :: "'t \<Rightarrow> 't \<Rightarrow> 't"
  bm_or :: "'t \<Rightarrow> 't \<Rightarrow> 't"
  bm_len :: "'t \<Rightarrow> u64"
  bm_is_empty :: "'t \<Rightarrow> bool"
  bm_contains :: "'t \<Rightarrow> u64 \<Rightarrow> bool"
  bm_iter :: "'t \<Rightarrow> u64 list"

text \<open>
  The documented behaviour of the bitmap: it holds a set of numbers, collecting is forming the set of a
  list, the operators are intersection and union, and iteration is in ascending order.
\<close>

definition bitmap_laws :: "'t bitmap \<Rightarrow> ('t \<Rightarrow> u64 set) \<Rightarrow> bool" where
  "bitmap_laws bm elems \<longleftrightarrow>
     (\<forall>xs. elems (bm_collect bm xs) = set xs) \<and>
     (\<forall>a b. elems (bm_and bm a b) = elems a \<inter> elems b) \<and>
     (\<forall>a b. elems (bm_or bm a b) = elems a \<union> elems b) \<and>
     (\<forall>a. bm_len bm a = word_of_nat (card (elems a))) \<and>
     (\<forall>a. bm_is_empty bm a \<longleftrightarrow> elems a = {}) \<and>
     (\<forall>a x. bm_contains bm a x \<longleftrightarrow> x \<in> elems a) \<and>
     (\<forall>a. bm_iter bm a = sorted_list_of_set (elems a))"

definition row_set_len :: "'t bitmap \<Rightarrow> 't \<Rightarrow> u64" where
  "row_set_len bm s = bm_len bm s"

definition row_set_is_empty :: "'t bitmap \<Rightarrow> 't \<Rightarrow> bool" where
  "row_set_is_empty bm s = bm_is_empty bm s"

definition row_set_contains :: "'t bitmap \<Rightarrow> 't \<Rightarrow> row_id \<Rightarrow> bool" where
  "row_set_contains bm s row = bm_contains bm s (row_get row)"

definition row_set_iter :: "'t bitmap \<Rightarrow> 't \<Rightarrow> row_id list" where
  "row_set_iter bm s = map RowId (bm_iter bm s)"

definition row_set_of :: "'t bitmap \<Rightarrow> row_id list \<Rightarrow> 't" where
  "row_set_of bm rows = bm_collect bm (map row_get rows)"

definition intersect_all :: "'t bitmap \<Rightarrow> 't \<Rightarrow> 't list \<Rightarrow> 't" where
  "intersect_all bm first rest = foldl (bm_and bm) first rest"

definition union_all :: "'t bitmap \<Rightarrow> 't \<Rightarrow> 't list \<Rightarrow> 't" where
  "union_all bm first rest = foldl (bm_or bm) first rest"

datatype order = Ascending | Descending

datatype rows_examined = RowsExamined (examined_get: u64)

record 'a measured =
  m_value :: 'a
  m_rows_examined :: rows_examined

section \<open>Reading a floating point number\<close>

text \<open>
  \<open>str::parse::<f64>\<close>: an optional sign, then an infinity, a NaN, or decimal digits with an optional
  point and exponent, at least one digit before the exponent. The value is rounded to 53 bits. The model
  has no largest and no smallest exponent: what it does with a value out of the type's range is
  the same after the saturating conversion to an integer, which is the only use.
\<close>

datatype f64 = Finite rat | Infinite bool | Nan

definition lower_char :: "char \<Rightarrow> char" where
  "lower_char c = (let n = of_char c :: nat in if 65 \<le> n \<and> n \<le> 90 then char_of (n + 32) else c)"

definition is_digit :: "char \<Rightarrow> bool" where
  "is_digit c \<longleftrightarrow> digit_value c \<noteq> None"

definition decimal_value :: "nat \<Rightarrow> int \<Rightarrow> rat" where
  "decimal_value n e = (if 0 \<le> e then of_nat n * 10 ^ nat e else of_nat n / 10 ^ nat (- e))"

text \<open>The exponent part: nothing, or an \<open>e\<close>, an optional sign and at least one digit.\<close>

definition parse_exponent :: "string \<Rightarrow> int option" where
  "parse_exponent s =
     (case s of
        [] \<Rightarrow> Some 0
      | c # cs \<Rightarrow>
          if lower_char c \<noteq> CHR ''e'' then None
          else
            (let negative = (take 1 cs = ''-'');
                 ds = (if take 1 cs = ''-'' \<or> take 1 cs = ''+'' then drop 1 cs else cs)
             in if ds = [] then None
                else map_option (\<lambda>n. if negative then - int n else int n) (digits_value 0 ds)))"

definition parse_unsigned :: "string \<Rightarrow> f64 option" where
  "parse_unsigned s =
     (if map lower_char s = ''inf'' \<or> map lower_char s = ''infinity'' then Some (Infinite False)
      else if map lower_char s = ''nan'' then Some Nan
      else
        (let whole = takeWhile is_digit s;
             after = dropWhile is_digit s;
             fraction = (if take 1 after = ''.'' then takeWhile is_digit (drop 1 after) else []);
             rest = (if take 1 after = ''.'' then dropWhile is_digit (drop 1 after) else after)
         in if whole @ fraction = [] then None
            else
              (case (digits_value 0 (whole @ fraction), parse_exponent rest) of
                 (Some n, Some e) \<Rightarrow> Some (Finite (float_round 53 (decimal_value n (e - int (length fraction)))))
               | _ \<Rightarrow> None)))"

text \<open>The test \<open>value >= 0.0\<close> drops a NaN and everything below zero; minus zero passes it.\<close>

definition parse_non_negative :: "string \<Rightarrow> f64 option" where
  "parse_non_negative s =
     (if take 1 s = ''-''
      then (case parse_unsigned (drop 1 s) of Some (Finite x) \<Rightarrow> if x = 0 then Some (Finite 0) else None | _ \<Rightarrow> None)
      else (case parse_unsigned (if take 1 s = ''+'' then drop 1 s else s) of
              Some Nan \<Rightarrow> None
            | r \<Rightarrow> r))"

text \<open>\<open>(value * scale as f64) as u64\<close>: a rounded product, then truncated and saturated.\<close>

fun scaled_count :: "f64 \<Rightarrow> nat \<Rightarrow> u64" where
  "scaled_count (Finite x) scale =
     (let n = nat \<lfloor>float_round 53 (x * of_nat scale)\<rfloor> in if n < 2 ^ 64 then word_of_nat n else - 1)"
| "scaled_count (Infinite _) scale = - 1"
| "scaled_count Nan scale = 0"

section \<open>Reading a rendered count\<close>

definition saturating_mul :: "u64 \<Rightarrow> nat \<Rightarrow> u64" where
  "saturating_mul a scale = (if unat a * scale < 2 ^ 64 then a * word_of_nat scale else - 1)"

text \<open>\<open>str::split_once(' ')\<close>.\<close>

definition split_once :: "char \<Rightarrow> string \<Rightarrow> (string \<times> string) option" where
  "split_once c s = (if c \<in> set s then Some (takeWhile ((\<noteq>) c) s, drop 1 (dropWhile ((\<noteq>) c) s)) else None)"

definition suffix_scale :: "string \<Rightarrow> nat option" where
  "suffix_scale suffix =
     (if suffix = ''K'' then Some 1000
      else if suffix = ''M'' then Some 1000000
      else if suffix = ''G'' then Some 1000000000 else None)"

definition parse_human_count :: "string \<Rightarrow> u64 option" where
  "parse_human_count text =
     (case (case split_once (CHR '' '') text of
              Some (digits, suffix) \<Rightarrow> map_option (\<lambda>scale. (digits, scale)) (suffix_scale suffix)
            | None \<Rightarrow> Some (text, 1)) of
        None \<Rightarrow> None
      | Some (digits, scale) \<Rightarrow>
          (case parse_u64 digits of
             Some exact \<Rightarrow> Some (saturating_mul exact scale)
           | None \<Rightarrow> map_option (\<lambda>value. scaled_count value scale) (parse_non_negative digits)))"

section \<open>The widest scan of a plan\<close>

definition METRIC :: string where "METRIC = ''rows_scanned=''"

definition alphanumeric :: "char \<Rightarrow> bool" where
  "alphanumeric c \<longleftrightarrow> (let n = of_char c :: nat in 48 \<le> n \<and> n \<le> 57 \<or> 65 \<le> n \<and> n \<le> 90 \<or> 97 \<le> n \<and> n \<le> 122)"

definition metric_char :: "char \<Rightarrow> bool" where
  "metric_char c \<longleftrightarrow> c = CHR ''.'' \<or> c = CHR '' '' \<or> alphanumeric c"

text \<open>\<open>trim\<close> of a text whose only white space is the blank.\<close>

definition trim :: "string \<Rightarrow> string" where
  "trim s = rev (dropWhile ((=) (CHR '' '')) (rev (dropWhile ((=) (CHR '' '')) s)))"

text \<open>The text after each occurrence of the metric's name, the occurrences not overlapping.\<close>

function metric_values :: "string \<Rightarrow> string list" where
  "metric_values plan =
     (if plan = [] then []
      else if take (length METRIC) plan = METRIC
      then trim (takeWhile metric_char (drop (length METRIC) plan)) # metric_values (drop (length METRIC) plan)
      else metric_values (tl plan))"
  by pat_completeness auto
termination
  by (relation "measure length") (auto simp: METRIC_def)

declare metric_values.simps [simp del]

definition widest_scan :: "string \<Rightarrow> rows_examined" where
  "widest_scan plan = RowsExamined (foldr max (List.map_filter parse_human_count (metric_values plan)) 0)"

end
