(* ===== verification/Fusion.thy ===== *)
theory Fusion
  imports Measurement "HOL-Library.Multiset" "HOL-Library.Product_Lexorder"
begin

text \<open>
  \<open>fusion.rs\<close>: Reciprocal Rank Fusion of a semantic and a lexical ranking. Scores are \<open>f32\<close>: the
  contributions lie between \<open>2 ^ -65\<close> and one, far from the ends of the type's exponent.
\<close>

section \<open>Definitions\<close>

definition DEFAULT_K :: nat where "DEFAULT_K = 60"
definition SMALL_CORPUS_K :: nat where "SMALL_CORPUS_K = 15"
definition SMALL_CORPUS_THRESHOLD :: nat where "SMALL_CORPUS_THRESHOLD = 100"

record fused_hit =
  hit_row :: row_id
  hit_score :: rat
  hit_vector_rank :: "nat option"
  hit_lexical_rank :: "nat option"

record fused =
  fused_hits :: "fused_hit list"
  fused_effective_k :: nat

definition effective_k_for :: "nat \<Rightarrow> nat" where
  "effective_k_for documents = (if documents < SMALL_CORPUS_THRESHOLD then SMALL_CORPUS_K else DEFAULT_K)"

definition contribution :: "nat \<Rightarrow> nat \<Rightarrow> rat" where
  "contribution k rank = f32_div 1 (f32_add (f32_of_nat k) (f32_of_nat rank))"

text \<open>The \<open>match\<close> on \<open>hits.iter_mut().find(..)\<close>: the first hit of the row is updated, or one is pushed.\<close>

fun add_hit :: "bool \<Rightarrow> row_id \<Rightarrow> nat \<Rightarrow> rat \<Rightarrow> fused_hit list \<Rightarrow> fused_hit list" where
  "add_hit lexical_side row rank c [] =
     [\<lparr>hit_row = row, hit_score = c, hit_vector_rank = (if lexical_side then None else Some rank),
       hit_lexical_rank = (if lexical_side then Some rank else None)\<rparr>]"
| "add_hit lexical_side row rank c (h # hs) =
     (if hit_row h = row
      then (let h1 = h\<lparr>hit_score := f32_add (hit_score h) c\<rparr>
            in (if lexical_side then h1\<lparr>hit_lexical_rank := Some rank\<rparr> else h1\<lparr>hit_vector_rank := Some rank\<rparr>) # hs)
      else h # add_hit lexical_side row rank c hs)"

text \<open>The closure \<open>contribute\<close>: ranks count from one.\<close>

fun contribute :: "nat \<Rightarrow> bool \<Rightarrow> nat \<Rightarrow> row_id list \<Rightarrow> fused_hit list \<Rightarrow> fused_hit list" where
  "contribute k lexical_side position [] hits = hits"
| "contribute k lexical_side position (row # rest) hits =
     contribute k lexical_side (Suc position) rest
       (add_hit lexical_side row (position + 1) (contribution k (position + 1)) hits)"

text \<open>Descending by score, then ascending by row; the sort is stable, and no score is a NaN.\<close>

definition hit_key :: "fused_hit \<Rightarrow> rat \<times> u64" where
  "hit_key h = (- hit_score h, row_get (hit_row h))"

definition fuse :: "row_id list \<Rightarrow> row_id list \<Rightarrow> nat \<Rightarrow> nat \<Rightarrow> fused" where
  "fuse vector lexical documents limit =
     (let effective_k = effective_k_for documents;
          hits = contribute effective_k True 0 lexical (contribute effective_k False 0 vector [])
      in \<lparr>fused_hits = take limit (sort_key hit_key hits), fused_effective_k = effective_k\<rparr>)"

section \<open>The hits\<close>

lemma add_hit_rows: "map hit_row (add_hit l row rank c hs) =
    (if row \<in> set (map hit_row hs) then map hit_row hs else map hit_row hs @ [row])"
  by (induction hs) (auto simp: Let_def)

lemma add_hit_distinct: "distinct (map hit_row hs) \<Longrightarrow> distinct (map hit_row (add_hit l row rank c hs))"
  by (simp add: add_hit_rows)

lemma contribute_rows:
  "distinct (map hit_row hs) \<Longrightarrow>
     distinct (map hit_row (contribute k l n rows hs)) \<and>
     hit_row ` set (contribute k l n rows hs) = hit_row ` set hs \<union> set rows"
proof (induction rows arbitrary: n hs)
  case (Cons row rows)
  let ?hs = "add_hit l row (n + 1) (contribution k (n + 1)) hs"
  have "hit_row ` set ?hs = set (map hit_row ?hs)" by simp
  also have "\<dots> = hit_row ` set hs \<union> {row}" by (auto simp: add_hit_rows)
  finally show ?case using Cons.IH [OF add_hit_distinct [OF Cons.prems]] by auto
qed simp

text \<open>The hit of a row, looked up by row.\<close>

definition hit_of :: "fused_hit list \<Rightarrow> row_id \<Rightarrow> fused_hit option" where
  "hit_of hs row = find (\<lambda>h. hit_row h = row) hs"

lemma hit_of_simps [simp]:
  "hit_of [] row = None" "hit_of (h # hs) row = (if hit_row h = row then Some h else hit_of hs row)"
  by (simp_all add: hit_of_def)

lemma hit_of_row: "hit_of hs row = Some h \<Longrightarrow> hit_row h = row \<and> h \<in> set hs"
  by (induction hs) (auto split: if_splits)

lemma hit_of_member: "distinct (map hit_row hs) \<Longrightarrow> h \<in> set hs \<Longrightarrow> hit_of hs (hit_row h) = Some h"
  by (induction hs) auto

lemma hit_of_None: "hit_of hs row = None \<longleftrightarrow> row \<notin> hit_row ` set hs"
  by (induction hs) auto

definition with_rank :: "bool \<Rightarrow> nat \<Rightarrow> rat \<Rightarrow> fused_hit \<Rightarrow> fused_hit" where
  "with_rank l rank c h =
     (let h1 = h\<lparr>hit_score := f32_add (hit_score h) c\<rparr>
      in if l then h1\<lparr>hit_lexical_rank := Some rank\<rparr> else h1\<lparr>hit_vector_rank := Some rank\<rparr>)"

definition new_hit :: "bool \<Rightarrow> row_id \<Rightarrow> nat \<Rightarrow> rat \<Rightarrow> fused_hit" where
  "new_hit l row rank c = \<lparr>hit_row = row, hit_score = c, hit_vector_rank = (if l then None else Some rank),
     hit_lexical_rank = (if l then Some rank else None)\<rparr>"

lemma hit_of_add:
  "hit_of (add_hit l row rank c hs) row' =
     (if row' = row then Some (case hit_of hs row of None \<Rightarrow> new_hit l row rank c | Some h \<Rightarrow> with_rank l rank c h)
      else hit_of hs row')"
  by (induction hs) (auto simp: new_hit_def with_rank_def Let_def)

text \<open>The position of a row in a list without repetitions.\<close>

fun rank_in :: "row_id list \<Rightarrow> row_id \<Rightarrow> nat option" where
  "rank_in [] row = None"
| "rank_in (r # rs) row = (if r = row then Some 1 else map_option Suc (rank_in rs row))"

lemma rank_in_None: "rank_in rows row = None \<longleftrightarrow> row \<notin> set rows"
  by (induction rows) auto

lemma hit_of_contribute:
  "distinct rows \<Longrightarrow>
     hit_of (contribute k l n rows hs) row =
       (case rank_in rows row of
          None \<Rightarrow> hit_of hs row
        | Some i \<Rightarrow> Some (case hit_of hs row of
                            None \<Rightarrow> new_hit l row (n + i) (contribution k (n + i))
                          | Some h \<Rightarrow> with_rank l (n + i) (contribution k (n + i)) h))"
proof (induction rows arbitrary: n hs)
  case (Cons r rows)
  show ?case
  proof (cases "r = row")
    case True
    then have "rank_in rows row = None" using Cons.prems by (simp add: rank_in_None)
    with True Cons show ?thesis by (simp add: hit_of_add split: option.split)
  next
    case False
    with Cons show ?thesis by (cases "rank_in rows row") (simp_all add: hit_of_add split: option.split)
  qed
qed simp

section \<open>Scores\<close>

lemma contribution_pos: "0 < k + rank \<Longrightarrow> 0 < contribution k rank"
proof -
  assume "0 < k + rank"
  have nn: "0 \<le> f32_of_nat n" for n
    using f32_round_mono [of 0 "of_nat n"] by (simp add: f32_of_nat_def f32_round_def float_round_def)
  have "0 < f32_of_nat k + f32_of_nat rank"
  proof (cases "k = 0")
    case True
    then have "0 < f32_of_nat rank" using \<open>0 < k + rank\<close> f32_round_pos by (simp add: f32_of_nat_def)
    then show ?thesis using nn [of k] by linarith
  next
    case False
    then have "0 < f32_of_nat k" using f32_round_pos by (simp add: f32_of_nat_def)
    then show ?thesis using nn [of rank] by linarith
  qed
  then have "0 < f32_add (f32_of_nat k) (f32_of_nat rank)" unfolding f32_add_def by (rule f32_round_pos)
  then show ?thesis unfolding contribution_def f32_div_def by (intro f32_round_pos) simp
qed

lemma contribution_antimono:
  assumes "0 < k" and "i \<le> j"
  shows "contribution k j \<le> contribution k i"
proof -
  let ?d = "\<lambda>n. f32_add (f32_of_nat k) (f32_of_nat n)"
  have "f32_of_nat i \<le> f32_of_nat j" unfolding f32_of_nat_def by (rule f32_round_mono) (simp add: assms)
  then have d: "?d i \<le> ?d j" unfolding f32_add_def by (intro f32_round_mono) simp
  have "0 < f32_of_nat k" using assms(1) f32_round_pos by (simp add: f32_of_nat_def)
  moreover have "0 \<le> f32_of_nat i"
    using f32_round_mono [of 0 "of_nat i"] by (simp add: f32_of_nat_def f32_round_def float_round_def)
  ultimately have "0 < ?d i" unfolding f32_add_def by (intro f32_round_pos) simp
  then have "1 / ?d j \<le> 1 / ?d i" using d by (intro divide_left_mono) auto
  then show ?thesis unfolding contribution_def f32_div_def by (rule f32_round_mono)
qed

lemma effective_k_pos: "0 < effective_k_for n"
  by (simp add: effective_k_for_def SMALL_CORPUS_K_def DEFAULT_K_def)

text \<open>The score the formula gives a row: the contribution of each list that ranks it.\<close>

definition rrf_score :: "nat \<Rightarrow> nat option \<Rightarrow> nat option \<Rightarrow> rat" where
  "rrf_score k v l =
     (case (v, l) of
        (Some i, Some j) \<Rightarrow> f32_add (contribution k i) (contribution k j)
      | (Some i, None) \<Rightarrow> contribution k i
      | (None, Some j) \<Rightarrow> contribution k j
      | (None, None) \<Rightarrow> 0)"

definition all_hits :: "row_id list \<Rightarrow> row_id list \<Rightarrow> nat \<Rightarrow> fused_hit list" where
  "all_hits vector lexical documents =
     (let k = effective_k_for documents in contribute k True 0 lexical (contribute k False 0 vector []))"

lemma fuse_hits: "fused_hits (fuse vector lexical documents limit) = take limit (sort_key hit_key (all_hits vector lexical documents))"
  by (simp add: fuse_def all_hits_def Let_def)

lemma all_hits_rows:
  "distinct (map hit_row (all_hits vector lexical documents))"
  "hit_row ` set (all_hits vector lexical documents) = set vector \<union> set lexical"
  using contribute_rows [of "[]" "effective_k_for documents" False 0 vector]
    contribute_rows [of "contribute (effective_k_for documents) False 0 vector []" "effective_k_for documents" True 0 lexical]
  by (simp_all add: all_hits_def Let_def)

lemma all_hits_fields:
  assumes "distinct vector" and "distinct lexical" and h: "h \<in> set (all_hits vector lexical documents)"
  shows "h = \<lparr>hit_row = hit_row h,
      hit_score = rrf_score (effective_k_for documents) (rank_in vector (hit_row h)) (rank_in lexical (hit_row h)),
      hit_vector_rank = rank_in vector (hit_row h), hit_lexical_rank = rank_in lexical (hit_row h)\<rparr>"
proof -
  have "hit_of (all_hits vector lexical documents) (hit_row h) = Some h"
    by (rule hit_of_member [OF all_hits_rows(1) h])
  then show ?thesis
    unfolding all_hits_def Let_def
    by (cases "rank_in vector (hit_row h)"; cases "rank_in lexical (hit_row h)")
      (simp_all add: hit_of_contribute assms rrf_score_def new_hit_def with_rank_def Let_def)
qed

lemma all_hits_field:
  assumes "distinct vector" and "distinct lexical" and h: "h \<in> set (all_hits vector lexical documents)"
  shows "hit_vector_rank h = rank_in vector (hit_row h)" and "hit_lexical_rank h = rank_in lexical (hit_row h)"
    and "hit_score h = rrf_score (effective_k_for documents) (rank_in vector (hit_row h)) (rank_in lexical (hit_row h))"
  by (subst all_hits_fields [OF assms]; simp)+

lemma fuse_hits_all: "set (fused_hits (fuse vector lexical documents limit)) \<subseteq> set (all_hits vector lexical documents)"
  using set_take_subset [of limit "sort_key hit_key (all_hits vector lexical documents)"] by (simp add: fuse_hits)

section \<open>Properties\<close>


definition demo_rows :: "nat list \<Rightarrow> row_id list" where
  "demo_rows = map (\<lambda>n. RowId (word_of_nat n))"


text \<open>A rank at least as good as another; a source that does not rank the row is the worst case.\<close>

fun rank_le :: "nat option \<Rightarrow> nat option \<Rightarrow> bool" where
  "rank_le (Some i) (Some j) \<longleftrightarrow> i \<le> j"
| "rank_le _ None \<longleftrightarrow> True"
| "rank_le None (Some j) \<longleftrightarrow> False"

lemma contribution_round [simp]: "f32_round (contribution k i) = contribution k i"
  by (simp add: contribution_def f32_div_def)

lemma rrf_score_mono:
  assumes k: "0 < k" and v: "rank_le v v'" and l: "rank_le l l'"
  shows "rrf_score k v' l' \<le> rrf_score k v l"
proof -
  let ?c = "\<lambda>r. case r of None \<Rightarrow> 0 | Some i \<Rightarrow> contribution k i"
  have sum: "rrf_score k v l = f32_round (?c v + ?c l)" for v l
    by (auto simp: rrf_score_def f32_add_def split: option.split)
  have c: "?c r' \<le> ?c r" if "rank_le r r'" for r r'
    using that contribution_antimono [OF k] less_imp_le [OF contribution_pos] k by (cases r; cases r') auto
  show ?thesis unfolding sum by (intro f32_round_mono add_mono c v l)
qed

text \<open>Agreement of the sources is kept. A row that both sources rank at least as well as another row
  (a source that does not return a row ranks it worst) never gets a lower fused score than it, in the
  rounded arithmetic the scores are computed in.\<close>

theorem fuse_respects_agreement:
  assumes "distinct vector" and "distinct lexical"
    and a: "a \<in> set (fused_hits (fuse vector lexical documents limit))"
    and b: "b \<in> set (fused_hits (fuse vector lexical documents limit))"
    and v: "rank_le (rank_in vector (hit_row a)) (rank_in vector (hit_row b))"
    and l: "rank_le (rank_in lexical (hit_row a)) (rank_in lexical (hit_row b))"
  shows "hit_score b \<le> hit_score a"
proof -
  have "hit_score h = rrf_score (effective_k_for documents) (rank_in vector (hit_row h)) (rank_in lexical (hit_row h))"
    if "h \<in> set (fused_hits (fuse vector lexical documents limit))" for h
    using all_hits_field(3) [OF assms(1,2)] fuse_hits_all that by blast
  then show ?thesis using rrf_score_mono [OF effective_k_pos v l] a b by simp
qed

theorem fuse_respects_agreement_witness:
  "\<exists>a b. a \<in> set (fused_hits (fuse [RowId 1, RowId 2] [RowId 1, RowId 2] 50 2)) \<and>
     b \<in> set (fused_hits (fuse [RowId 1, RowId 2] [RowId 1, RowId 2] 50 2)) \<and>
     hit_row a = RowId 1 \<and> hit_row b = RowId 2 \<and> hit_score b \<le> hit_score a"
proof -
  let ?rows = "[RowId 1, RowId 2]"
  let ?hits = "fused_hits (fuse ?rows ?rows 50 2)"
  have d: "distinct ?rows" by simp
  have "length (map hit_row (all_hits ?rows ?rows 50)) = card (set ?rows \<union> set ?rows)"
    using distinct_card [OF all_hits_rows(1), of ?rows ?rows 50] all_hits_rows(2) [of ?rows ?rows 50] by simp
  then have "set ?hits = set (all_hits ?rows ?rows 50)" by (simp add: fuse_hits)
  then have "hit_row ` set ?hits = {RowId 1, RowId 2}" using all_hits_rows(2) [of ?rows ?rows 50] by simp
  then have "RowId 1 \<in> hit_row ` set ?hits" "RowId 2 \<in> hit_row ` set ?hits" by (simp_all only: insert_iff simp_thms)
  then obtain a b where ab: "a \<in> set ?hits" "b \<in> set ?hits" "hit_row a = RowId 1" "hit_row b = RowId 2"
    unfolding image_iff by (metis (no_types))
  then have "hit_score b \<le> hit_score a" using fuse_respects_agreement [OF d d ab(1,2)] by simp
  then show ?thesis using ab by blast
qed

text \<open>A row that a source returns more than once is counted more than once. With a semantic list that
  holds a row twice, as a list of chunks does, the row's score adds both places and its reported rank is
  the later, worse one, where the documented formula has one rank per source and row.\<close>

theorem repeated_row_counts_twice:
  assumes "a \<noteq> b" and "2 \<le> limit"
  shows "\<exists>h \<in> set (fused_hits (fuse [a, b, a] [] documents limit)).
     hit_row h = a \<and> hit_vector_rank h = Some 3 \<and>
     hit_score h = f32_add (contribution (effective_k_for documents) 1) (contribution (effective_k_for documents) 3)"
proof -
  let ?k = "effective_k_for documents"
  let ?a = "\<lparr>hit_row = a, hit_score = f32_add (contribution ?k 1) (contribution ?k 3), hit_vector_rank = Some 3, hit_lexical_rank = None\<rparr>"
  let ?b = "\<lparr>hit_row = b, hit_score = contribution ?k 2, hit_vector_rank = Some 2, hit_lexical_rank = None\<rparr>"
  define all where "all = all_hits [a, b, a] [] documents"
  have "all = [?a, ?b]"
    using assms(1) by (simp add: all_def all_hits_def Let_def numeral_2_eq_2 numeral_3_eq_3)
  then have "set all = {?a, ?b}" "length all = 2" by simp_all
  then have "set (fused_hits (fuse [a, b, a] [] documents limit)) = {?a, ?b}"
    using assms(2) by (simp add: fuse_hits flip: all_def)
  then show ?thesis by auto
qed

theorem repeated_row_counts_twice_witness:
  "\<exists>h \<in> set (fused_hits (fuse (demo_rows [7, 8, 7]) [] 1000 10)). hit_row h = RowId 7 \<and> hit_vector_rank h = Some 3"
  using repeated_row_counts_twice [of "RowId 7" "RowId 8" 10 1000] by (auto simp: demo_rows_def)

end
