(* ===== verification/Table_Schema.thy ===== *)
theory Table_Schema
  imports Text
begin

text \<open>
  \<open>schema.rs\<close>, \<open>compression.rs\<close> and \<open>definition.rs\<close>: the declared shape of a table, the check of
  a batch against it, and the encoding settings carried in field metadata. A field has the parts of an Arrow field
  the code reads; the Arrow data types are a type variable, of which only equality is used.
\<close>

section \<open>Fields and schemas\<close>

record 'd field =
  f_name :: string
  f_type :: 'd
  f_nullable :: bool
  f_metadata :: "string \<Rightarrow> string option"

record 'd schema =
  s_fields :: "'d field list"
  s_metadata :: "string \<Rightarrow> string option"

text \<open>\<open>Schema::column_with_name\<close>: the first field of that name.\<close>

definition column_with_name :: "'d schema \<Rightarrow> string \<Rightarrow> 'd field option" where
  "column_with_name s name = find (\<lambda>f. f_name f = name) (s_fields s)"

datatype 'd schema_mismatch =
    MissingColumn string
  | UndeclaredColumn string
  | TypeMismatch string 'd 'd
  | NullabilityMismatch string bool

section \<open>Validation\<close>

fun check_declared :: "'d schema \<Rightarrow> 'd field list \<Rightarrow> 'd schema_mismatch + unit" where
  "check_declared present [] = Inr ()"
| "check_declared present (declared # rest) =
     (case column_with_name present (f_name declared) of
        None \<Rightarrow> Inl (MissingColumn (f_name declared))
      | Some found \<Rightarrow>
          if f_type found \<noteq> f_type declared
          then Inl (TypeMismatch (f_name declared) (f_type declared) (f_type found))
          else if f_nullable found \<and> \<not> f_nullable declared
          then Inl (NullabilityMismatch (f_name declared) False)
          else check_declared present rest)"

fun check_undeclared :: "'d schema \<Rightarrow> 'd field list \<Rightarrow> 'd schema_mismatch + unit" where
  "check_undeclared declared [] = Inr ()"
| "check_undeclared declared (f # rest) =
     (if column_with_name declared (f_name f) = None then Inl (UndeclaredColumn (f_name f))
      else check_undeclared declared rest)"

definition validate :: "'d schema \<Rightarrow> 'd schema \<Rightarrow> 'd schema_mismatch + unit" where
  "validate declared present =
     rbind (check_declared present (s_fields declared)) (\<lambda>_. check_undeclared declared (s_fields present))"

section \<open>Auto-embedding columns\<close>

definition AUTO_EMBEDDING_KEY :: string where "AUTO_EMBEDDING_KEY = ''euledb:auto-embedding''"

definition mark_auto_embedding :: "string \<Rightarrow> 'd field \<Rightarrow> 'd field" where
  "mark_auto_embedding column f =
     (if f_name f \<noteq> column then f
      else f\<lparr>f_metadata := (f_metadata f)(AUTO_EMBEDDING_KEY \<mapsto> ''true'')\<rparr>)"

definition auto_embedding :: "string \<Rightarrow> 'd schema \<Rightarrow> 'd schema" where
  "auto_embedding column s = s\<lparr>s_fields := map (mark_auto_embedding column) (s_fields s)\<rparr>"

definition auto_embedding_columns :: "'d schema \<Rightarrow> string list" where
  "auto_embedding_columns s =
     map f_name (filter (\<lambda>f. f_metadata f AUTO_EMBEDDING_KEY \<noteq> None) (s_fields s))"

section \<open>Compression\<close>

definition COMPRESSION_KEY :: string where "COMPRESSION_KEY = ''lance-encoding:compression''"
definition LEVEL_KEY :: string where "LEVEL_KEY = ''lance-encoding:compression-level''"

text \<open>A level is a \<open>u8\<close> between the two bounds; the error carries the value given.\<close>

definition ZSTD_FASTEST :: byte where "ZSTD_FASTEST = 1"
definition ZSTD_SMALLEST :: byte where "ZSTD_SMALLEST = 22"
definition ZSTD_DEFAULT :: byte where "ZSTD_DEFAULT = ZSTD_FASTEST"

definition zstd_level_new :: "byte \<Rightarrow> byte + byte" where
  "zstd_level_new level = (if ZSTD_FASTEST \<le> level \<and> level \<le> ZSTD_SMALLEST then Inr level else Inl level)"

datatype compression = Zstd byte | Uncompressed

definition compression_default :: compression where "compression_default = Zstd ZSTD_DEFAULT"

fun compression_metadata :: "compression \<Rightarrow> string \<Rightarrow> string option" where
  "compression_metadata (Zstd level) = [COMPRESSION_KEY \<mapsto> ''zstd'', LEVEL_KEY \<mapsto> show_nat (unat level)]"
| "compression_metadata Uncompressed = [COMPRESSION_KEY \<mapsto> ''none'']"

definition applied_to :: "compression \<Rightarrow> 'd schema \<Rightarrow> 'd schema" where
  "applied_to c s =
     s\<lparr>s_fields := map (\<lambda>f. f\<lparr>f_metadata := f_metadata f ++ compression_metadata c\<rparr>) (s_fields s)\<rparr>"

definition stripped_from :: "'d schema \<Rightarrow> 'd schema" where
  "stripped_from s =
     s\<lparr>s_fields := map (\<lambda>f. f\<lparr>f_metadata := (f_metadata f)(COMPRESSION_KEY := None, LEVEL_KEY := None)\<rparr>) (s_fields s)\<rparr>"

section \<open>Table definitions\<close>

record 'd table_definition =
  td_schema :: "'d schema"
  td_compression :: compression

definition table_definition_new :: "'d schema \<Rightarrow> 'd table_definition" where
  "table_definition_new s = \<lparr>td_schema = s, td_compression = compression_default\<rparr>"

definition with_compression :: "compression \<Rightarrow> 'd table_definition \<Rightarrow> 'd table_definition" where
  "with_compression c t = t\<lparr>td_compression := c\<rparr>"

section \<open>What validation accepts\<close>

text \<open>The contract: same columns, same types, a null allowed only where the declaration allows it.\<close>

definition fits :: "'d field \<Rightarrow> 'd field \<Rightarrow> bool" where
  "fits found declared \<longleftrightarrow> f_type found = f_type declared \<and> (f_nullable found \<longrightarrow> f_nullable declared)"

definition conforms :: "'d schema \<Rightarrow> 'd schema \<Rightarrow> bool" where
  "conforms declared present \<longleftrightarrow>
     (\<forall>d \<in> set (s_fields declared). \<exists>f. column_with_name present (f_name d) = Some f \<and> fits f d) \<and>
     f_name ` set (s_fields present) \<subseteq> f_name ` set (s_fields declared)"

lemma column_with_name_None: "column_with_name s name = None \<longleftrightarrow> name \<notin> f_name ` set (s_fields s)"
  by (auto simp: column_with_name_def find_None_iff image_iff)

lemma column_with_name_Some: "column_with_name s name = Some f \<Longrightarrow> f \<in> set (s_fields s) \<and> f_name f = name"
  by (auto simp: column_with_name_def find_Some_iff)

lemma check_declared_iff:
  "check_declared present ds = Inr () \<longleftrightarrow>
     (\<forall>d \<in> set ds. \<exists>f. column_with_name present (f_name d) = Some f \<and> fits f d)"
  by (induction ds) (auto simp: fits_def split: option.split)

lemma check_undeclared_iff:
  "check_undeclared declared fs = Inr () \<longleftrightarrow> f_name ` set fs \<subseteq> f_name ` set (s_fields declared)"
  by (induction fs) (auto simp: column_with_name_None)

lemma validate_iff: "validate declared present = Inr () \<longleftrightarrow> conforms declared present"
  by (auto simp: validate_def conforms_def rbind_Inr_iff check_declared_iff check_undeclared_iff)

lemma check_declared_error:
  "check_declared present ds = Inl e \<Longrightarrow>
     \<exists>d \<in> set ds. (e = MissingColumn (f_name d) \<and> column_with_name present (f_name d) = None) \<or>
       (\<exists>f. column_with_name present (f_name d) = Some f \<and>
          (e = TypeMismatch (f_name d) (f_type d) (f_type f) \<and> f_type f \<noteq> f_type d \<or>
           e = NullabilityMismatch (f_name d) False \<and> f_type f = f_type d \<and> f_nullable f \<and> \<not> f_nullable d))"
proof (induction ds)
  case (Cons d ds)
  show ?case
  proof (cases "check_declared present ds = Inl e")
    case True
    with Cons show ?thesis by auto
  next
    case False
    with Cons.prems show ?thesis by (auto split: option.splits if_splits)
  qed
qed simp

lemma check_undeclared_error:
  "check_undeclared declared fs = Inl e \<Longrightarrow>
     \<exists>f \<in> set fs. e = UndeclaredColumn (f_name f) \<and> f_name f \<notin> f_name ` set (s_fields declared)"
  by (induction fs) (auto simp: column_with_name_None split: if_splits)

lemma mark_auto_embedding_simps [simp]:
  "f_name (mark_auto_embedding column f) = f_name f" "f_type (mark_auto_embedding column f) = f_type f"
  "f_nullable (mark_auto_embedding column f) = f_nullable f"
  "f_metadata (mark_auto_embedding column f) AUTO_EMBEDDING_KEY = None
     \<longleftrightarrow> f_name f \<noteq> column \<and> f_metadata f AUTO_EMBEDDING_KEY = None"
  by (simp_all add: mark_auto_embedding_def)

section \<open>Properties\<close>

text \<open>C38: what the check of a batch against a declaration accepts and what it says when it does not. A batch is accepted exactly when
  it has the declared columns and no others, each with the declared type and forbidding null wherever the
  declaration does; a refusal names a column that has the fault it reports.\<close>

theorem validate_gate:
  "case validate declared present of
     Inr _ \<Rightarrow> conforms declared present
   | Inl (MissingColumn c) \<Rightarrow> c \<in> f_name ` set (s_fields declared) \<and> c \<notin> f_name ` set (s_fields present)
   | Inl (UndeclaredColumn c) \<Rightarrow> c \<in> f_name ` set (s_fields present) \<and> c \<notin> f_name ` set (s_fields declared)
   | Inl (TypeMismatch c d p) \<Rightarrow> d \<noteq> p \<and> (\<exists>f \<in> set (s_fields declared). f_name f = c \<and> f_type f = d) \<and>
       (\<exists>f \<in> set (s_fields present). f_name f = c \<and> f_type f = p)
   | Inl (NullabilityMismatch c n) \<Rightarrow> \<not> n \<and> (\<exists>f \<in> set (s_fields declared). f_name f = c \<and> \<not> f_nullable f) \<and>
       (\<exists>f \<in> set (s_fields present). f_name f = c \<and> f_nullable f)"
proof (cases "validate declared present")
  case (Inr u)
  then show ?thesis using validate_iff [of declared present] by simp
next
  case (Inl e)
  then consider "check_declared present (s_fields declared) = Inl e" | "check_undeclared declared (s_fields present) = Inl e"
    by (auto simp: validate_def elim: rbind_InlE)
  then show ?thesis
  proof cases
    case 1
    from check_declared_error [OF 1] obtain d where "d \<in> set (s_fields declared)"
      "(e = MissingColumn (f_name d) \<and> column_with_name present (f_name d) = None) \<or>
       (\<exists>f. column_with_name present (f_name d) = Some f \<and>
          (e = TypeMismatch (f_name d) (f_type d) (f_type f) \<and> f_type f \<noteq> f_type d \<or>
           e = NullabilityMismatch (f_name d) False \<and> f_type f = f_type d \<and> f_nullable f \<and> \<not> f_nullable d))" by blast
    then show ?thesis using Inl
      by (auto simp: column_with_name_None dest!: column_with_name_Some)
  next
    case 2
    from check_undeclared_error [OF 2] show ?thesis using Inl by auto
  qed
qed

text \<open>The order of a batch's columns does not matter, and declaring a column as auto-embedding changes
  neither what is accepted nor anything but that column's marker.\<close>

theorem validate_ignores_order:
  assumes "distinct (map f_name (s_fields present))" and "set (s_fields present') = set (s_fields present)"
    and "distinct (map f_name (s_fields present'))"
  shows "(validate declared present' = Inr ()) = (validate declared present = Inr ()) \<and>
    (validate (auto_embedding column declared) present = Inr ()) = (validate declared present = Inr ()) \<and>
    set (auto_embedding_columns (auto_embedding column declared))
      = set (auto_embedding_columns declared) \<union> ({column} \<inter> f_name ` set (s_fields declared))"
proof -
  have unique: "column_with_name s n = Some f \<longleftrightarrow> f \<in> set (s_fields s) \<and> f_name f = n"
    if d: "distinct (map f_name (s_fields s))" for s :: "'a schema" and n f
  proof
    assume f: "f \<in> set (s_fields s) \<and> f_name f = n"
    then obtain g where g: "column_with_name s n = Some g" using column_with_name_None [of s n] by auto
    then have "g = f" using column_with_name_Some [OF g] f d by (auto simp: distinct_map dest: inj_onD)
    then show "column_with_name s n = Some f" using g by simp
  qed (rule column_with_name_Some)
  have "conforms declared present' \<longleftrightarrow> conforms declared present"
    using assms(2) by (simp add: conforms_def unique [OF assms(1)] unique [OF assms(3)])
  moreover have "conforms (auto_embedding column declared) present \<longleftrightarrow> conforms declared present"
    by (simp add: conforms_def auto_embedding_def fits_def image_image)
  moreover have "set (auto_embedding_columns (auto_embedding column declared))
      = set (auto_embedding_columns declared) \<union> ({column} \<inter> f_name ` set (s_fields declared))"
  proof -
    have "auto_embedding_columns (auto_embedding column declared)
        = map f_name (filter (\<lambda>f. f_name f = column \<or> f_metadata f AUTO_EMBEDDING_KEY \<noteq> None) (s_fields declared))"
      by (simp add: auto_embedding_columns_def auto_embedding_def filter_map o_def del: not_None_eq)
    then show ?thesis by (auto simp: auto_embedding_columns_def simp del: not_None_eq)
  qed
  ultimately show ?thesis by (simp add: validate_iff)
qed

definition demo_schema :: "nat schema" where
  "demo_schema = \<lparr>s_fields = [\<lparr>f_name = ''id'', f_type = 0, f_nullable = False, f_metadata = Map.empty\<rparr>,
     \<lparr>f_name = ''body'', f_type = 1, f_nullable = True, f_metadata = Map.empty\<rparr>], s_metadata = Map.empty\<rparr>"

theorem validate_ignores_order_witness:
  "validate (auto_embedding ''body'' demo_schema) (demo_schema\<lparr>s_fields := rev (s_fields demo_schema)\<rparr>) = Inr () \<and>
   auto_embedding_columns (auto_embedding ''body'' demo_schema) = [''body'']"
proof -
  let ?present = "demo_schema\<lparr>s_fields := rev (s_fields demo_schema)\<rparr>"
  have "distinct (map f_name (s_fields ?present))" "validate demo_schema ?present = Inr ()"
    by (simp_all add: demo_schema_def validate_def column_with_name_def)
  then have "validate (auto_embedding ''body'' demo_schema) ?present = Inr ()"
    using validate_ignores_order [of ?present ?present demo_schema "''body''"] by (simp only: simp_thms)
  then show ?thesis by (simp add: auto_embedding_columns_def auto_embedding_def mark_auto_embedding_def demo_schema_def AUTO_EMBEDDING_KEY_def)
qed

text \<open>A caller gets their own schema back. Attaching the encoding settings for storage and taking them
  off again returns the declared schema, field by field and with its own metadata, whichever compression
  was chosen, as long as the caller did not use the format's two keys; the settings never change a name, a
  type or nullability, so they never change what is accepted.\<close>

theorem compression_is_invisible:
  assumes "\<forall>f \<in> set (s_fields s). f_metadata f COMPRESSION_KEY = None \<and> f_metadata f LEVEL_KEY = None"
  shows "stripped_from (applied_to c s) = s \<and>
    (validate (applied_to c s) present = Inr ()) = (validate s present = Inr ()) \<and>
    (\<forall>f \<in> set (s_fields (applied_to c s)). f_metadata f COMPRESSION_KEY = Some (case c of Zstd _ \<Rightarrow> ''zstd'' | Uncompressed \<Rightarrow> ''none'')) \<and>
    auto_embedding_columns (applied_to c s) = auto_embedding_columns s"
proof -
  have keys: "COMPRESSION_KEY \<noteq> LEVEL_KEY" "AUTO_EMBEDDING_KEY \<noteq> COMPRESSION_KEY" "AUTO_EMBEDDING_KEY \<noteq> LEVEL_KEY"
    by (simp_all add: COMPRESSION_KEY_def LEVEL_KEY_def AUTO_EMBEDDING_KEY_def)
  have "(f_metadata f ++ compression_metadata c)(COMPRESSION_KEY := None, LEVEL_KEY := None) = f_metadata f"
    if "f \<in> set (s_fields s)" for f
    using assms that by (cases c) (auto simp: fun_eq_iff map_add_def)
  then have "map (\<lambda>f. f\<lparr>f_metadata := (f_metadata f ++ compression_metadata c)(COMPRESSION_KEY := None, LEVEL_KEY := None)\<rparr>)
      (s_fields s) = s_fields s" by (intro map_idI) simp
  then have "stripped_from (applied_to c s) = s" by (simp add: stripped_from_def applied_to_def o_def)
  moreover have "conforms (applied_to c s) present \<longleftrightarrow> conforms s present"
    by (simp add: conforms_def applied_to_def fits_def image_image)
  moreover have "\<forall>f \<in> set (s_fields (applied_to c s)). f_metadata f COMPRESSION_KEY = Some (case c of Zstd _ \<Rightarrow> ''zstd'' | Uncompressed \<Rightarrow> ''none'')"
    using keys by (cases c) (auto simp: applied_to_def)
  moreover have "auto_embedding_columns (applied_to c s) = auto_embedding_columns s"
    using keys by (cases c) (simp_all add: auto_embedding_columns_def applied_to_def filter_map o_def map_add_def)
  ultimately show ?thesis by (simp add: validate_iff)
qed

theorem compression_is_invisible_witness:
  "stripped_from (applied_to (Zstd 3) demo_schema) = demo_schema"
  using compression_is_invisible [of demo_schema "Zstd 3" demo_schema] by (simp add: demo_schema_def)

end
