(* ===== verification/Store_Services.thy ===== *)
theory Store_Services
  imports Action Float32 Writer_Lock Capability Audit_Log Fusion Table_Schema
begin

text \<open>
  What the table store works with: Arrow batches as far as the code looks into them, the operations of
  the on-disk format and of the other packages it calls as one record of parameters, the errors and
  values of the storage crate, and the world its operations change.
\<close>

section \<open>Batches\<close>

text \<open>The Arrow data types the code names, and all others by their name.\<close>

datatype data_type =
    UInt64
  | UInt32
  | Int64
  | Float32
  | FixedSizeList string data_type bool nat
  | OtherType string

text \<open>
  A column by the array types the code builds or downcasts to. A list column holds one array per row; an
  array of any other type one value per row, of which nothing is known but which one it is.
\<close>

datatype column =
    U64Column "u64 list"
  | U32Column "u32 list"
  | I64Column "i64 list"
  | F32Column "f32 list"
  | TextColumn "string list"
  | ListColumn "column list"
  | OtherColumn "string list"

record batch =
  b_schema :: "data_type schema"
  b_columns :: "column list"
  b_rows :: nat

text \<open>
  What a batch holds, row by row. The code passes whole columns on and never builds this; the properties
  speak about rows, because how a scan cuts them into batches is the format's.
\<close>

datatype cell =
    U64Cell u64
  | U32Cell u32
  | I64Cell i64
  | F32Cell f32
  | TextCell string
  | ListCell column
  | OtherCell string

fun column_cells :: "column \<Rightarrow> cell list" where
  "column_cells (U64Column xs) = map U64Cell xs"
| "column_cells (U32Column xs) = map U32Cell xs"
| "column_cells (I64Column xs) = map I64Cell xs"
| "column_cells (F32Column xs) = map F32Cell xs"
| "column_cells (TextColumn xs) = map TextCell xs"
| "column_cells (ListColumn xs) = map ListCell xs"
| "column_cells (OtherColumn xs) = map OtherCell xs"

definition column_length :: "column \<Rightarrow> nat" where
  "column_length c = length (column_cells c)"

definition batch_rows :: "batch \<Rightarrow> cell list list" where
  "batch_rows b = map (\<lambda>i. map (\<lambda>c. column_cells c ! i) (b_columns b)) [0..<b_rows b]"

lemma batch_rows_schema [simp]: "batch_rows (b\<lparr>b_schema := s\<rparr>) = batch_rows b"
  by (simp add: batch_rows_def)

lemma length_batch_rows [simp]: "length (batch_rows b) = b_rows b"
  by (simp add: batch_rows_def)

text \<open>\<open>RecordBatch::column_by_name\<close>: the column at the place of the first field of that name.\<close>

fun column_at :: "string \<Rightarrow> data_type field list \<Rightarrow> column list \<Rightarrow> column option" where
  "column_at name (f # fs) (c # cs) = (if f_name f = name then Some c else column_at name fs cs)"
| "column_at name _ _ = None"

definition column_by_name :: "batch \<Rightarrow> string \<Rightarrow> column option" where
  "column_by_name b name = column_at name (s_fields (b_schema b)) (b_columns b)"

text \<open>
  The downcasts, each with the values of the batch's rows. Every column of a batch has as many values as
  the batch has rows.
\<close>

definition u64_column :: "batch \<Rightarrow> string \<Rightarrow> u64 list option" where
  "u64_column b name = (case column_by_name b name of Some (U64Column xs) \<Rightarrow> Some (take (b_rows b) xs) | _ \<Rightarrow> None)"

definition u32_column :: "batch \<Rightarrow> string \<Rightarrow> u32 list option" where
  "u32_column b name = (case column_by_name b name of Some (U32Column xs) \<Rightarrow> Some (take (b_rows b) xs) | _ \<Rightarrow> None)"

definition text_column :: "batch \<Rightarrow> string \<Rightarrow> string list option" where
  "text_column b name = (case column_by_name b name of Some (TextColumn xs) \<Rightarrow> Some (take (b_rows b) xs) | _ \<Rightarrow> None)"

definition list_column :: "batch \<Rightarrow> string \<Rightarrow> column list option" where
  "list_column b name = (case column_by_name b name of Some (ListColumn xs) \<Rightarrow> Some (take (b_rows b) xs) | _ \<Rightarrow> None)"

section \<open>Errors\<close>

datatype storage_error =
    AlreadyOpenForWriting os_path
  | ReadOnly string string
  | NoEmbedder
  | QueryNotEmbeddable string
  | WrongVectorWidth nat nat
  | NotPermitted scope string
  | NothingToCombine string string
  | NothingToSet string
  | Backend string string string

datatype db_error =
    SchemaError "data_type schema_mismatch"
  | StorageError storage_error
  | KeyringError keyring_error
  | AuditError audit_error
  | CompressionError byte

text \<open>\<open>map_err\<close> with \<open>StorageError::backend\<close>: what was attempted, on which table, and the cause's message.\<close>

definition backend :: "string \<Rightarrow> string \<Rightarrow> string \<Rightarrow> db_error" where
  "backend operation table cause = StorageError (Backend operation table cause)"

fun or_backend :: "string \<Rightarrow> string \<Rightarrow> string + 'a \<Rightarrow> db_error + 'a" where
  "or_backend operation table (Inl cause) = Inl (backend operation table cause)"
| "or_backend operation table (Inr x) = Inr x"

section \<open>Values of the storage crate\<close>

definition VECTOR_WIDTH :: nat where "VECTOR_WIDTH = 384"

record embedder =
  em_passage :: "string \<Rightarrow> string + f32 list list"
  em_query :: "string \<Rightarrow> string + f32 list"

record row_vector =
  rv_row :: row_id
  rv_chunk :: u32
  rv_embedding :: "f32 list"

datatype vector_index_kind = Graph | Quantised

datatype stemming_language =
    NoStemming | German | English | French | Spanish | Italian | Dutch | Portuguese

fun as_parts :: "stemming_language \<Rightarrow> string \<times> bool" where
  "as_parts NoStemming = (''English'', False)"
| "as_parts German = (''German'', True)"
| "as_parts English = (''English'', True)"
| "as_parts French = (''French'', True)"
| "as_parts Spanish = (''Spanish'', True)"
| "as_parts Italian = (''Italian'', True)"
| "as_parts Dutch = (''Dutch'', True)"
| "as_parts Portuguese = (''Portuguese'', True)"

datatype predicate = Predicate (predicate_str: string)

record assignment =
  as_column :: string
  as_value :: string

datatype updated = Updated (updated_rows: u64)
datatype deleted = Deleted (deleted_rows: u64)

section \<open>The packages below\<close>

datatype write_mode = Create | Append | Overwrite

datatype column_ordering = AscNullsLast string | DescNullsLast string

text \<open>The index parameters the code builds: the fields it sets, the rest at the package's defaults.\<close>

datatype index_params =
    BTreeIndex
  | InvertedIndex string bool bool bool
  | HnswSqIndex nat nat
  | PqIndex nat nat nat

text \<open>
  The on-disk format and Arrow. \<open>'w\<close> is what is on disk, \<open>'ds\<close> an open dataset, \<open>'sc\<close> a scan being configured,
  \<open>'ub\<close> an update being configured. Every operation that can fail returns the message of its cause.
\<close>

record ('w, 'ds, 'sc, 'ub) lance =
  l_load :: "string \<Rightarrow> block_frame option \<Rightarrow> 'w \<Rightarrow> string + 'ds"
  l_schema :: "'ds \<Rightarrow> data_type schema"
  l_row_id :: string
  l_scan :: "'ds \<Rightarrow> 'sc"
  l_filter :: "string \<Rightarrow> 'sc \<Rightarrow> string + 'sc"
  l_order_by :: "column_ordering \<Rightarrow> 'sc \<Rightarrow> string + 'sc"
  l_with_row_id :: "'sc \<Rightarrow> 'sc"
  l_project :: "string list \<Rightarrow> 'sc \<Rightarrow> string + 'sc"
  l_nearest :: "string \<Rightarrow> f32 list \<Rightarrow> nat \<Rightarrow> 'sc \<Rightarrow> string + 'sc"
  l_full_text :: "string \<Rightarrow> 'sc \<Rightarrow> string + 'sc"
  l_limit :: "nat \<Rightarrow> 'sc \<Rightarrow> string + 'sc"
  l_start :: "'sc \<Rightarrow> 'w \<Rightarrow> string + unit"
  l_read :: "'sc \<Rightarrow> 'w \<Rightarrow> string + batch list"
  l_analyze :: "'sc \<Rightarrow> 'w \<Rightarrow> string + string"
  l_explain :: "'sc \<Rightarrow> 'w \<Rightarrow> string + string"
  l_count :: "'ds \<Rightarrow> string option \<Rightarrow> 'w \<Rightarrow> string + nat"
  l_statistics :: "'ds \<Rightarrow> string \<Rightarrow> 'w \<Rightarrow> string + string"
  l_language :: "string \<Rightarrow> string + unit"
  l_create_index :: "'ds \<Rightarrow> string \<Rightarrow> index_params \<Rightarrow> 'w \<Rightarrow> (string + unit) \<times> 'w"
  l_write :: "data_type schema \<Rightarrow> batch list \<Rightarrow> string \<Rightarrow> write_mode \<Rightarrow> block_frame option \<Rightarrow> 'w \<Rightarrow> (string + unit) \<times> 'w"
  l_delete :: "'ds \<Rightarrow> string \<Rightarrow> 'w \<Rightarrow> (string + u64) \<times> 'w"
  l_update_where :: "'ds \<Rightarrow> string \<Rightarrow> string + 'ub"
  l_set :: "string \<Rightarrow> string \<Rightarrow> 'ub \<Rightarrow> string + 'ub"
  l_build :: "'ub \<Rightarrow> string + 'ub"
  l_execute :: "'ub \<Rightarrow> 'w \<Rightarrow> (string + u64) \<times> 'w"
  l_remove_dir :: "os_path \<Rightarrow> 'w \<Rightarrow> (string + unit) \<times> 'w"
  l_batch :: "data_type schema \<Rightarrow> column list \<Rightarrow> string + batch"
  l_fixed_list :: "nat \<Rightarrow> f32 list \<Rightarrow> string + column"

text \<open>
  Everything outside the crate in one record: the format, the bitmaps, the keyed hash and the digest, how
  the audit file's calls behave, the standard library's tables of the characters above ASCII whose debug
  form is an escape, and the two conversions behind the encrypted scheme's address.
\<close>

record ('w, 'ds, 'sc, 'ub, 't) services =
  sv_lance :: "('w, 'ds, 'sc, 'ub) lance"
  sv_bitmap :: "'t bitmap"
  sv_mac :: mac
  sv_digest :: "bytes \<Rightarrow> bytes"
  sv_audit_env :: audit_env
  sv_escaped :: "nat \<Rightarrow> bool"
  sv_absolute :: "os_path \<Rightarrow> os_path option"
  sv_file_url :: "os_path \<Rightarrow> string option"

section \<open>The world\<close>

text \<open>
  What operations change: the disk, the audit files and the warnings that went to the log of the process.
\<close>

datatype warning = DeletingRows string string u64

record 'w world =
  w_disk :: 'w
  w_audit :: "os_path \<Rightarrow> string option"
  w_trace :: "warning list"

text \<open>A call that changes the disk, its failure wrapped.\<close>

definition on_disk ::
  "string \<Rightarrow> string \<Rightarrow> ('w \<Rightarrow> (string + 'a) \<times> 'w) \<Rightarrow> ('w world, db_error, 'a) act" where
  "on_disk operation table call w =
     (let (r, d) = call (w_disk w) in (or_backend operation table r, w\<lparr>w_disk := d\<rparr>))"

definition from_disk ::
  "string \<Rightarrow> string \<Rightarrow> ('w \<Rightarrow> string + 'a) \<Rightarrow> ('w world, db_error, 'a) act" where
  "from_disk operation table call = act_read (\<lambda>w. or_backend operation table (call (w_disk w)))"

definition warn :: "warning \<Rightarrow> ('w world, db_error, unit) act" where
  "warn x w = (Inr (), w\<lparr>w_trace := w_trace w @ [x]\<rparr>)"

text \<open>\<open>u64::try_from(n).unwrap_or(u64::MAX)\<close> of a \<open>usize\<close>.\<close>

definition count_u64 :: "nat \<Rightarrow> u64" where
  "count_u64 n = (if n < 2 ^ 64 then word_of_nat n else - 1)"

end
