(* ===== verification/Lance_Store.thy ===== *)
theory Lance_Store
  imports Store_Services
begin

text \<open>
  \<open>store.rs\<close>: the store of tables over the on-disk format, its handle and every operation of it, in the
  order of the source. An operation runs in the world of \<open>Store_Services\<close>; the awaits of one operation run
  one after the other.
\<close>

section \<open>The handle\<close>

record store =
  st_root :: os_path
  st_write_lock :: "write_lock option"
  st_session :: "block_frame option"
  st_embedder :: "embedder option"
  st_audit :: "os_path option"
  st_gate :: "gate option"

definition LOG_FILE :: string where "LOG_FILE = ''.euledb-audit.log''"

definition store_new :: "os_path \<Rightarrow> store" where
  "store_new dir = \<lparr>st_root = dir, st_write_lock = None, st_session = None, st_embedder = None,
     st_audit = None, st_gate = None\<rparr>"

definition open_for_writing :: "'i lock_env \<Rightarrow> os_path \<Rightarrow> ('i os_locks, db_error, store) act" where
  "open_for_writing env dir os =
     (case lock_acquire env dir os of
        (Inl (Busy held), os') \<Rightarrow> (Inl (StorageError (AlreadyOpenForWriting held)), os')
      | (Inl (LockUnavailable held cause), os') \<Rightarrow> (Inl (backend ''take the write lock for'' dir
          (''the write lock for '' @ held @ '' could not be taken: '' @ cause)), os')
      | (Inr l, os') \<Rightarrow> (Inr ((store_new dir)\<lparr>st_write_lock := Some l\<rparr>), os'))"

text \<open>\<open>encrypted\<close>: the session carries the frame of the keyring at the default block size.\<close>

definition encrypted :: "keyring \<Rightarrow> store \<Rightarrow> store" where
  "encrypted k st = st\<lparr>st_session := Some (keyring_frame k BLOCK_DEFAULT)\<rparr>"

definition embedding :: "embedder \<Rightarrow> store \<Rightarrow> store" where
  "embedding e st = st\<lparr>st_embedder := Some e\<rparr>"

definition audited :: "store \<Rightarrow> store" where
  "audited st = st\<lparr>st_audit := Some (path_join (st_root st) LOG_FILE)\<rparr>"

definition gated :: "mac \<Rightarrow> keyring \<Rightarrow> capability list \<Rightarrow> store \<Rightarrow> store" where
  "gated mac k granted st = st\<lparr>st_gate := Some (gate_new mac k granted)\<rparr>"

section \<open>What every operation uses\<close>

definition require_write_role :: "store \<Rightarrow> string \<Rightarrow> string \<Rightarrow> db_error + unit" where
  "require_write_role st operation table =
     (if st_write_lock st \<noteq> None then Inr () else Inl (StorageError (ReadOnly operation table)))"

definition require_scope ::
  "('w, 'ds, 'sc, 'ub, 't) services \<Rightarrow> store \<Rightarrow> scope \<Rightarrow> string \<Rightarrow> db_error + unit" where
  "require_scope E st scope table =
     (case st_gate st of
        None \<Rightarrow> Inr ()
      | Some g \<Rightarrow> if permits (sv_mac E) g table scope then Inr () else Inl (StorageError (NotPermitted scope table)))"

definition record_op ::
  "('w, 'ds, 'sc, 'ub, 't) services \<Rightarrow> store \<Rightarrow> string \<Rightarrow> string \<Rightarrow> u64 \<Rightarrow> ('w world, db_error, unit) act" where
  "record_op E st query plan rows w =
     (case st_audit st of
        None \<Rightarrow> (Inr (), w)
      | Some path \<Rightarrow>
          (let (r, log) = audit_append (sv_audit_env E) (sv_digest E) query plan rows (w_audit w path)
           in (case r of Inl e \<Rightarrow> Inl (AuditError e) | Inr u \<Rightarrow> Inr u,
               w\<lparr>w_audit := (w_audit w)(path := log)\<rparr>)))"

definition SCHEME :: string where "SCHEME = ''euledb''"

definition provider_uri :: "('w, 'ds, 'sc, 'ub, 't) services \<Rightarrow> os_path \<Rightarrow> string" where
  "provider_uri E path =
     (let absolute = (case sv_absolute E path of Some p \<Rightarrow> p | None \<Rightarrow> path) in
      case sv_file_url E absolute of
        Some rest \<Rightarrow> SCHEME @ ''://'' @ rest
      | None \<Rightarrow> SCHEME @ ''://'' @ absolute)"

definition dataset_path :: "store \<Rightarrow> string \<Rightarrow> os_path" where
  "dataset_path st table = path_join (st_root st) (table @ ''.lance'')"

definition store_uri :: "('w, 'ds, 'sc, 'ub, 't) services \<Rightarrow> store \<Rightarrow> string \<Rightarrow> string" where
  "store_uri E st table =
     (if st_session st \<noteq> None then provider_uri E (dataset_path st table) else dataset_path st table)"

definition store_open ::
  "('w, 'ds, 'sc, 'ub, 't) services \<Rightarrow> store \<Rightarrow> string \<Rightarrow> ('w world, db_error, 'ds) act" where
  "store_open E st table =
     from_disk ''open the table'' table (l_load (sv_lance E) (store_uri E st table) (st_session st))"

definition vector_table :: "string \<Rightarrow> string \<Rightarrow> string" where
  "vector_table table column = table @ ''.'' @ column @ ''.vectors''"

definition vector_schema :: "data_type schema" where
  "vector_schema =
     \<lparr>s_fields =
        [\<lparr>f_name = ''row'', f_type = UInt64, f_nullable = False, f_metadata = Map.empty\<rparr>,
         \<lparr>f_name = ''chunk'', f_type = UInt32, f_nullable = False, f_metadata = Map.empty\<rparr>,
         \<lparr>f_name = ''embedding'', f_type = FixedSizeList ''item'' Float32 False VECTOR_WIDTH, f_nullable = False,
          f_metadata = Map.empty\<rparr>],
      s_metadata = Map.empty\<rparr>"

section \<open>Configuring and reading a scan\<close>

definition select_ordered ::
  "('w, 'ds, 'sc, 'ub, 't) services \<Rightarrow> string \<Rightarrow> predicate \<Rightarrow> string \<Rightarrow> order \<Rightarrow> 'sc \<Rightarrow> db_error + 'sc" where
  "select_ordered E table matching by order scanner =
     rbind (or_backend ''apply the predicate to'' table (l_filter (sv_lance E) (predicate_str matching) scanner))
       (\<lambda>scanner. or_backend ''order the rows of'' table
          (l_order_by (sv_lance E) (case order of Ascending \<Rightarrow> AscNullsLast by | Descending \<Rightarrow> DescNullsLast by) scanner))"

definition select_row_ids ::
  "('w, 'ds, 'sc, 'ub, 't) services \<Rightarrow> string \<Rightarrow> predicate \<Rightarrow> 'sc \<Rightarrow> db_error + 'sc" where
  "select_row_ids E table matching scanner =
     rbind (or_backend ''apply the predicate to'' table (l_filter (sv_lance E) (predicate_str matching) scanner))
       (\<lambda>scanner. or_backend ''project no columns of'' table
          (l_project (sv_lance E) [] (l_with_row_id (sv_lance E) scanner)))"

text \<open>The two steps of reading a configured scan, with the operation named in each step's error.\<close>

definition fetch ::
  "('w, 'ds, 'sc, 'ub, 't) services \<Rightarrow> string \<Rightarrow> string \<Rightarrow> string \<Rightarrow> 'sc \<Rightarrow> ('w world, db_error, batch list) act" where
  "fetch E starting reading table scanner =
     act_bind (from_disk starting table (l_start (sv_lance E) scanner))
       (\<lambda>_. from_disk reading table (l_read (sv_lance E) scanner))"

definition store_collect ::
  "('w, 'ds, 'sc, 'ub, 't) services \<Rightarrow> string \<Rightarrow> 'sc \<Rightarrow> ('w world, db_error, batch list) act" where
  "store_collect E table scanner =
     act_bind (fetch E ''start a scan of the table'' ''read the table'' table scanner)
       (\<lambda>batches. act_of (rmap (\<lambda>b. or_backend ''read the table'' table
          (l_batch (sv_lance E) (stripped_from (b_schema b)) (b_columns b))) batches))"

text \<open>The row identities of the batches of a scan, one list per batch.\<close>

definition ids_of_batch :: "('w, 'ds, 'sc, 'ub, 't) services \<Rightarrow> string \<Rightarrow> batch \<Rightarrow> db_error + row_id list" where
  "ids_of_batch E table b =
     (case column_by_name b (l_row_id (sv_lance E)) of
        None \<Rightarrow> Inl (backend ''read the row ids of'' table ''the scan returned no row-id column'')
      | Some _ \<Rightarrow>
          (case u64_column b (l_row_id (sv_lance E)) of
             None \<Rightarrow> Inl (backend ''read the row ids of'' table ''the row-id column was not the expected type'')
           | Some raw \<Rightarrow> Inr (map RowId raw)))"

definition text_ids_of_batch :: "('w, 'ds, 'sc, 'ub, 't) services \<Rightarrow> string \<Rightarrow> batch \<Rightarrow> db_error + row_id list" where
  "text_ids_of_batch E table b =
     (case u64_column b (l_row_id (sv_lance E)) of
        None \<Rightarrow> Inl (backend ''read the text results of'' table ''no row-id column'')
      | Some raw \<Rightarrow> Inr (map RowId raw))"

text \<open>
  The vectors of the batches of a companion table. The loops of \<open>vectors_of\<close> and \<open>nearest\<close> differ in the
  operation and in one message.
\<close>

fun zip_vectors :: "db_error \<Rightarrow> u64 list \<Rightarrow> u32 list \<Rightarrow> column list \<Rightarrow> db_error + row_vector list" where
  "zip_vectors bad (row # rows) (chunk # chunk_ids) (values # embeddings) =
     (case values of
        F32Column floats \<Rightarrow>
          rbind (zip_vectors bad rows chunk_ids embeddings)
            (\<lambda>vs. Inr (\<lparr>rv_row = RowId row, rv_chunk = chunk, rv_embedding = floats\<rparr> # vs))
      | _ \<Rightarrow> Inl bad)"
| "zip_vectors bad _ _ _ = Inr []"

definition vectors_of_batch :: "string \<Rightarrow> string \<Rightarrow> string \<Rightarrow> batch \<Rightarrow> db_error + row_vector list" where
  "vectors_of_batch operation not_f32 table b =
     rbind (ok_or (backend operation table ''no row column'') (u64_column b ''row'')) (\<lambda>rows.
     rbind (ok_or (backend operation table ''no chunk column'') (u32_column b ''chunk'')) (\<lambda>chunk_ids.
     rbind (ok_or (backend operation table ''no embedding column'') (list_column b ''embedding'')) (\<lambda>embeddings.
     zip_vectors (backend operation table not_f32) rows chunk_ids embeddings)))"

section \<open>Exact filters\<close>

definition row_ids ::
  "('w, 'ds, 'sc, 'ub, 't) services \<Rightarrow> store \<Rightarrow> string \<Rightarrow> predicate \<Rightarrow> ('w world, db_error, row_id list) act" where
  "row_ids E st table matching =
     act_bind (act_of (require_scope E st Read table)) (\<lambda>_.
     act_bind (store_open E st table) (\<lambda>dataset.
     act_bind (act_of (select_row_ids E table matching (l_scan (sv_lance E) dataset))) (\<lambda>scanner.
     act_bind (fetch E ''start a scan of the table'' ''read the table'' table scanner) (\<lambda>batches.
     act_of (rbind (rmap (ids_of_batch E table) batches) (\<lambda>ids. Inr (concat ids)))))))"

definition each_set ::
  "('w, 'ds, 'sc, 'ub, 't) services \<Rightarrow> store \<Rightarrow> string \<Rightarrow> predicate list \<Rightarrow> string
   \<Rightarrow> ('w world, db_error, 't \<times> 't list) act" where
  "each_set E st table matching operation =
     (case matching of
        [] \<Rightarrow> act_of (Inl (StorageError (NothingToCombine table operation)))
      | head # tail \<Rightarrow>
          act_bind (row_ids E st table head) (\<lambda>ids.
          act_bind (act_map (\<lambda>p. act_bind (row_ids E st table p) (\<lambda>ids. act_ok (row_set_of (sv_bitmap E) ids))) tail) (\<lambda>rest.
          act_ok (row_set_of (sv_bitmap E) ids, rest))))"

definition row_ids_all ::
  "('w, 'ds, 'sc, 'ub, 't) services \<Rightarrow> store \<Rightarrow> string \<Rightarrow> predicate list \<Rightarrow> ('w world, db_error, 't) act" where
  "row_ids_all E st table matching =
     act_bind (each_set E st table matching ''intersect'')
       (\<lambda>(first, rest). act_ok (intersect_all (sv_bitmap E) first rest))"

definition row_ids_any ::
  "('w, 'ds, 'sc, 'ub, 't) services \<Rightarrow> store \<Rightarrow> string \<Rightarrow> predicate list \<Rightarrow> ('w world, db_error, 't) act" where
  "row_ids_any E st table matching =
     act_bind (each_set E st table matching ''unite'')
       (\<lambda>(first, rest). act_ok (union_all (sv_bitmap E) first rest))"

text \<open>
  A candidate source (\<open>search.rs\<close>) is the caller's: it is given the set the filter kept, and the limit. Its
  contract is that it returns rows of that set only.
\<close>

definition candidate_source :: "('t \<Rightarrow> u64 set) \<Rightarrow> ('t \<Rightarrow> nat \<Rightarrow> ('s, 'e, row_id list) act) \<Rightarrow> bool" where
  "candidate_source elems candidates \<longleftrightarrow>
     (\<forall>kept limit s rows s'. candidates kept limit s = (Inr rows, s') \<longrightarrow> row_get ` set rows \<subseteq> elems kept)"

definition filtered_search ::
  "('w, 'ds, 'sc, 'ub, 't) services \<Rightarrow> store \<Rightarrow> string \<Rightarrow> predicate list
   \<Rightarrow> ('t \<Rightarrow> nat \<Rightarrow> ('w world, db_error, row_id list) act) \<Rightarrow> nat \<Rightarrow> ('w world, db_error, row_id list) act" where
  "filtered_search E st table matching candidates limit =
     act_bind (row_ids_all E st table matching) (\<lambda>kept. candidates kept limit)"

definition row_ids_measured ::
  "('w, 'ds, 'sc, 'ub, 't) services \<Rightarrow> store \<Rightarrow> string \<Rightarrow> predicate \<Rightarrow> ('w world, db_error, row_id list measured) act" where
  "row_ids_measured E st table matching =
     act_bind (row_ids E st table matching) (\<lambda>value.
     act_bind (store_open E st table) (\<lambda>dataset.
     act_bind (act_of (select_row_ids E table matching (l_scan (sv_lance E) dataset))) (\<lambda>scanner.
     act_bind (from_disk ''analyse the plan for'' table (l_analyze (sv_lance E) scanner)) (\<lambda>plan.
     act_ok \<lparr>m_value = value, m_rows_examined = widest_scan plan\<rparr>))))"

definition scan_ordered ::
  "('w, 'ds, 'sc, 'ub, 't) services \<Rightarrow> store \<Rightarrow> string \<Rightarrow> predicate \<Rightarrow> string \<Rightarrow> order
   \<Rightarrow> ('w world, db_error, batch list) act" where
  "scan_ordered E st table matching by order =
     act_bind (act_of (require_scope E st Read table)) (\<lambda>_.
     act_bind (store_open E st table) (\<lambda>dataset.
     act_bind (act_of (select_ordered E table matching by order (l_scan (sv_lance E) dataset))) (\<lambda>scanner.
     store_collect E table scanner)))"

definition scan_ordered_measured ::
  "('w, 'ds, 'sc, 'ub, 't) services \<Rightarrow> store \<Rightarrow> string \<Rightarrow> predicate \<Rightarrow> string \<Rightarrow> order
   \<Rightarrow> ('w world, db_error, batch list measured) act" where
  "scan_ordered_measured E st table matching by order =
     act_bind (scan_ordered E st table matching by order) (\<lambda>value.
     act_bind (store_open E st table) (\<lambda>dataset.
     act_bind (act_of (select_ordered E table matching by order (l_scan (sv_lance E) dataset))) (\<lambda>scanner.
     act_bind (from_disk ''analyse the plan for'' table (l_analyze (sv_lance E) scanner)) (\<lambda>plan.
     act_ok \<lparr>m_value = value, m_rows_examined = widest_scan plan\<rparr>))))"

definition create_index ::
  "('w, 'ds, 'sc, 'ub, 't) services \<Rightarrow> store \<Rightarrow> string \<Rightarrow> string \<Rightarrow> ('w world, db_error, unit) act" where
  "create_index E st table column =
     act_bind (act_of (require_scope E st Schema table)) (\<lambda>_.
     act_bind (act_of (require_write_role st ''index a column of'' table)) (\<lambda>_.
     act_bind (store_open E st table) (\<lambda>dataset.
     on_disk ''index a column of'' table (l_create_index (sv_lance E) dataset column BTreeIndex))))"

end
