(* ===== verification/Store_Operations.thy ===== *)
theory Store_Operations
  imports Lance_Store
begin

text \<open>
  \<open>store.rs\<close>, continued: embedding and the companion tables of vectors, the searches over them, and the
  operations of the \<open>TableStore\<close> port.
\<close>

section \<open>Vectors\<close>

definition store_embed_query :: "store \<Rightarrow> string \<Rightarrow> db_error + f32 list" where
  "store_embed_query st query =
     rbind (ok_or (StorageError NoEmbedder) (st_embedder st))
       (\<lambda>e. case em_query e query of
              Inl cause \<Rightarrow> Inl (StorageError (QueryNotEmbeddable cause))
            | Inr vector \<Rightarrow> Inr vector)"

definition vector_key :: "row_vector \<Rightarrow> u64 \<times> u32" where
  "vector_key v = (row_get (rv_row v), rv_chunk v)"

definition vectors_of ::
  "('w, 'ds, 'sc, 'ub, 't) services \<Rightarrow> store \<Rightarrow> string \<Rightarrow> string \<Rightarrow> ('w world, db_error, row_vector list) act" where
  "vectors_of E st table column =
     act_bind (act_of (require_scope E st Read table)) (\<lambda>_.
     act_bind (store_open E st (vector_table table column)) (\<lambda>dataset.
     act_bind (store_collect E table (l_scan (sv_lance E) dataset)) (\<lambda>batches.
     act_bind (act_of (rmap (vectors_of_batch ''read the vectors of'' ''embeddings are not f32'' table) batches)) (\<lambda>vectors.
     act_ok (sort_key vector_key (concat vectors))))))"

fun index_params_for :: "vector_index_kind \<Rightarrow> index_params" where
  "index_params_for Graph = HnswSqIndex 1 16"
| "index_params_for Quantised = PqIndex 1 16 4"

fun kind_name :: "vector_index_kind \<Rightarrow> string" where
  "kind_name Graph = ''graph''"
| "kind_name Quantised = ''quantised''"

definition tick :: string where "tick = ''`''"

definition create_vector_index ::
  "('w, 'ds, 'sc, 'ub, 't) services \<Rightarrow> store \<Rightarrow> string \<Rightarrow> string \<Rightarrow> vector_index_kind \<Rightarrow> ('w world, db_error, unit) act" where
  "create_vector_index E st table column kind =
     act_bind (act_of (require_scope E st Schema table)) (\<lambda>_.
     act_bind (act_of (require_write_role st ''index the vectors of'' table)) (\<lambda>_.
     act_bind (store_open E st (vector_table table column)) (\<lambda>dataset.
     act_bind (on_disk ''index the vectors of'' table
                 (l_create_index (sv_lance E) dataset ''embedding'' (index_params_for kind))) (\<lambda>_.
     record_op E st (''index the vectors of '' @ tick @ table @ tick @ ''.'' @ tick @ column @ tick) (kind_name kind) 0))))"

definition nearest ::
  "('w, 'ds, 'sc, 'ub, 't) services \<Rightarrow> store \<Rightarrow> string \<Rightarrow> string \<Rightarrow> f32 list \<Rightarrow> nat
   \<Rightarrow> ('w world, db_error, row_vector list) act" where
  "nearest E st table column query limit =
     act_bind (act_of (require_scope E st Read table)) (\<lambda>_.
     if length query \<noteq> VECTOR_WIDTH
     then act_of (Inl (StorageError (WrongVectorWidth (length query) VECTOR_WIDTH)))
     else
       act_bind (store_open E st (vector_table table column)) (\<lambda>dataset.
       act_bind (act_of (or_backend ''search the vectors of'' table
                   (l_nearest (sv_lance E) ''embedding'' query limit (l_scan (sv_lance E) dataset)))) (\<lambda>scanner.
       act_bind (fetch E ''start a search of'' ''read the search results of'' table scanner) (\<lambda>batches.
       act_bind (act_of (rmap (vectors_of_batch ''read the search results of'' ''not f32'' table) batches)) (\<lambda>found.
       act_bind (record_op E st (''search the vectors of '' @ tick @ table @ tick @ ''.'' @ tick @ column @ tick) []
                   (count_u64 (length (concat found)))) (\<lambda>_.
       act_ok (concat found)))))))"

definition create_text_index ::
  "('w, 'ds, 'sc, 'ub, 't) services \<Rightarrow> store \<Rightarrow> string \<Rightarrow> string \<Rightarrow> stemming_language \<Rightarrow> ('w world, db_error, unit) act" where
  "create_text_index E st table column language =
     act_bind (act_of (require_scope E st Schema table)) (\<lambda>_.
     act_bind (act_of (require_write_role st ''index the text of'' table)) (\<lambda>_.
     let (name, stem) = as_parts language in
     act_bind (store_open E st table) (\<lambda>dataset.
     act_bind (act_of (or_backend ''index the text of'' table (l_language (sv_lance E) name))) (\<lambda>_.
     act_bind (on_disk ''index the text of'' table
                 (l_create_index (sv_lance E) dataset column (InvertedIndex name stem stem True))) (\<lambda>_.
     record_op E st (''index the text of '' @ tick @ table @ tick @ ''.'' @ tick @ column @ tick) name 0)))))"

text \<open>\<open>i64::try_from(limit).unwrap_or(i64::MAX)\<close>.\<close>

definition limit_i64 :: "nat \<Rightarrow> nat" where
  "limit_i64 limit = min limit (2 ^ 63 - 1)"

definition search_text ::
  "('w, 'ds, 'sc, 'ub, 't) services \<Rightarrow> store \<Rightarrow> string \<Rightarrow> string \<Rightarrow> string \<Rightarrow> nat
   \<Rightarrow> ('w world, db_error, row_id list) act" where
  "search_text E st table column query limit =
     act_bind (act_of (require_scope E st Read table)) (\<lambda>_.
     act_bind (store_open E st table) (\<lambda>dataset.
     act_bind (act_of (or_backend ''search the text of'' table
                 (l_full_text (sv_lance E) query (l_scan (sv_lance E) dataset)))) (\<lambda>scanner.
     act_bind (act_of (or_backend ''limit the search of'' table
                 (l_limit (sv_lance E) (limit_i64 limit) (l_with_row_id (sv_lance E) scanner)))) (\<lambda>scanner.
     act_bind (act_of (or_backend ''project no columns of'' table (l_project (sv_lance E) [] scanner))) (\<lambda>scanner.
     act_bind (fetch E ''start a text search of'' ''read the text results of'' table scanner) (\<lambda>batches.
     act_bind (act_of (rmap (text_ids_of_batch E table) batches)) (\<lambda>hits.
     act_bind (record_op E st (''search the text of '' @ tick @ table @ tick @ ''.'' @ tick @ column @ tick) query
                 (count_u64 (length (concat hits)))) (\<lambda>_.
     act_ok (concat hits)))))))))"

text \<open>
  The \<open>Debug\<close> form of a string, which the hybrid search records: quoted, the quote, the backslash and
  the control characters escaped, and of the characters above ASCII those the standard library's tables
  call unprintable or an extension of the character before. The tables are the parameter \<open>escaped\<close>.
\<close>

fun hex_digits :: "nat \<Rightarrow> string" where
  "hex_digits n = (if n < 16 then [hex_digit n] else hex_digits (n div 16) @ [hex_digit (n mod 16)])"

declare hex_digits.simps [simp del]

definition debug_char :: "(nat \<Rightarrow> bool) \<Rightarrow> string \<Rightarrow> string" where
  "debug_char escaped ch =
     (let n = code_point ch in
      if ch = [CHR 0x22] then [backslash, CHR 0x22]
      else if ch = [backslash] then [backslash, backslash]
      else if ch = [tab] then backslash # ''t''
      else if ch = [newline] then backslash # ''n''
      else if ch = [carriage] then backslash # ''r''
      else if n = 0 then backslash # ''0''
      else if n < 32 \<or> n = 127 \<or> 128 \<le> n \<and> escaped n then backslash # ''u{'' @ hex_digits n @ ''}''
      else ch)"

definition debug_str :: "(nat \<Rightarrow> bool) \<Rightarrow> string \<Rightarrow> string" where
  "debug_str escaped s = [CHR 0x22] @ concat (map (debug_char escaped) (characters s)) @ [CHR 0x22]"

text \<open>\<open>limit.saturating_mul(2).max(limit)\<close>, a \<open>usize\<close> of 64 bits.\<close>

definition breadth :: "nat \<Rightarrow> nat" where
  "breadth limit = max (min (2 * limit) (2 ^ 64 - 1)) limit"

definition hybrid_search ::
  "('w, 'ds, 'sc, 'ub, 't) services \<Rightarrow> store \<Rightarrow> string \<Rightarrow> string \<Rightarrow> string \<Rightarrow> f32 list \<Rightarrow> nat
   \<Rightarrow> ('w world, db_error, fused) act" where
  "hybrid_search E st table column text vector limit =
     act_bind (act_of (require_scope E st Read table)) (\<lambda>_.
     act_bind (nearest E st table column vector (breadth limit)) (\<lambda>hits.
     act_bind (search_text E st table column text (breadth limit)) (\<lambda>lexical.
     act_bind (store_open E st table) (\<lambda>dataset.
     act_bind (from_disk ''count the rows of'' table (l_count (sv_lance E) dataset None)) (\<lambda>rows.
     let fused = fuse (map rv_row hits) lexical rows limit in
     act_bind (record_op E st
                 (''hybrid search of '' @ tick @ table @ tick @ ''.'' @ tick @ column @ tick @ '' for '' @ debug_str (sv_escaped E) text)
                 (''rrf k='' @ show_nat (fused_effective_k fused))
                 (count_u64 (length (fused_hits fused)))) (\<lambda>_.
     act_ok fused))))))"

text \<open>\<open>str::contains\<close> of a literal.\<close>

fun contains_str :: "string \<Rightarrow> string \<Rightarrow> bool" where
  "contains_str pattern [] = (pattern = [])"
| "contains_str pattern (c # cs) = (take (length pattern) (c # cs) = pattern \<or> contains_str pattern cs)"

definition vector_index_kind_of ::
  "('w, 'ds, 'sc, 'ub, 't) services \<Rightarrow> store \<Rightarrow> string \<Rightarrow> string \<Rightarrow> ('w world, db_error, vector_index_kind option) act" where
  "vector_index_kind_of E st table column =
     act_bind (act_of (require_scope E st Read table)) (\<lambda>_.
     act_bind (store_open E st (vector_table table column)) (\<lambda>dataset.
     act_read (\<lambda>w.
       case l_statistics (sv_lance E) dataset ''embedding_idx'' (w_disk w) of
         Inl _ \<Rightarrow> Inr None
       | Inr statistics \<Rightarrow>
           Inr (if contains_str ''HNSW'' statistics then Some Graph
                else if contains_str ''PQ'' statistics then Some Quantised else None))))"

definition nearest_uses_the_index ::
  "('w, 'ds, 'sc, 'ub, 't) services \<Rightarrow> store \<Rightarrow> string \<Rightarrow> string \<Rightarrow> f32 list \<Rightarrow> nat \<Rightarrow> ('w world, db_error, bool) act" where
  "nearest_uses_the_index E st table column query limit =
     act_bind (act_of (require_scope E st Read table)) (\<lambda>_.
     act_bind (store_open E st (vector_table table column)) (\<lambda>dataset.
     act_bind (act_of (or_backend ''search the vectors of'' table
                 (l_nearest (sv_lance E) ''embedding'' query limit (l_scan (sv_lance E) dataset)))) (\<lambda>scanner.
     act_bind (from_disk ''explain the search of'' table (l_explain (sv_lance E) scanner)) (\<lambda>plan.
     act_ok (contains_str ''ANNSubIndex'' plan \<or> contains_str ''ANNIvfPartition'' plan)))))"

section \<open>Reconciling\<close>

text \<open>Row identity and text together: the rows of the table, read in one pass.\<close>

definition present_of_batch ::
  "('w, 'ds, 'sc, 'ub, 't) services \<Rightarrow> string \<Rightarrow> string \<Rightarrow> batch \<Rightarrow> db_error + (u64 \<times> string) list" where
  "present_of_batch E table column b =
     rbind (ok_or (backend ''read the row ids of'' table ''no row-id column'') (u64_column b (l_row_id (sv_lance E)))) (\<lambda>rows.
     rbind (ok_or (backend ''read the embedding column of'' table ''an auto-embedding column must hold text'')
              (text_column b column)) (\<lambda>texts.
     Inr (zip rows texts)))"

text \<open>The chunks of one row, numbered; a vector of another width is refused.\<close>

fun number_chunks :: "string \<Rightarrow> u64 \<Rightarrow> nat \<Rightarrow> f32 list list \<Rightarrow> db_error + row_vector list" where
  "number_chunks table row chunk [] = Inr []"
| "number_chunks table row chunk (v # vs) =
     (if length v \<noteq> VECTOR_WIDTH
      then Inl (backend ''embed the text of'' table
                  (''the embedder produced '' @ show_nat (length v) @ '' components, not '' @ show_nat VECTOR_WIDTH))
      else rbind (number_chunks table row (Suc chunk) vs)
             (\<lambda>rest. Inr (\<lparr>rv_row = RowId row,
                          rv_chunk = (if chunk < 2 ^ 32 then word_of_nat chunk else - 1),
                          rv_embedding = v\<rparr> # rest)))"

text \<open>A row that has vectors keeps them; one that has none is embedded.\<close>

definition embeddings_for :: "embedder \<Rightarrow> string \<Rightarrow> row_vector list \<Rightarrow> u64 \<Rightarrow> string \<Rightarrow> db_error + f32 list list" where
  "embeddings_for e table existing row text =
     (let kept = map rv_embedding (filter (\<lambda>v. row_get (rv_row v) = row) existing) in
      if kept = [] then or_backend ''embed the text of'' table (em_passage e text) else Inr kept)"

fun rebuild :: "embedder \<Rightarrow> string \<Rightarrow> row_vector list \<Rightarrow> (u64 \<times> string) list \<Rightarrow> db_error + row_vector list" where
  "rebuild e table existing [] = Inr []"
| "rebuild e table existing ((row, text) # present) =
     rbind (embeddings_for e table existing row text) (\<lambda>embeddings.
     rbind (number_chunks table row 0 embeddings) (\<lambda>vs.
     rbind (rebuild e table existing present) (\<lambda>rest. Inr (vs @ rest))))"

text \<open>
  The companion table written in one piece: three columns, the vectors laid end to end. The write is not
  given the handle's session.
\<close>

definition write_vectors ::
  "('w, 'ds, 'sc, 'ub, 't) services \<Rightarrow> store \<Rightarrow> string \<Rightarrow> string \<Rightarrow> row_vector list \<Rightarrow> ('w world, db_error, unit) act" where
  "write_vectors E st table column vs =
     act_bind (act_of (or_backend ''build the vectors of'' table
                 (l_fixed_list (sv_lance E) VECTOR_WIDTH (concat (map rv_embedding vs))))) (\<lambda>embeddings.
     act_bind (act_of (or_backend ''build the vectors of'' table
                 (l_batch (sv_lance E) vector_schema
                    [U64Column (map (row_get \<circ> rv_row) vs), U32Column (map rv_chunk vs), embeddings]))) (\<lambda>batch.
     on_disk ''write the vectors of'' table
       (l_write (sv_lance E) vector_schema [batch] (store_uri E st (vector_table table column)) Overwrite None)))"

text \<open>The vectors there are: none when the companion table cannot be opened.\<close>

definition existing_vectors ::
  "('w, 'ds, 'sc, 'ub, 't) services \<Rightarrow> store \<Rightarrow> string \<Rightarrow> string \<Rightarrow> ('w world, db_error, row_vector list) act" where
  "existing_vectors E st table column w =
     (case fst (store_open E st (vector_table table column) w) of
        Inr _ \<Rightarrow> vectors_of E st table column w
      | Inl _ \<Rightarrow> (Inr [], w))"

definition present_rows ::
  "('w, 'ds, 'sc, 'ub, 't) services \<Rightarrow> store \<Rightarrow> string \<Rightarrow> string \<Rightarrow> ('w world, db_error, (u64 \<times> string) list) act" where
  "present_rows E st table column =
     act_bind (store_open E st table) (\<lambda>dataset.
     act_bind (act_of (or_backend ''project the embedding column of'' table
                 (l_project (sv_lance E) [column] (l_with_row_id (sv_lance E) (l_scan (sv_lance E) dataset))))) (\<lambda>scanner.
     act_bind (fetch E ''start a scan of the table'' ''read the table'' table scanner) (\<lambda>batches.
     act_of (rbind (rmap (present_of_batch E table column) batches) (\<lambda>ps. Inr (concat ps))))))"

definition reconcile ::
  "('w, 'ds, 'sc, 'ub, 't) services \<Rightarrow> store \<Rightarrow> string \<Rightarrow> string \<Rightarrow> ('w world, db_error, unit) act" where
  "reconcile E st table column =
     (case st_embedder st of
        None \<Rightarrow> act_of (Inl (backend ''embed the auto-embedding column of'' table
                   ''this handle has no embedder: open it with `embedding(..)`''))
      | Some e \<Rightarrow>
          act_bind (existing_vectors E st table column) (\<lambda>existing.
          act_bind (present_rows E st table column) (\<lambda>present.
          if set (map fst present) = set (map (row_get \<circ> rv_row) existing) then act_ok ()
          else act_bind (act_of (rebuild e table existing present)) (write_vectors E st table column))))"

definition embedding_columns ::
  "('w, 'ds, 'sc, 'ub, 't) services \<Rightarrow> store \<Rightarrow> string \<Rightarrow> ('w world, db_error, string list) act" where
  "embedding_columns E st table =
     act_bind (store_open E st table) (\<lambda>dataset. act_ok (auto_embedding_columns (l_schema (sv_lance E) dataset)))"

definition reconcile_all ::
  "('w, 'ds, 'sc, 'ub, 't) services \<Rightarrow> store \<Rightarrow> string \<Rightarrow> ('w world, db_error, unit) act" where
  "reconcile_all E st table =
     act_bind (embedding_columns E st table) (act_each (reconcile E st table))"

section \<open>The table store port\<close>

definition create_table ::
  "('w, 'ds, 'sc, 'ub, 't) services \<Rightarrow> store \<Rightarrow> string \<Rightarrow> data_type table_definition \<Rightarrow> ('w world, db_error, unit) act" where
  "create_table E st table d =
     act_bind (act_of (require_scope E st Schema table)) (\<lambda>_.
     act_bind (act_of (require_write_role st ''create the table'' table)) (\<lambda>_.
     act_bind (on_disk ''create the table'' table
                 (l_write (sv_lance E) (applied_to (td_compression d) (td_schema d)) [] (store_uri E st table) Create (st_session st))) (\<lambda>_.
     record_op E st (''create table '' @ tick @ table @ tick) [] 0)))"

definition append_batch ::
  "('w, 'ds, 'sc, 'ub, 't) services \<Rightarrow> store \<Rightarrow> string \<Rightarrow> batch \<Rightarrow> ('w world, db_error, unit) act" where
  "append_batch E st table b =
     act_bind (act_of (require_scope E st Write table)) (\<lambda>_.
     act_bind (act_of (require_write_role st ''append to'' table)) (\<lambda>_.
     act_bind (on_disk ''append to the table'' table
                 (l_write (sv_lance E) (b_schema b) [b] (store_uri E st table) Append (st_session st))) (\<lambda>_.
     act_bind (record_op E st (''insert into '' @ tick @ table @ tick) [] (count_u64 (b_rows b))) (\<lambda>_.
     reconcile_all E st table))))"

fun set_all ::
  "('w, 'ds, 'sc, 'ub, 't) services \<Rightarrow> string \<Rightarrow> assignment list \<Rightarrow> 'ub \<Rightarrow> db_error + 'ub" where
  "set_all E table [] builder = Inr builder"
| "set_all E table (a # as) builder =
     rbind (or_backend ''apply an assignment to'' table (l_set (sv_lance E) (as_column a) (as_value a) builder))
       (set_all E table as)"

text \<open>\<open>join\<close> of a list of strings.\<close>

fun join_str :: "string \<Rightarrow> string list \<Rightarrow> string" where
  "join_str sep [] = []"
| "join_str sep [x] = x"
| "join_str sep (x # y # rest) = x @ sep @ join_str sep (y # rest)"

definition update_rows ::
  "('w, 'ds, 'sc, 'ub, 't) services \<Rightarrow> store \<Rightarrow> string \<Rightarrow> predicate \<Rightarrow> assignment list \<Rightarrow> ('w world, db_error, updated) act" where
  "update_rows E st table matching assignments =
     act_bind (act_of (require_scope E st Write table)) (\<lambda>_.
     act_bind (act_of (require_write_role st ''update'' table)) (\<lambda>_.
     if assignments = [] then act_of (Inl (StorageError (NothingToSet table)))
     else
       act_bind (store_open E st table) (\<lambda>dataset.
       act_bind (act_of (or_backend ''apply the predicate to'' table (l_update_where (sv_lance E) dataset (predicate_str matching)))) (\<lambda>builder.
       act_bind (act_of (set_all E table assignments builder)) (\<lambda>builder.
       act_bind (act_of (or_backend ''plan the update of'' table (l_build (sv_lance E) builder))) (\<lambda>job.
       act_bind (on_disk ''update'' table (l_execute (sv_lance E) job)) (\<lambda>rows.
       act_bind (record_op E st (''update '' @ tick @ table @ tick @ '' where '' @ predicate_str matching)
                   (join_str '', '' (map as_column assignments)) rows) (\<lambda>_.
       act_bind (reconcile_all E st table) (\<lambda>_.
       act_ok (Updated rows))))))))))"

definition delete_rows ::
  "('w, 'ds, 'sc, 'ub, 't) services \<Rightarrow> store \<Rightarrow> string \<Rightarrow> predicate \<Rightarrow> ('w world, db_error, deleted) act" where
  "delete_rows E st table matching =
     act_bind (act_of (require_scope E st Write table)) (\<lambda>_.
     act_bind (act_of (require_write_role st ''delete from'' table)) (\<lambda>_.
     act_bind (store_open E st table) (\<lambda>dataset.
     act_bind (from_disk ''count the rows to delete from'' table
                 (l_count (sv_lance E) dataset (Some (predicate_str matching)))) (\<lambda>announced.
     act_bind (warn (DeletingRows table (predicate_str matching) (count_u64 announced))) (\<lambda>_.
     act_bind (on_disk ''delete from'' table (l_delete (sv_lance E) dataset (predicate_str matching))) (\<lambda>rows.
     act_bind (record_op E st (''delete from '' @ tick @ table @ tick @ '' where '' @ predicate_str matching) [] rows) (\<lambda>_.
     act_bind (reconcile_all E st table) (\<lambda>_.
     act_ok (Deleted rows)))))))))"

definition drop_table ::
  "('w, 'ds, 'sc, 'ub, 't) services \<Rightarrow> store \<Rightarrow> string \<Rightarrow> ('w world, db_error, unit) act" where
  "drop_table E st table =
     act_bind (act_of (require_scope E st Schema table)) (\<lambda>_.
     act_bind (act_of (require_write_role st ''drop the table'' table)) (\<lambda>_.
     act_bind (record_op E st (''drop table '' @ tick @ table @ tick) [] 0) (\<lambda>_.
     on_disk ''drop the table'' table (l_remove_dir (sv_lance E) (dataset_path st table)))))"

definition scan ::
  "('w, 'ds, 'sc, 'ub, 't) services \<Rightarrow> store \<Rightarrow> string \<Rightarrow> ('w world, db_error, batch list) act" where
  "scan E st table =
     act_bind (act_of (require_scope E st Read table)) (\<lambda>_.
     act_bind (store_open E st table) (\<lambda>dataset.
     act_bind (store_collect E table (l_scan (sv_lance E) dataset)) (\<lambda>batches.
     act_bind (record_op E st (''scan '' @ tick @ table @ tick) [] (sum_list (map (\<lambda>b. count_u64 (b_rows b)) batches))) (\<lambda>_.
     act_ok batches))))"

end
