(* ===== verification/Audit_Proofs.thy ===== *)
theory Audit_Proofs
  imports Audit_Log
begin

text \<open>
  The line format of the audit log reads back what it wrote, the chain of an appended log holds, and
  what a break of it looks like.
\<close>

section \<open>Fields and lines\<close>

lemma unescape_escape: "unescape (escape s) = s"
proof (induction s)
  case Nil
  then show ?case by simp
next
  case (Cons c cs)
  have "unescape (c # xs) = c # unescape xs" if "c \<noteq> backslash" for xs
    using that by (cases xs) simp_all
  then show ?case using Cons.IH by simp
qed

lemma escape_clean: "c = tab \<or> c = newline \<Longrightarrow> c \<notin> set (escape s)"
  by (induction s) auto

interpretation audit_field: field_codec escape unescape "{tab, newline}"
  by unfold_locales (auto simp: unescape_escape escape_clean)

lemma last_escape: "s \<noteq> [] \<Longrightarrow> escape s \<noteq> [] \<and> (last (escape s) = carriage \<longleftrightarrow> last s = carriage)"
proof (induction s)
  case (Cons c cs)
  then show ?case by (cases "cs = []") auto
qed simp

definition record_ok :: "audit_record \<Rightarrow> bool" where
  "record_ok r \<longleftrightarrow> length (ar_previous r) = HASH_LEN \<and> length (ar_hash r) = HASH_LEN"

text \<open>A record whose line is read back as it is: its plan does not end in a carriage return.\<close>

definition line_safe :: "audit_record \<Rightarrow> bool" where
  "line_safe r \<longleftrightarrow> ar_plan r = [] \<or> last (ar_plan r) \<noteq> carriage"

definition line_body :: "audit_record \<Rightarrow> string" where
  "line_body r =
     show_nat (unat (ar_sequence r)) @ tab # hex (ar_previous r) @ tab # hex (ar_hash r) @ tab
     # show_nat (unat (ar_rows r)) @ tab # escape (ar_query r) @ tab # escape (ar_plan r)"

lemma to_line_body: "to_line r = line_body r @ [newline]"
  by (simp add: to_line_def line_body_def)

lemma plain_fields [simp]:
  "tab \<notin> set (show_nat n)" "newline \<notin> set (show_nat n)" "tab \<notin> set (hex bs)" "newline \<notin> set (hex bs)"
  by (rule show_nat_plain, simp)+ (rule hex_plain, simp)+

lemma line_body_plain [simp]: "newline \<notin> set (line_body r)" "line_body r \<noteq> []"
  using escape_clean [of newline] by (auto simp: line_body_def)

lemma from_line_body:
  assumes "record_ok r"
  shows "from_line (line_body r) = Inr r"
proof -
  have un: "unhex (hex (ar_previous r)) = Some (ar_previous r)" "unhex (hex (ar_hash r)) = Some (ar_hash r)"
    using assms by (simp_all add: unhex_def unhex_hex record_ok_def)
  have "split_on tab (line_body r) = [show_nat (unat (ar_sequence r)), hex (ar_previous r), hex (ar_hash r),
      show_nat (unat (ar_rows r)), escape (ar_query r), escape (ar_plan r)]"
    by (simp add: line_body_def split_on_append audit_field.enc_field audit_field.enc_last_field)
  then show ?thesis by (simp add: from_line_def un unescape_escape)
qed

lemma utf8_escape: "utf8 s \<Longrightarrow> utf8 (escape s)"
proof (induction rule: utf8_induct)
  case (char ch s)
  have app: "escape (x @ y) = escape x @ escape y" for x y by (induction x) simp_all
  from char(1) have "utf8 (escape ch)"
  proof (cases rule: well_formed_cases)
    case (2 c cs)
    then have "c \<notin> {backslash, tab, newline}" "set cs \<inter> {backslash, tab, newline} = {}" by auto
    moreover have "escape x = x" if "set x \<inter> {backslash, tab, newline} = {}" for x using that by (induction x) auto
    ultimately have "escape ch = ch" unfolding 2(1) by simp
    moreover have "utf8 ch" using utf8_first [OF char(1), of "[]"] by simp
    ultimately show ?thesis by simp
  qed auto
  then show ?case using char(3) by (simp add: app)
qed simp

text \<open>A record of strings: its line is UTF-8.\<close>

definition text_record :: "audit_record \<Rightarrow> bool" where
  "text_record r \<longleftrightarrow> utf8 (ar_query r) \<and> utf8 (ar_plan r)"

lemma utf8_to_line: "text_record r \<Longrightarrow> utf8 (to_line r)"
  by (simp add: to_line_def text_record_def utf8_escape)

lemma parse_file_Inr: "parse_file content = Inr rs \<longleftrightarrow> utf8 content \<and> parse content = Inr rs"
  by (simp add: parse_file_def decode_text_def)

lemma parse_file_Nil [simp]: "parse_file [] = Inr []"
  by (simp add: parse_file_Inr parse_def)

lemma parse_append:
  assumes "whole_lines content"
  shows "parse (content @ added) = rbind (parse content) (\<lambda>rs. rbind (parse added) (\<lambda>rs'. Inr (rs @ rs')))"
  by (simp add: parse_def lines_of_append [OF assms] rmap_append)

lemma parse_to_line:
  assumes "record_ok r" and "line_safe r"
  shows "parse (to_line r) = Inr [r]"
proof -
  have "last (line_body r) \<noteq> carriage"
    using assms(2) last_escape [of "ar_plan r"] by (cases "ar_plan r = []") (auto simp: line_body_def line_safe_def)
  then have "lines_of (to_line r) = [line_body r]"
    by (simp add: to_line_body lines_of_line strip_carriage_id)
  then show ?thesis by (simp add: parse_def from_line_body [OF assms(1)])
qed

lemma parse_snoc:
  assumes "whole_lines content" and "parse content = Inr rs" and "record_ok r" and "line_safe r"
  shows "parse (content @ to_line r) = Inr (rs @ [r])"
  by (simp add: parse_append [OF assms(1)] assms(2) parse_to_line [OF assms(3,4)])

lemma whole_lines_to_line [simp]: "whole_lines (content @ to_line r)"
  by (simp add: whole_lines_def to_line_body)

lemma parse_file_snoc:
  assumes "whole_lines content" and "parse_file content = Inr rs" and "record_ok r" and "line_safe r" and "text_record r"
  shows "parse_file (content @ to_line r) = Inr (rs @ [r])"
  using assms parse_snoc [of content rs r] by (simp add: parse_file_Inr utf8_to_line)

section \<open>The chain\<close>

lemma current_chain_snoc:
  "current_chain (rs @ [r]) = (if is_reanchor r then [r] else current_chain rs @ [r])"
  by (induction rs) auto

lemma last_current_chain: "rs \<noteq> [] \<Longrightarrow> current_chain rs \<noteq> [] \<and> last (current_chain rs) = last rs"
proof (induction rs)
  case (Cons r rs)
  then show ?case by (cases "rs = []") auto
qed simp

lemma current_chain_all: "\<not> list_ex is_reanchor rs \<Longrightarrow> current_chain rs = rs"
  by (cases rs) auto

lemma first_break_from_append:
  "first_break_from digest e (xs @ ys) =
     (case first_break_from digest e xs of
        Some at \<Rightarrow> Some at
      | None \<Rightarrow> first_break_from digest (if xs = [] then e else ar_hash (last xs)) ys)"
  by (induction xs arbitrary: e) (auto split: option.split)

lemma first_break_snoc:
  assumes "\<not> is_reanchor r" and "first_break digest rs = None"
    and "ar_previous r = (if rs = [] then ANCHOR else ar_hash (last rs))" and "ar_hash r = recompute digest r"
  shows "first_break digest (rs @ [r]) = None"
  using assms last_current_chain [of rs]
  by (auto simp: first_break_def current_chain_snoc first_break_from_append split: if_splits)

lemma first_break_reanchor:
  assumes "is_reanchor r" and "ar_previous r = ANCHOR" and "ar_hash r = recompute digest r"
  shows "first_break digest (rs @ [r]) = None"
  using assms by (simp add: first_break_def current_chain_snoc)

text \<open>Which records of a list hold.\<close>

definition link_ok :: "(bytes \<Rightarrow> bytes) \<Rightarrow> bytes \<Rightarrow> audit_record list \<Rightarrow> nat \<Rightarrow> bool" where
  "link_ok digest e rs i \<longleftrightarrow>
     ar_previous (rs ! i) = (if i = 0 then e else ar_hash (rs ! (i - 1))) \<and> ar_hash (rs ! i) = recompute digest (rs ! i)"

lemma first_break_from_None: "first_break_from digest e rs = None \<longleftrightarrow> (\<forall>i < length rs. link_ok digest e rs i)"
proof (induction rs arbitrary: e)
  case (Cons r rs)
  have "(\<forall>i < length (r # rs). link_ok digest e (r # rs) i) \<longleftrightarrow>
      link_ok digest e (r # rs) 0 \<and> (\<forall>i < length rs. link_ok digest (ar_hash r) rs i)"
    by (auto simp: link_ok_def less_Suc_eq_0_disj nth_Cons' split: if_splits)
  with Cons show ?case by (auto simp: link_ok_def)
qed simp

lemma first_break_from_at:
  assumes "i < length rs" and "\<forall>j < i. link_ok digest e rs j" and "\<not> link_ok digest e rs i"
  shows "first_break_from digest e rs = Some (ar_sequence (rs ! i))"
proof -
  have "take i rs @ rs ! i # drop (Suc i) rs = rs" using assms(1) by (simp add: id_take_nth_drop [symmetric])
  moreover have "first_break_from digest e (take i rs) = None"
    using assms(1,2) by (auto simp: first_break_from_None link_ok_def)
  moreover have "i \<noteq> 0 \<Longrightarrow> last (take i rs) = rs ! (i - 1)" using assms(1) last_conv_nth [of "take i rs"] by (cases "rs = []") auto
  ultimately show ?thesis
    using assms(1,3) first_break_from_append [of digest e "take i rs" "rs ! i # drop (Suc i) rs"]
    by (auto simp: link_ok_def split: if_splits)
qed

section \<open>Messages\<close>

lemma length_prefix_length [simp]: "length (length_prefix s) = 8"
  by (simp add: length_prefix_def)

lemma length_prefix_inject: "length s < 2 ^ 64 \<Longrightarrow> length t < 2 ^ 64 \<Longrightarrow> length_prefix s = length_prefix t \<longleftrightarrow> length s = length t"
  using of_nat_u64_inject [of "length s" "length t"] by (simp add: length_prefix_def)

definition record_small :: "audit_record \<Rightarrow> bool" where
  "record_small r \<longleftrightarrow> length (ar_query r) < 2 ^ 64 \<and> length (ar_plan r) < 2 ^ 64"

text \<open>The hashed bytes have one reading: they determine every field but the hash.\<close>

lemma record_message_inject:
  assumes ok: "record_ok r" "record_ok s" and small: "record_small r" "record_small s"
    and eq: "record_message r = record_message s"
  shows "s = r\<lparr>ar_hash := ar_hash s\<rparr>"
proof -
  have l: "length (ar_previous r) = length (ar_previous s)" using ok by (simp add: record_ok_def)
  have 1: "ar_previous r = ar_previous s" and 2: "be64 (ar_sequence r) = be64 (ar_sequence s)"
    and q: "length_prefix (ar_query r) = length_prefix (ar_query s)"
    and rest: "ascii (ar_query r) @ length_prefix (ar_plan r) @ ascii (ar_plan r) @ be64 (ar_rows r)
      = ascii (ar_query s) @ length_prefix (ar_plan s) @ ascii (ar_plan s) @ be64 (ar_rows s)"
    using eq l by (simp_all add: record_message_def)
  have "length (ar_query r) = length (ar_query s)"
    using q small by (simp add: length_prefix_inject record_small_def)
  then have 3: "ar_query r = ar_query s" and p: "length_prefix (ar_plan r) = length_prefix (ar_plan s)"
    and rest': "ascii (ar_plan r) @ be64 (ar_rows r) = ascii (ar_plan s) @ be64 (ar_rows s)"
    using rest by simp_all
  have "length (ar_plan r) = length (ar_plan s)"
    using p small by (simp add: length_prefix_inject record_small_def)
  then have "ar_plan r = ar_plan s" "ar_rows r = ar_rows s" using rest' by simp_all
  with 1 2 3 show ?thesis by (cases r; cases s) simp
qed

lemma sealed_record_simps [simp]:
  "ar_sequence (sealed_record digest n p q l c) = n" "ar_previous (sealed_record digest n p q l c) = p"
  "ar_query (sealed_record digest n p q l c) = q" "ar_plan (sealed_record digest n p q l c) = l"
  "ar_rows (sealed_record digest n p q l c) = c"
  by (simp_all add: sealed_record_def Let_def)

lemma record_message_hash [simp]: "record_message (r\<lparr>ar_hash := h\<rparr>) = record_message r"
  by (simp add: record_message_def)

lemma sealed_record_hash [simp]: "ar_hash (sealed_record digest n p q l c) = recompute digest (sealed_record digest n p q l c)"
  by (simp add: sealed_record_def Let_def recompute_def record_message_def)

text \<open>SHA-256 yields thirty-two bytes.\<close>

definition digest_sized :: "(bytes \<Rightarrow> bytes) \<Rightarrow> bool" where
  "digest_sized digest \<longleftrightarrow> (\<forall>m. length (digest m) = HASH_LEN)"

lemma length_ANCHOR [simp]: "length ANCHOR = HASH_LEN"
  by (simp add: ANCHOR_def)

lemma sealed_record_ok: "digest_sized digest \<Longrightarrow> length p = HASH_LEN \<Longrightarrow> record_ok (sealed_record digest n p q l c)"
  by (simp add: record_ok_def digest_sized_def recompute_def)

lemma from_line_ok: "from_line l = Inr r \<Longrightarrow> record_ok r"
proof -
  have sized: "unhex_pairs s = Some bs \<Longrightarrow> length s = 2 * length bs" for s bs
    by (induction s arbitrary: bs rule: unhex_pairs.induct) (auto split: option.splits)
  assume "from_line l = Inr r"
  then obtain a b where "unhex a = Some (ar_previous r)" "unhex b = Some (ar_hash r)"
    by (auto simp: from_line_def rbind_Inr_iff split: prod.splits)
  then show ?thesis using sized [of a] sized [of b] by (auto simp: record_ok_def unhex_def split: if_splits)
qed

lemma parse_ok: "parse raw = Inr rs \<Longrightarrow> r \<in> set rs \<Longrightarrow> record_ok r"
proof -
  have "rmap from_line ls = Inr rs \<Longrightarrow> r \<in> set rs \<Longrightarrow> record_ok r" for ls
    by (induction ls arbitrary: rs) (auto simp: rbind_Inr_iff dest: from_line_ok)
  then show "parse raw = Inr rs \<Longrightarrow> r \<in> set rs \<Longrightarrow> record_ok r" by (simp add: parse_def)
qed

end
