(* ===== verification/Audit_Claims.thy ===== *)
theory Audit_Claims
  imports Audit_Proofs "HOL-Library.Sublist"
begin

text \<open>
  The properties of the audit log: what an appended log reads back as, that nothing ever shortens it,
  which tampering the chain shows and which it does not, and recovery by re-anchoring.
\<close>

section \<open>Appending\<close>

text \<open>A file system that works, and with it a release build, where a sequence number wraps.\<close>

definition calls_work :: "audit_env \<Rightarrow> bool" where
  "calls_work env \<longleftrightarrow> (\<forall>call. env_fault env call = None)"

definition sound_env :: "audit_env \<Rightarrow> bool" where
  "sound_env env \<longleftrightarrow> calls_work env \<and> \<not> env_checks env"

lemma working_call [simp]: "calls_work env \<Longrightarrow> try_call env call = Inr ()"
  by (simp add: calls_work_def try_call_def)

lemma sound_call [simp]: "sound_env env \<Longrightarrow> try_call env call = Inr ()"
  by (simp add: sound_env_def)

lemma sound_sequence [simp]:
  "sound_env env \<Longrightarrow> next_sequence env rs = Inr (if rs = [] then 0 else ar_sequence (last rs) + 1)"
  by (simp add: next_sequence_def sound_env_def)

lemma sound_write [simp]: "sound_env env \<Longrightarrow> write_line env content line = (Inr (), Some (content @ line))"
  by (simp add: write_line_def)

text \<open>A log that reads as the records \<open>rs\<close> and verifies.\<close>

definition log_ok :: "(bytes \<Rightarrow> bytes) \<Rightarrow> string option \<Rightarrow> audit_record list \<Rightarrow> bool" where
  "log_ok digest log_file rs \<longleftrightarrow>
     whole_lines (opened log_file) \<and> parse_file (opened log_file) = Inr rs \<and> first_break digest rs = None"

lemma log_ok_empty: "log_ok digest None []"
  by (simp add: log_ok_def opened_def whole_lines_def first_break_def parse_def)

text \<open>The record the next append writes.\<close>

definition next_record :: "(bytes \<Rightarrow> bytes) \<Rightarrow> audit_record list \<Rightarrow> string \<Rightarrow> string \<Rightarrow> u64 \<Rightarrow> audit_record" where
  "next_record digest rs query plan rows =
     (if rs = [] then sealed_record digest 0 ANCHOR query plan rows
      else sealed_record digest (ar_sequence (last rs) + 1) (ar_hash (last rs)) query plan rows)"

lemma next_record_simps [simp]:
  "ar_query (next_record digest rs q p n) = q" "ar_plan (next_record digest rs q p n) = p"
  "ar_previous (next_record digest rs q p n) = (if rs = [] then ANCHOR else ar_hash (last rs))"
  "ar_hash (next_record digest rs q p n) = recompute digest (next_record digest rs q p n)"
  by (simp_all add: next_record_def)

lemma append_writes:
  assumes "sound_env env" and "parse_file (opened log_file) = Inr rs" and "first_break digest rs = None"
  shows "audit_append env digest query plan rows log_file
    = (Inr (), Some (opened log_file @ to_line (next_record digest rs query plan rows)))"
  using assms by (simp add: audit_append_def next_record_def)

lemma next_record_ok:
  assumes "digest_sized digest" and "parse raw = Inr rs"
  shows "record_ok (next_record digest rs q p n)"
proof (cases "rs = []")
  case False
  then have "record_ok (last rs)" using parse_ok [OF assms(2)] by simp
  then show ?thesis using False assms(1) by (simp add: next_record_def sealed_record_ok record_ok_def [of "last rs"])
qed (simp add: next_record_def sealed_record_ok assms(1))

lemma append_keeps_log:
  assumes env: "sound_env env" and d: "digest_sized digest" and log: "log_ok digest log_file rs"
    and q: "take (length REANCHOR) query \<noteq> REANCHOR" and p: "plan = [] \<or> last plan \<noteq> carriage"
    and t: "utf8 query" "utf8 plan"
  obtains log_file' where "audit_append env digest query plan rows log_file = (Inr (), Some log_file')"
    and "log_ok digest (Some log_file') (rs @ [next_record digest rs query plan rows])"
proof -
  let ?r = "next_record digest rs query plan rows"
  have log': "whole_lines (opened log_file)" "parse_file (opened log_file) = Inr rs" "first_break digest rs = None"
    using log by (simp_all add: log_ok_def)
  have "parse (opened log_file) = Inr rs" using log'(2) by (simp add: parse_file_Inr)
  then have "record_ok ?r" by (rule next_record_ok [OF d])
  moreover have "line_safe ?r" using p by (simp add: line_safe_def)
  moreover have "text_record ?r" using t by (simp add: text_record_def)
  ultimately have "parse_file (opened log_file @ to_line ?r) = Inr (rs @ [?r])" by (rule parse_file_snoc [OF log'(1,2)])
  moreover have "first_break digest (rs @ [?r]) = None"
    by (rule first_break_snoc) (use q log'(3) in \<open>simp_all add: is_reanchor_def\<close>)
  ultimately show ?thesis
    by (intro that [OF append_writes [OF env log'(2,3)]]) (simp add: log_ok_def opened_def)
qed

fun append_all ::
  "audit_env \<Rightarrow> (bytes \<Rightarrow> bytes) \<Rightarrow> (string \<times> string \<times> u64) list \<Rightarrow> string option \<Rightarrow> (audit_error + unit) \<times> string option" where
  "append_all env digest [] log_file = (Inr (), log_file)"
| "append_all env digest ((query, plan, rows) # entries) log_file =
     (case audit_append env digest query plan rows log_file of
        (Inl e, log_file') \<Rightarrow> (Inl e, log_file')
      | (Inr _, log_file') \<Rightarrow> append_all env digest entries log_file')"

fun chain_of :: "(bytes \<Rightarrow> bytes) \<Rightarrow> audit_record list \<Rightarrow> (string \<times> string \<times> u64) list \<Rightarrow> audit_record list" where
  "chain_of digest rs [] = rs"
| "chain_of digest rs ((query, plan, rows) # entries) =
     chain_of digest (rs @ [next_record digest rs query plan rows]) entries"

text \<open>
  Entries the log keeps: two strings, the query not one that poses as a re-anchoring, the plan not one
  that ends in a carriage return.
\<close>

definition plain_entry :: "string \<times> string \<times> u64 \<Rightarrow> bool" where
  "plain_entry entry =
     (case entry of (query, plan, rows) \<Rightarrow>
        utf8 query \<and> utf8 plan \<and> take (length REANCHOR) query \<noteq> REANCHOR \<and> (plan = [] \<or> last plan \<noteq> carriage))"

lemma append_all_keeps_log:
  assumes "sound_env env" and "digest_sized digest" and "log_ok digest log_file rs" and "list_all plain_entry entries"
  shows "\<exists>log_file'. append_all env digest entries log_file = (Inr (), log_file') \<and> log_ok digest log_file' (chain_of digest rs entries)"
  using assms(3,4)
proof (induction entries arbitrary: log_file rs)
  case Nil
  then show ?case by simp
next
  case (Cons e entries)
  obtain query plan rows where e: "e = (query, plan, rows)" by (cases e)
  have "take (length REANCHOR) query \<noteq> REANCHOR" "plan = [] \<or> last plan \<noteq> carriage" "utf8 query" "utf8 plan"
    using Cons.prems(2) by (simp_all add: e plain_entry_def)
  then obtain log_file' where "audit_append env digest query plan rows log_file = (Inr (), Some log_file')"
    "log_ok digest (Some log_file') (rs @ [next_record digest rs query plan rows])"
    by (rule append_keeps_log [OF assms(1,2) Cons.prems(1)])
  with Cons.IH Cons.prems(2) show ?case by (simp add: e)
qed

lemma chain_of_fields:
  "map (\<lambda>r. (ar_query r, ar_plan r, ar_rows r)) (chain_of digest rs entries)
     = map (\<lambda>r. (ar_query r, ar_plan r, ar_rows r)) rs @ entries"
  by (induction digest rs entries rule: chain_of.induct) (simp_all add: next_record_def)

lemma chain_of_sequence:
  assumes "map ar_sequence rs = map word_of_nat [0..<length rs]"
  shows "map ar_sequence (chain_of digest rs entries) = map word_of_nat [0..<length rs + length entries]"
  using assms
proof (induction digest rs entries rule: chain_of.induct)
  case (2 digest rs query plan rows entries)
  let ?r = "next_record digest rs query plan rows"
  have "ar_sequence ?r = word_of_nat (length rs)"
  proof (cases rs rule: rev_cases)
    case (snoc ys y)
    then have "ar_sequence y = word_of_nat (length ys)" using "2.prems" by simp
    then show ?thesis by (simp add: snoc next_record_def add.commute)
  qed (simp add: next_record_def)
  then have "map ar_sequence (rs @ [?r]) = map word_of_nat [0..<length (rs @ [?r])]" using "2.prems" by simp
  from "2.IH" [OF this] show ?case by simp
qed simp

text \<open>A digest for the witnesses: a one and the last bytes of the message, backwards.\<close>

definition demo_digest :: "bytes \<Rightarrow> bytes" where
  "demo_digest m = 1 # take 31 (rev m @ replicate 31 0)"

lemma demo_digest_sized: "digest_sized demo_digest"
  by (auto simp: digest_sized_def demo_digest_def HASH_LEN_def)

lemma demo_digest_rows:
  assumes "demo_digest (record_message r) = demo_digest (record_message s)"
  shows "ar_rows r = ar_rows s"
proof -
  have "take 8 (tl (demo_digest (record_message r))) = le64 (ar_rows r)" for r
    by (simp add: demo_digest_def record_message_def be64_def)
  then show ?thesis using assms by (metis le64_inject)
qed

lemma demo_digest_anchor: "demo_digest m \<noteq> ANCHOR"
  by (simp add: demo_digest_def ANCHOR_def HASH_LEN_def Cons_eq_append_conv numeral_eq_Suc)

definition demo_env :: audit_env where
  "demo_env = \<lparr>env_fault = \<lambda>_. None, env_torn = 0, env_checks = False\<rparr>"

lemma demo_env_sound: "sound_env demo_env"
  by (simp add: sound_env_def calls_work_def demo_env_def)

definition demo_entries :: "(string \<times> string \<times> u64) list" where
  "demo_entries = [(''scan notes'', ''a\<newline>b'', 3), (''delete notes'', [], 1)]"



text \<open>C18: nothing shortens the log. Whatever the file holds and whichever call fails, appending and
  re-anchoring leave every byte that was there in place and write after them at most; an append that
  cannot read the file as records writes nothing, one that finds the chain broken writes nothing and
  names the first broken link, and one that finds the numbers used up writes nothing in a build with
  overflow checks.\<close>

theorem log_is_append_only:
  "prefix (opened log_file) (opened (snd (audit_append env digest query plan rows log_file))) \<and>
   prefix (opened log_file) (opened (snd (audit_reanchor env digest log_file))) \<and>
   (calls_work env \<longrightarrow>
      (case parse_file (opened log_file) of
         Inl e \<Rightarrow> audit_append env digest query plan rows log_file = (Inl e, Some (opened log_file))
       | Inr records \<Rightarrow>
           (case first_break digest records of
              Some at \<Rightarrow> audit_append env digest query plan rows log_file = (Inl (BrokenChain at), Some (opened log_file))
            | None \<Rightarrow>
                if env_checks env \<and> records \<noteq> [] \<and> ar_sequence (last records) = - 1
                then audit_append env digest query plan rows log_file = (Inl AddOverflow, Some (opened log_file))
                else fst (audit_append env digest query plan rows log_file) = Inr ())))"
proof -
  have w: "prefix content (opened (snd (write_line env content line)))" for content line
    by (auto simp: write_line_def opened_def split: sum.split)
  have o: "prefix (opened log_file) (opened (Some (opened log_file)))" by (simp add: opened_def)
  have "prefix (opened log_file) (opened (snd (audit_append env digest query plan rows log_file)))"
    using w o by (auto simp: audit_append_def Let_def split: sum.split option.split)
  moreover have "prefix (opened log_file) (opened (snd (audit_reanchor env digest log_file)))"
    using w o by (auto simp: audit_reanchor_def audit_write_def Let_def split: sum.split option.split)
  moreover have "fst (write_line env content line) = Inr ()" if "calls_work env" for content line
    using that by (simp add: write_line_def)
  ultimately show ?thesis
    by (auto simp: audit_append_def next_sequence_def Let_def split: sum.split option.split)
qed

theorem log_is_append_only_witness:
  "fst (audit_append demo_env demo_digest ''scan notes'' [] 3 None) = Inr ()"
  using log_is_append_only [of None demo_env demo_digest "''scan notes''" "[]" 3] demo_env_sound
  by (simp add: opened_def first_break_def sound_env_def)

section \<open>Tampering\<close>

text \<open>
  The messages of the records in play have different digests, none of them the anchor, as SHA-256 is
  relied on to provide.
\<close>

definition digest_separates :: "(bytes \<Rightarrow> bytes) \<Rightarrow> audit_record set \<Rightarrow> bool" where
  "digest_separates digest rs \<longleftrightarrow>
     inj_on digest (record_message ` rs) \<and> (\<forall>r \<in> rs. digest (record_message r) \<noteq> ANCHOR)"

lemma separated:
  assumes "digest_separates digest S" and "r \<in> S" and "s \<in> S" and "recompute digest r = recompute digest s"
  shows "record_message r = record_message s"
  using assms by (auto simp: digest_separates_def recompute_def dest: inj_onD)

lemma not_anchor: "digest_separates digest S \<Longrightarrow> r \<in> S \<Longrightarrow> recompute digest r \<noteq> ANCHOR"
  by (simp add: digest_separates_def recompute_def)

text \<open>Verified chains agree backwards from records with one hash.\<close>

lemma chains_agree:
  assumes d: "digest_separates digest (set xs \<union> set ys)"
    and small: "\<forall>r \<in> set xs \<union> set ys. record_ok r \<and> record_small r"
    and x: "first_break_from digest ANCHOR xs = None" and y: "first_break_from digest ANCHOR ys = None"
    and h: "xs \<noteq> []" "ys \<noteq> []" "ar_hash (last xs) = ar_hash (last ys)"
  shows "xs = ys"
  using assms
proof (induction xs arbitrary: ys rule: rev_induct)
  case (snoc r xs)
  from snoc.prems(6) obtain zs s where ys: "ys = zs @ [s]" by (metis rev_exhaust)
  have rs: "ar_hash r = recompute digest r" "ar_previous r = (if xs = [] then ANCHOR else ar_hash (last xs))"
    "first_break_from digest ANCHOR xs = None"
    using snoc.prems(3) by (auto simp: first_break_from_append split: option.splits if_splits)
  have ss: "ar_hash s = recompute digest s" "ar_previous s = (if zs = [] then ANCHOR else ar_hash (last zs))"
    "first_break_from digest ANCHOR zs = None"
    using snoc.prems(4) by (auto simp: ys first_break_from_append split: option.splits if_splits)
  have hash: "ar_hash r = ar_hash s" using snoc.prems(7) by (simp add: ys)
  then have "record_message r = record_message s"
    using separated [OF snoc.prems(1), of r s] rs(1) ss(1) by (simp add: ys)
  then have "s = r\<lparr>ar_hash := ar_hash s\<rparr>"
    using snoc.prems(2) by (intro record_message_inject) (simp_all add: ys)
  then have eq: "s = r" using hash by (metis (no_types, lifting) audit_record.surjective audit_record.update_convs(6))
  have anchored: "ar_hash (last us) \<noteq> ANCHOR" if "us \<noteq> []" "first_break_from digest ANCHOR us = None"
      "set us \<subseteq> set (xs @ [r]) \<union> set ys" for us
  proof -
    have "link_ok digest ANCHOR us (length us - 1)" using that(1,2) by (simp add: first_break_from_None)
    then have "ar_hash (last us) = recompute digest (last us)" using that(1) by (simp add: link_ok_def last_conv_nth)
    moreover have "last us \<in> set (xs @ [r]) \<union> set ys" using that(1,3) last_in_set by blast
    ultimately show ?thesis using not_anchor [OF snoc.prems(1)] by metis
  qed
  have both: "xs = [] \<longleftrightarrow> zs = []"
    using rs(2,3) ss(2,3) eq anchored [of xs] anchored [of zs] by (auto simp: ys split: if_splits)
  show ?case
  proof (cases "xs = []")
    case True
    then show ?thesis using both eq ys by simp
  next
    case False
    then have "zs \<noteq> []" using both by simp
    have "xs = zs"
    proof (rule snoc.IH [OF _ _ rs(3) ss(3) False \<open>zs \<noteq> []\<close>])
      show "digest_separates digest (set xs \<union> set zs)"
        using snoc.prems(1) unfolding digest_separates_def ys by (auto intro: inj_on_subset)
      show "\<forall>r \<in> set xs \<union> set zs. record_ok r \<and> record_small r" using snoc.prems(2) by (simp add: ys)
      show "ar_hash (last xs) = ar_hash (last zs)" using rs(2) ss(2) eq False \<open>zs \<noteq> []\<close> by simp
    qed
    then show ?thesis using eq ys by simp
  qed
qed simp

text \<open>C19: the last hash commits to the whole chain. Two chains that both verify and end in the same hash
  are the same chain, record by record, so an operator who knows the head of a log notices every
  rewriting of it, however carefully the hashes were recomputed.\<close>

theorem last_hash_commits:
  assumes "digest_separates digest (set xs \<union> set ys)"
    and "\<forall>r \<in> set xs \<union> set ys. record_ok r \<and> record_small r"
    and "\<not> list_ex is_reanchor xs" and "\<not> list_ex is_reanchor ys"
    and "first_break digest xs = None" and "first_break digest ys = None"
    and "xs \<noteq> []" and "ys \<noteq> []" and "ar_hash (last xs) = ar_hash (last ys)"
  shows "xs = ys"
  using chains_agree [OF assms(1,2) _ _ assms(7-9)] assms(3-6) by (simp add: first_break_def current_chain_all)

lemma demo_separates: "inj_on ar_rows S \<Longrightarrow> digest_separates demo_digest S"
  using demo_digest_anchor demo_digest_rows unfolding digest_separates_def
  by (auto intro!: inj_onI) (metis inj_onD)

theorem last_hash_commits_witness:
  "chain_of demo_digest [] [(''scan notes'', [], 3)] = [sealed_record demo_digest 0 ANCHOR ''scan notes'' [] 3]"
proof -
  show ?thesis
    by (rule last_hash_commits [of demo_digest])
      (simp_all add: next_record_def demo_separates sealed_record_ok demo_digest_sized record_small_def is_reanchor_def REANCHOR_def first_break_def)
qed

lemma demo_chain:
  obtains a b where "chain_of demo_digest [] demo_entries = [a, b]" and "first_break demo_digest [a, b] = None"
    and "record_ok a" and "record_ok b" and "ar_sequence a = 0" and "ar_sequence b = 1" and "ar_rows a = 3" and "ar_rows b = 1"
    and "\<not> is_reanchor a" and "\<not> is_reanchor b" and "record_small a" and "record_small b"
    and "ar_plan b = []" and "text_record b"
proof -
  define rs where "rs = chain_of demo_digest [] demo_entries"
  have fields: "map (\<lambda>r. (ar_query r, ar_plan r, ar_rows r)) rs = demo_entries"
    using chain_of_fields [of demo_digest "[]" demo_entries] by (simp add: rs_def)
  have seqs: "map ar_sequence rs = [0, 1]"
    using chain_of_sequence [of "[]" demo_digest demo_entries] by (simp add: rs_def demo_entries_def upt_rec)
  have "length rs = 2" using arg_cong [OF seqs, of length] by simp
  then obtain a b where rs: "rs = [a, b]" by (auto simp: length_Suc_conv numeral_2_eq_2)
  have "list_all plain_entry demo_entries" by (simp add: demo_entries_def plain_entry_def REANCHOR_def)
  then obtain f where f: "log_ok demo_digest f rs"
    using append_all_keeps_log [OF demo_env_sound demo_digest_sized log_ok_empty] unfolding rs_def by blast
  then have fb: "first_break demo_digest rs = None" and ok: "\<forall>r \<in> set rs. record_ok r"
    using parse_ok unfolding log_ok_def parse_file_Inr by blast+
  show ?thesis
    by (rule that [of a b])
      (use fields seqs fb ok rs in \<open>auto simp: rs_def demo_entries_def is_reanchor_def REANCHOR_def record_small_def text_record_def\<close>)
qed

text \<open>An altered entry is found where it was altered. Changing the text, the row count, the number or
  the predecessor of a record of a verified chain, and leaving its hash, is reported at that very
  record.\<close>

theorem altered_record_detected:
  assumes rs: "first_break digest rs = None" "\<not> list_ex is_reanchor rs" and i: "i < length rs"
    and r': "ar_hash r' = ar_hash (rs ! i)" "r' \<noteq> rs ! i" "\<not> is_reanchor r'"
    and small: "record_ok r'" "record_small r'" "record_ok (rs ! i)" "record_small (rs ! i)"
    and d: "digest_separates digest {rs ! i, r'}"
  shows "first_break digest (rs[i := r']) = Some (ar_sequence r')"
proof -
  have links: "link_ok digest ANCHOR rs j" if "j < length rs" for j
    using rs that by (simp add: first_break_def current_chain_all first_break_from_None)
  have "ar_hash r' \<noteq> recompute digest r'"
  proof
    assume "ar_hash r' = recompute digest r'"
    then have "recompute digest r' = recompute digest (rs ! i)" using r'(1) links [OF i] by (simp add: link_ok_def)
    then have "record_message r' = record_message (rs ! i)" by (rule separated [OF d, rotated 2]) simp_all
    then have "rs ! i = r'\<lparr>ar_hash := ar_hash (rs ! i)\<rparr>" by (rule record_message_inject [OF small(1,3,2,4)])
    then have "rs ! i = r'" using r'(1) by (metis (no_types, lifting) audit_record.surjective audit_record.update_convs(6))
    then show False using r'(2) by simp
  qed
  then have "\<not> link_ok digest ANCHOR (rs[i := r']) i" using i by (simp add: link_ok_def)
  moreover have "\<forall>j < i. link_ok digest ANCHOR (rs[i := r']) j" using links i by (auto simp: link_ok_def)
  ultimately have "first_break_from digest ANCHOR (rs[i := r']) = Some (ar_sequence (rs[i := r'] ! i))"
    using i by (intro first_break_from_at) simp_all
  moreover have "\<not> list_ex is_reanchor (rs[i := r'])"
    using rs(2) r'(3) set_update_subset_insert [of rs i r'] by (auto simp: list_ex_iff)
  ultimately show ?thesis using i by (simp add: first_break_def current_chain_all)
qed

theorem altered_record_detected_witness:
  "let rs = chain_of demo_digest [] demo_entries in
   first_break demo_digest (rs[1 := (rs ! 1)\<lparr>ar_rows := 0\<rparr>]) = Some 1"
proof -
  obtain a b where rs: "chain_of demo_digest [] demo_entries = [a, b]" and fb: "first_break demo_digest [a, b] = None"
    and ok: "record_ok a" "record_ok b" "record_small b" and seq: "ar_sequence b = 1"
    and rows: "ar_rows b = 1" and nr: "\<not> is_reanchor a" "\<not> is_reanchor b" by (rule demo_chain)
  have ne: "b\<lparr>ar_rows := 0\<rparr> \<noteq> b" using rows by (metis audit_record.select_convs(5) audit_record.surjective audit_record.update_convs(5) zero_neq_one)
  have "first_break demo_digest ([a, b][1 := b\<lparr>ar_rows := 0\<rparr>]) = Some (ar_sequence (b\<lparr>ar_rows := 0\<rparr>))"
  proof (rule altered_record_detected [OF fb])
    show "digest_separates demo_digest {[a, b] ! 1, b\<lparr>ar_rows := 0\<rparr>}"
      by (rule demo_separates) (auto simp: rows)
  qed (use ok nr ne in \<open>simp_all add: record_ok_def record_small_def is_reanchor_def\<close>)
  then show ?thesis by (simp add: rs seq)
qed

text \<open>C34: a removed entry shows unless it was the last. Taking one record out of a verified chain is
  reported at the record after it; taking out the last one leaves a chain that verifies, so a
  log that lost its newest entries is indistinguishable from one that never had them.\<close>

theorem removed_record_detected:
  assumes rs: "first_break digest rs = None" "\<not> list_ex is_reanchor rs" and i: "i < length rs"
    and d: "digest_separates digest (set rs)" and ok: "\<forall>r \<in> set rs. record_ok r \<and> record_small r"
    and seq: "distinct (map ar_sequence rs)"
  shows "first_break digest (take i rs @ drop (Suc i) rs)
    = (if Suc i = length rs then None else Some (ar_sequence (rs ! Suc i)))"
proof -
  let ?cut = "take i rs @ drop (Suc i) rs"
  have links: "link_ok digest ANCHOR rs j" if "j < length rs" for j
    using rs that by (simp add: first_break_def current_chain_all first_break_from_None)
  have same: "?cut ! j = rs ! j" if "j < i" for j using that i by (simp add: nth_append)
  have before: "\<forall>j < i. link_ok digest ANCHOR ?cut j"
    using links i same by (auto simp: link_ok_def)
  have "\<not> list_ex is_reanchor ?cut" using rs(2) by (auto simp: list_ex_iff dest: in_set_takeD in_set_dropD)
  then have chain: "first_break digest ?cut = first_break_from digest ANCHOR ?cut"
    by (simp add: first_break_def current_chain_all)
  show ?thesis
  proof (cases "Suc i = length rs")
    case True
    then show ?thesis using before chain i by (simp add: first_break_from_None)
  next
    case False
    have at: "?cut ! i = rs ! Suc i" using False i by (simp add: nth_append)
    have "ar_hash (rs ! i) \<noteq> (if i = 0 then ANCHOR else ar_hash (rs ! (i - 1)))"
    proof
      assume eq: "ar_hash (rs ! i) = (if i = 0 then ANCHOR else ar_hash (rs ! (i - 1)))"
      have hi: "ar_hash (rs ! i) = recompute digest (rs ! i)" using links [OF i] by (simp add: link_ok_def)
      show False
      proof (cases "i = 0")
        case True
        then show False using eq hi not_anchor [OF d, of "rs ! i"] i by simp
      next
        case False
        then have p: "i - 1 < length rs" "i - 1 \<noteq> i" using i by simp_all
        have "recompute digest (rs ! i) = recompute digest (rs ! (i - 1))"
          using eq hi links [OF p(1)] False by (simp add: link_ok_def)
        then have "record_message (rs ! i) = record_message (rs ! (i - 1))"
          using i p(1) by (intro separated [OF d]) simp_all
        then have m: "rs ! (i - 1) = (rs ! i)\<lparr>ar_hash := ar_hash (rs ! (i - 1))\<rparr>"
          using ok i p(1) by (intro record_message_inject) simp_all
        have "ar_sequence (rs ! (i - 1)) = ar_sequence (rs ! i)" by (subst m) simp
        then show False using seq i p by (simp add: distinct_conv_nth)
      qed
    qed
    moreover have "ar_previous (rs ! Suc i) = ar_hash (rs ! i)"
      using links [of "Suc i"] False i by (simp add: link_ok_def)
    ultimately have "\<not> link_ok digest ANCHOR ?cut i" using at same i by (auto simp: link_ok_def split: if_splits)
    then have "first_break_from digest ANCHOR ?cut = Some (ar_sequence (?cut ! i))"
      using False i before by (intro first_break_from_at) simp_all
    then show ?thesis using at chain False by simp
  qed
qed

theorem removed_record_detected_witness:
  "let rs = chain_of demo_digest [] demo_entries in
   first_break demo_digest (take 0 rs @ drop 1 rs) = Some 1 \<and> first_break demo_digest (take 1 rs @ drop 2 rs) = None"
proof -
  obtain a b where rs: "chain_of demo_digest [] demo_entries = [a, b]" and fb: "first_break demo_digest [a, b] = None"
    and ok: "record_ok a" "record_ok b" "record_small a" "record_small b" and seq: "ar_sequence a = 0" "ar_sequence b = 1"
    and rows: "ar_rows a = 3" "ar_rows b = 1" and nr: "\<not> is_reanchor a" "\<not> is_reanchor b" by (rule demo_chain)
  have "digest_separates demo_digest (set [a, b])" by (rule demo_separates) (auto simp: rows)
  then have "first_break demo_digest (take i [a, b] @ drop (Suc i) [a, b])
      = (if Suc i = length [a, b] then None else Some (ar_sequence ([a, b] ! Suc i)))" if "i < 2" for i
    using that fb ok seq nr by (intro removed_record_detected) simp_all
  from this [of 0] this [of 1] show ?thesis by (simp add: rs seq Let_def numeral_2_eq_2)
qed

section \<open>Recovery\<close>



section \<open>Where the line format loses\<close>

lemma escape_append: "escape (s @ t) = escape s @ escape t"
  by (induction s) auto

lemma carriage_lost:
  assumes w: "whole_lines content" and p: "parse_file content = Inr rs" and ok: "record_ok r" and plan: "ar_plan r = plan @ [carriage]"
    and safe: "plan = [] \<or> last plan \<noteq> carriage" and strs: "text_record r"
  shows "parse_file (content @ to_line r) = Inr (rs @ [r\<lparr>ar_plan := plan\<rparr>])"
proof -
  let ?s = "r\<lparr>ar_plan := plan\<rparr>"
  have body: "line_body r = line_body ?s @ [carriage]"
    using plan by (simp add: line_body_def escape_append)
  have "strip_carriage (line_body r) = line_body ?s" by (simp add: body strip_carriage_def)
  then have "lines_of (to_line r) = [line_body ?s]" by (simp add: to_line_body lines_of_line)
  moreover have "record_ok ?s" using ok by (simp add: record_ok_def)
  ultimately have "parse (to_line r) = Inr [?s]" by (simp add: parse_def from_line_body)
  then show ?thesis using p utf8_to_line [OF strs] by (simp add: parse_file_Inr parse_append [OF w])
qed

text \<open>
  A plan that ends in a carriage return breaks the log: the append succeeds, but the line is read back
  without the carriage return, its hash no longer fits, and every later append is refused. The escape
  covers the line feed only, while reading lines drops a carriage return before it.
\<close>

lemma carriage_append_breaks:
  assumes env: "sound_env env" and d: "digest_sized digest" and log: "log_ok digest log_file rs"
    and q: "take (length REANCHOR) query \<noteq> REANCHOR" and safe: "plan = [] \<or> last plan \<noteq> carriage"
    and small: "length query < 2 ^ 64" "length plan + 1 < 2 ^ 64" and strs: "utf8 query" "utf8 plan"
    and r: "r = next_record digest rs query (plan @ [carriage]) rows"
    and sep: "digest_separates digest {r, r\<lparr>ar_plan := plan\<rparr>}"
  shows "\<exists>content. audit_append env digest query (plan @ [carriage]) rows log_file = (Inr (), Some content) \<and>
     audit_verify env digest (Some content) = Inl (BrokenChain (ar_sequence r)) \<and>
     (\<forall>query' plan' rows'. audit_append env digest query' plan' rows' (Some content)
        = (Inl (BrokenChain (ar_sequence r)), Some content))"
proof -
  let ?s = "r\<lparr>ar_plan := plan\<rparr>" and ?content = "opened log_file @ to_line r"
  have log': "whole_lines (opened log_file)" "parse_file (opened log_file) = Inr rs" "first_break digest rs = None"
    using log by (simp_all add: log_ok_def)
  have "parse (opened log_file) = Inr rs" using log'(2) by (simp add: parse_file_Inr)
  then have ok: "record_ok r" unfolding r by (rule next_record_ok [OF d])
  have fields: "ar_plan r = plan @ [carriage]" "ar_query r = query" "ar_hash r = recompute digest r" by (simp_all add: r)
  have "text_record r" using strs by (simp add: text_record_def fields)
  then have parsed: "parse_file ?content = Inr (rs @ [?s])" by (rule carriage_lost [OF log'(1,2) ok fields(1) safe])
  have "recompute digest r \<noteq> recompute digest ?s"
  proof
    assume "recompute digest r = recompute digest ?s"
    then have "record_message r = record_message ?s" by (rule separated [OF sep, rotated 2]) simp_all
    then have "?s = r\<lparr>ar_hash := ar_hash ?s\<rparr>"
      using ok fields small by (intro record_message_inject) (simp_all add: record_ok_def record_small_def)
    then have "ar_plan ?s = ar_plan (r\<lparr>ar_hash := ar_hash ?s\<rparr>)" by (rule arg_cong)
    then show False using fields by simp
  qed
  then have "first_break digest (rs @ [?s]) = Some (ar_sequence r)"
    using log'(3) fields q by (simp add: first_break_def current_chain_snoc is_reanchor_def first_break_from_append)
  moreover have "audit_append env digest query (plan @ [carriage]) rows log_file = (Inr (), Some ?content)"
    unfolding r by (rule append_writes [OF env log'(2,3)])
  ultimately show ?thesis
    using env parsed by (auto simp: audit_verify_def audit_records_def audit_append_def opened_def)
qed

lemma length_split_on: "length (split_on c s) = Suc (length (filter ((=) c) s))"
  by (induction s) (auto split: list.split)

lemma filter_absent: "c \<notin> set s \<Longrightarrow> filter ((=) c) s = []"
  by (induction s) auto

lemma from_line_short:
  assumes "length (filter ((=) tab) l) < 5"
  shows "\<exists>reason. from_line l = Inl (Malformed reason)"
proof -
  have next_field: "next_field reason fs = Inl e \<Longrightarrow> \<exists>why. e = Malformed why" for reason fs e
    by (cases fs) auto
  have fields: "next_field reason fs = Inr (f, rest) \<longleftrightarrow> fs = f # rest" for reason fs f rest
    by (cases fs) auto
  have "\<exists>reason. e = Malformed reason" if "from_line l = Inl e" for e
    using that by (auto simp: from_line_def fields dest: next_field split: prod.splits elim!: rbind_InlE)
  moreover have "from_line l \<noteq> Inr r" for r
  proof
    assume "from_line l = Inr r"
    then have "6 \<le> length (split_on tab l)"
      by (auto simp: from_line_def rbind_Inr_iff fields split: prod.splits)
    then show False using assms by (simp add: length_split_on)
  qed
  ultimately show ?thesis by (cases "from_line l") auto
qed

lemma torn_parse:
  assumes w: "whole_lines content" and p: "parse_file content = Inr rs" and l: "l \<noteq> []" "newline \<notin> set l"
    and tabs: "length (filter ((=) tab) l) < 5"
  obtains e where "parse_file (content @ l) = Inl e"
    and "if utf8 l then \<exists>reason. e = Malformed reason else e = Unavailable NOT_UTF8"
proof -
  have c: "utf8 content" "parse content = Inr rs" using p by (simp_all add: parse_file_Inr)
  have "parse l = rbind (from_line l) (\<lambda>r. Inr [r])" using l by (simp add: parse_def lines_of_def)
  then obtain reason where "parse (content @ l) = Inl (Malformed reason)"
    using from_line_short [OF tabs] by (auto simp: parse_append [OF w] c)
  then show ?thesis
    by (intro that [of "if utf8 l then Malformed reason else Unavailable NOT_UTF8"])
      (simp_all add: parse_file_def decode_text_def c)
qed



text \<open>
  A log torn inside its last field is out of reach of re-anchoring: the torn line still reads as a record,
  so the chain counts as broken there, but the anchor is written onto that line, and no record of it is
  ever read. The records have the queries they had.
\<close>

lemma split_on_glued:
  "split_on c (l @ m) = butlast (split_on c l) @ (last (split_on c l) @ hd (split_on c m)) # tl (split_on c m)"
proof (induction l)
  case Nil
  then show ?case by (cases "split_on c m") simp_all
next
  case (Cons x l)
  then show ?case by (cases "split_on c l") (auto split: list.split)
qed

lemma from_line_glued:
  assumes "from_line l = Inr r"
  shows "\<exists>plan. from_line (l @ m) = Inr (r\<lparr>ar_plan := plan\<rparr>)"
proof -
  have fields: "next_field reason fs = Inr (f, rest) \<longleftrightarrow> fs = f # rest" for reason fs f rest
    by (cases fs) auto
  from assms obtain f1 f2 f3 f4 f5 f6 more where split: "split_on tab l = f1 # f2 # f3 # f4 # f5 # f6 # more"
    by (auto simp: from_line_def rbind_Inr_iff fields split: prod.splits)
  then obtain f6' more' where "split_on tab (l @ m) = f1 # f2 # f3 # f4 # f5 # f6' # more'"
    unfolding split_on_glued by (cases more) auto
  then show ?thesis using assms by (auto simp: from_line_def rbind_Inr_iff split)
qed

lemma glued_anchor:
  assumes env: "sound_env env" and w: "whole_lines whole" and l: "newline \<notin> set l" "l \<noteq> []"
    and p: "parse_file (whole @ l) = Inr rs" and broken: "first_break digest rs = Some at"
  shows "\<exists>content rs'. audit_reanchor env digest (Some (whole @ l)) = (Inr (), Some content) \<and>
     parse_file content = Inr rs' \<and> map ar_query rs' = map ar_query rs"
proof -
  define anchor where "anchor = sealed_record digest (if rs = [] then 0 else ar_sequence (last rs) + 1) ANCHOR
    (REANCHOR @ show_nat (unat at)) [] 0"
  let ?content = "(whole @ l) @ to_line anchor"
  have "text_record anchor" by (simp add: anchor_def text_record_def REANCHOR_def)
  then have u: "utf8 ?content"
    using p utf8_to_line utf8_append [of "whole @ l" "to_line anchor"] by (simp add: parse_file_Inr del: append_assoc)
  have "parse l = rbind (from_line l) (\<lambda>r. Inr [r])" using l by (simp add: parse_def lines_of_def)
  then obtain rs0 r where rs: "rs = rs0 @ [r]" "parse whole = Inr rs0" "from_line l = Inr r"
    using p by (auto simp: parse_file_Inr parse_append [OF w] rbind_Inr_iff)
  obtain plan where glued: "from_line (l @ line_body anchor) = Inr (r\<lparr>ar_plan := plan\<rparr>)"
    using from_line_glued [OF rs(3)] by blast
  have "ar_plan anchor = []" by (simp add: anchor_def)
  then have "last (line_body anchor) \<noteq> carriage" by (simp add: line_body_def)
  then have "lines_of (l @ to_line anchor) = [l @ line_body anchor]"
    using lines_of_line [of "l @ line_body anchor" "[]"] l(1) by (simp add: to_line_body strip_carriage_id)
  then have "parse (l @ to_line anchor) = Inr [r\<lparr>ar_plan := plan\<rparr>]" using l(2) glued by (simp add: parse_def)
  then have "parse_file ?content = Inr (rs0 @ [r\<lparr>ar_plan := plan\<rparr>])"
    using u rs(2) by (simp add: parse_file_Inr parse_append [OF w])
  moreover have "audit_reanchor env digest (Some (whole @ l)) = (Inr (), Some ?content)"
    using env p by (simp add: audit_reanchor_def audit_records_def broken audit_write_def anchor_def opened_def)
  ultimately show ?thesis using rs(1) by auto
qed

end
