(* ===== verification/Store_Commands.thy ===== *)
theory Store_Commands
  imports Store_Operations Audit_Claims
begin

text \<open>
  The public operations of the store as commands, the authority each needs, and what each leaves alone.
\<close>

section \<open>Commands\<close>

datatype command =
    CreateTable string "data_type table_definition"
  | AppendBatch string batch
  | UpdateRows string predicate "assignment list"
  | DeleteRows string predicate
  | DropTable string
  | Scan string
  | ScanOrdered string predicate string order
  | ScanOrderedMeasured string predicate string order
  | RowIds string predicate
  | RowIdsMeasured string predicate
  | RowIdsAll string predicate "predicate list"
  | RowIdsAny string predicate "predicate list"
  | CreateIndex string string
  | VectorsOf string string
  | CreateVectorIndex string string vector_index_kind
  | Nearest string string "f32 list" nat
  | CreateTextIndex string string stemming_language
  | SearchText string string string nat
  | HybridSearch string string string "f32 list" nat
  | VectorIndexKind string string
  | NearestUsesTheIndex string string "f32 list" nat

definition discard :: "('s, 'e, 'a) act \<Rightarrow> ('s, 'e, unit) act" where
  "discard m = act_bind m (\<lambda>_. act_ok ())"

fun run_command :: "('w, 'ds, 'sc, 'ub, 't) services \<Rightarrow> store \<Rightarrow> command \<Rightarrow> ('w world, db_error, unit) act" where
  "run_command E st (CreateTable t d) = create_table E st t d"
| "run_command E st (AppendBatch t b) = append_batch E st t b"
| "run_command E st (UpdateRows t p as) = discard (update_rows E st t p as)"
| "run_command E st (DeleteRows t p) = discard (delete_rows E st t p)"
| "run_command E st (DropTable t) = drop_table E st t"
| "run_command E st (Scan t) = discard (scan E st t)"
| "run_command E st (ScanOrdered t p by order) = discard (scan_ordered E st t p by order)"
| "run_command E st (ScanOrderedMeasured t p by order) = discard (scan_ordered_measured E st t p by order)"
| "run_command E st (RowIds t p) = discard (row_ids E st t p)"
| "run_command E st (RowIdsMeasured t p) = discard (row_ids_measured E st t p)"
| "run_command E st (RowIdsAll t p ps) = discard (row_ids_all E st t (p # ps))"
| "run_command E st (RowIdsAny t p ps) = discard (row_ids_any E st t (p # ps))"
| "run_command E st (CreateIndex t c) = create_index E st t c"
| "run_command E st (VectorsOf t c) = discard (vectors_of E st t c)"
| "run_command E st (CreateVectorIndex t c kind) = create_vector_index E st t c kind"
| "run_command E st (Nearest t c q n) = discard (nearest E st t c q n)"
| "run_command E st (CreateTextIndex t c l) = create_text_index E st t c l"
| "run_command E st (SearchText t c q n) = discard (search_text E st t c q n)"
| "run_command E st (HybridSearch t c q v n) = discard (hybrid_search E st t c q v n)"
| "run_command E st (VectorIndexKind t c) = discard (vector_index_kind_of E st t c)"
| "run_command E st (NearestUsesTheIndex t c q n) = discard (nearest_uses_the_index E st t c q n)"

text \<open>The table a command is aimed at, the scope it needs there, and how it is named when it needs the write role.\<close>

fun command_table :: "command \<Rightarrow> string" where
  "command_table (CreateTable t _) = t"
| "command_table (AppendBatch t _) = t"
| "command_table (UpdateRows t _ _) = t"
| "command_table (DeleteRows t _) = t"
| "command_table (DropTable t) = t"
| "command_table (Scan t) = t"
| "command_table (ScanOrdered t _ _ _) = t"
| "command_table (ScanOrderedMeasured t _ _ _) = t"
| "command_table (RowIds t _) = t"
| "command_table (RowIdsMeasured t _) = t"
| "command_table (RowIdsAll t _ _) = t"
| "command_table (RowIdsAny t _ _) = t"
| "command_table (CreateIndex t _) = t"
| "command_table (VectorsOf t _) = t"
| "command_table (CreateVectorIndex t _ _) = t"
| "command_table (Nearest t _ _ _) = t"
| "command_table (CreateTextIndex t _ _) = t"
| "command_table (SearchText t _ _ _) = t"
| "command_table (HybridSearch t _ _ _ _) = t"
| "command_table (VectorIndexKind t _) = t"
| "command_table (NearestUsesTheIndex t _ _ _) = t"

fun writing_name :: "command \<Rightarrow> string option" where
  "writing_name (CreateTable _ _) = Some ''create the table''"
| "writing_name (AppendBatch _ _) = Some ''append to''"
| "writing_name (UpdateRows _ _ _) = Some ''update''"
| "writing_name (DeleteRows _ _) = Some ''delete from''"
| "writing_name (DropTable _) = Some ''drop the table''"
| "writing_name (CreateIndex _ _) = Some ''index a column of''"
| "writing_name (CreateVectorIndex _ _ _) = Some ''index the vectors of''"
| "writing_name (CreateTextIndex _ _ _) = Some ''index the text of''"
| "writing_name _ = None"

fun command_scope :: "command \<Rightarrow> scope" where
  "command_scope (AppendBatch _ _) = Write"
| "command_scope (UpdateRows _ _ _) = Write"
| "command_scope (DeleteRows _ _) = Write"
| "command_scope cmd = (if writing_name cmd = None then Read else Schema)"

definition authorise :: "('w, 'ds, 'sc, 'ub, 't) services \<Rightarrow> store \<Rightarrow> command \<Rightarrow> db_error + unit" where
  "authorise E st cmd =
     rbind (require_scope E st (command_scope cmd) (command_table cmd)) (\<lambda>_.
       case writing_name cmd of
         None \<Rightarrow> Inr ()
       | Some operation \<Rightarrow> require_write_role st operation (command_table cmd))"

section \<open>What operations leave alone\<close>

lemmas reading_defs = store_open_def from_disk_def fetch_def store_collect_def

lemma keeps_reading [intro, simp]:
  "keeps v (from_disk op t call)" "keeps v (store_open E st t)" "keeps v (fetch E s r t sc)" "keeps v (store_collect E t sc)"
  unfolding reading_defs by auto

lemma keeps_record [intro, simp]: "keeps w_disk (record_op E st q p n)" "keeps w_trace (record_op E st q p n)"
  by (auto simp: keeps_def record_op_def split: option.split prod.split)

lemma keeps_warn [intro, simp]: "keeps w_disk (warn x)" "keeps w_audit (warn x)"
  by (auto simp: keeps_def warn_def)

lemma keeps_on_disk [intro, simp]: "keeps w_audit (on_disk op t call)" "keeps w_trace (on_disk op t call)"
  by (auto simp: keeps_def on_disk_def split: prod.split)

lemma keeps_discard [intro]: "keeps v m \<Longrightarrow> keeps v (discard m)"
  by (auto simp: discard_def)

lemma keeps_if [intro]: "keeps v m \<Longrightarrow> keeps v n \<Longrightarrow> keeps v (if b then m else n)"
  by simp

lemma keeps_row_ids [intro, simp]: "keeps v (row_ids E st t p)"
  unfolding row_ids_def by auto

lemma keeps_each_set [intro, simp]: "keeps v (each_set E st t ps op)"
  unfolding each_set_def by (cases ps) (auto intro!: keeps_bind keeps_map)

lemma keeps_scan_ordered [intro, simp]: "keeps v (scan_ordered E st t p by order)"
  unfolding scan_ordered_def by auto

lemma keeps_vectors_of [intro, simp]: "keeps v (vectors_of E st t c)"
  unfolding vectors_of_def by auto

lemma keeps_nearest [intro, simp]: "keeps w_disk (nearest E st t c q n)" "keeps w_trace (nearest E st t c q n)"
  unfolding nearest_def by (auto intro!: keeps_bind keeps_if)

lemma keeps_search_text [intro, simp]: "keeps w_disk (search_text E st t c q n)" "keeps w_trace (search_text E st t c q n)"
  unfolding search_text_def by (auto intro!: keeps_bind)

lemma keeps_hybrid [intro, simp]: "keeps w_disk (hybrid_search E st t c q v n)" "keeps w_trace (hybrid_search E st t c q v n)"
  unfolding hybrid_search_def Let_def by (auto intro!: keeps_bind)

text \<open>Commands that need no write role only read: of the world they change at most the audit log.\<close>

lemma reading_keeps_disk: "writing_name cmd = None \<Longrightarrow> keeps w_disk (run_command E st cmd) \<and> keeps w_trace (run_command E st cmd)"
  by (cases cmd)
    (auto simp: scan_def row_ids_all_def row_ids_any_def row_ids_measured_def scan_ordered_measured_def
       vector_index_kind_of_def nearest_uses_the_index_def split: prod.split intro!: keeps_bind keeps_discard)

section \<open>Refusals\<close>

text \<open>An operation that starts with the checks fails as they do, with the world untouched.\<close>

lemmas command_defs = create_table_def append_batch_def update_rows_def delete_rows_def drop_table_def
  scan_def scan_ordered_def scan_ordered_measured_def row_ids_def row_ids_measured_def row_ids_all_def
  row_ids_any_def each_set_def create_index_def vectors_of_def create_vector_index_def nearest_def
  create_text_index_def search_text_def hybrid_search_def vector_index_kind_of_def nearest_uses_the_index_def
  discard_def

lemma no_scope_first:
  assumes "require_scope E st (command_scope cmd) (command_table cmd) = Inl e"
  shows "run_command E st cmd = act_of (Inl e)"
  using assms by (cases cmd) (simp_all add: command_defs)

lemma no_role_first:
  assumes "require_scope E st (command_scope cmd) (command_table cmd) = Inr u" and "writing_name cmd = Some op"
    and "require_write_role st op (command_table cmd) = Inl e"
  shows "run_command E st cmd = act_of (Inl e)"
  using assms by (cases cmd) (simp_all add: command_defs)

lemma refused_first:
  assumes "authorise E st cmd = Inl e"
  shows "run_command E st cmd = act_of (Inl e)"
  using assms unfolding authorise_def
  by (auto elim!: rbind_InlE intro: no_scope_first no_role_first split: option.splits)

lemma authorise_Inr:
  assumes "authorise E st cmd = Inr u"
  shows "require_scope E st (command_scope cmd) (command_table cmd) = Inr ()"
    and "writing_name cmd \<noteq> None \<Longrightarrow> st_write_lock st \<noteq> None"
  using assms by (auto simp: authorise_def rbind_Inr_iff require_write_role_def split: if_splits)

lemma scope_granted:
  assumes "require_scope E st scope table = Inr u" and "st_gate st = Some (gate_new (sv_mac E) k caps)"
  shows "grant (sv_mac E) k table scope \<in> set caps"
  using assms by (simp add: require_scope_def permits_iff split: if_splits)

lemma scope_missing:
  assumes "grant (sv_mac E) k table scope \<notin> set caps" and "st_gate st = Some (gate_new (sv_mac E) k caps)"
  shows "require_scope E st scope table = Inl (StorageError (NotPermitted scope table))"
  using assms by (simp add: require_scope_def permits_iff)

end
