(* ===== verification/Demo_Store.thy ===== *)
theory Demo_Store
  imports Store_Commands
begin

text \<open>
  A format for the witnesses: tables in memory, rows numbered from zero in the order they were written,
  every predicate matching every row. It refuses an address of the encrypted scheme without a session,
  a second creation, an append to no table.
\<close>

type_synonym demo_disk = "string \<Rightarrow> (data_type schema \<times> batch list) option"
type_synonym demo_dataset = "string \<times> data_type schema \<times> batch list"
type_synonym demo_scan = "batch list \<times> bool \<times> string list option"

definition demo_reach :: "string \<Rightarrow> block_frame option \<Rightarrow> bool" where
  "demo_reach uri session \<longleftrightarrow> session \<noteq> None \<or> take 9 uri \<noteq> ''euledb://''"

definition demo_load :: "string \<Rightarrow> block_frame option \<Rightarrow> demo_disk \<Rightarrow> string + demo_dataset" where
  "demo_load uri session d =
     (if demo_reach uri session
      then (case d uri of None \<Rightarrow> Inl ''no such table'' | Some (s, bs) \<Rightarrow> Inr (uri, s, bs))
      else Inl ''no provider for the scheme'')"

definition demo_write ::
  "data_type schema \<Rightarrow> batch list \<Rightarrow> string \<Rightarrow> write_mode \<Rightarrow> block_frame option \<Rightarrow> demo_disk \<Rightarrow> (string + unit) \<times> demo_disk" where
  "demo_write s bs uri mode session d =
     (if \<not> demo_reach uri session then (Inl ''no provider for the scheme'', d)
      else
        (case (mode, d uri) of
           (Create, Some _) \<Rightarrow> (Inl ''already there'', d)
         | (Append, None) \<Rightarrow> (Inl ''no such table'', d)
         | (Append, Some (s0, bs0)) \<Rightarrow> (Inr (), d(uri \<mapsto> (s0, bs0 @ bs)))
         | _ \<Rightarrow> (Inr (), d(uri \<mapsto> (s, bs)))))"

definition demo_row_count :: "batch list \<Rightarrow> nat" where
  "demo_row_count bs = sum_list (map b_rows bs)"

fun demo_project :: "string list \<Rightarrow> data_type field list \<Rightarrow> column list \<Rightarrow> (data_type field \<times> column) list" where
  "demo_project names (f # fs) (c # cs) =
     (if f_name f \<in> set names then (f, c) # demo_project names fs cs else demo_project names fs cs)"
| "demo_project names _ _ = []"

definition demo_row_field :: "data_type field" where
  "demo_row_field = \<lparr>f_name = ''_rowid'', f_type = UInt64, f_nullable = False, f_metadata = Map.empty\<rparr>"

definition demo_batch :: "nat \<Rightarrow> bool \<Rightarrow> string list option \<Rightarrow> batch \<Rightarrow> batch" where
  "demo_batch n row_id names b =
     (if \<not> row_id \<and> names = None then b else
      let kept = (case names of
                    None \<Rightarrow> zip (s_fields (b_schema b)) (b_columns b)
                  | Some ns \<Rightarrow> demo_project ns (s_fields (b_schema b)) (b_columns b));
          all = kept @ (if row_id then [(demo_row_field, U64Column (map word_of_nat [n..<n + b_rows b]))] else [])
      in \<lparr>b_schema = (b_schema b)\<lparr>s_fields := map fst all\<rparr>, b_columns = map snd all, b_rows = b_rows b\<rparr>)"

fun demo_read :: "nat \<Rightarrow> bool \<Rightarrow> string list option \<Rightarrow> batch list \<Rightarrow> batch list" where
  "demo_read n row_id names [] = []"
| "demo_read n row_id names (b # bs) = demo_batch n row_id names b # demo_read (n + b_rows b) row_id names bs"

definition demo_lance :: "(demo_disk, demo_dataset, demo_scan, demo_dataset) lance" where
  "demo_lance =
     \<lparr>l_load = demo_load,
      l_schema = (\<lambda>(_, s, _). s),
      l_row_id = ''_rowid'',
      l_scan = (\<lambda>(_, _, bs). (bs, False, None)),
      l_filter = (\<lambda>_ sc. Inr sc),
      l_order_by = (\<lambda>_ sc. Inr sc),
      l_with_row_id = (\<lambda>(bs, _, names). (bs, True, names)),
      l_project = (\<lambda>names (bs, row_id, _). Inr (bs, row_id, Some names)),
      l_nearest = (\<lambda>_ _ _ sc. Inr sc),
      l_full_text = (\<lambda>_ sc. Inr sc),
      l_limit = (\<lambda>_ sc. Inr sc),
      l_start = (\<lambda>_ _. Inr ()),
      l_read = (\<lambda>(bs, row_id, names) _. Inr (demo_read 0 row_id names bs)),
      l_analyze = (\<lambda>_ _. Inr ''LanceRead: metrics=[rows_scanned=2]''),
      l_explain = (\<lambda>_ _. Inr ''KNNVectorDistance''),
      l_count = (\<lambda>(_, _, bs) _ _. Inr (demo_row_count bs)),
      l_statistics = (\<lambda>_ _ _. Inl ''no index''),
      l_language = (\<lambda>_. Inr ()),
      l_create_index = (\<lambda>_ _ _ d. (Inr (), d)),
      l_write = demo_write,
      l_delete = (\<lambda>(uri, s, bs) _ d. (Inr (word_of_nat (demo_row_count bs)), d(uri \<mapsto> (s, [])))),
      l_update_where = (\<lambda>ds _. Inr ds),
      l_set = (\<lambda>_ _ ds. Inr ds),
      l_build = (\<lambda>ds. Inr ds),
      l_execute = (\<lambda>(uri, s, bs) d. (Inr (word_of_nat (demo_row_count bs)), d)),
      l_remove_dir = (\<lambda>path d. (Inr (), d(path := None))),
      l_batch = (\<lambda>s cs. Inr \<lparr>b_schema = s, b_columns = cs, b_rows = (case cs of [] \<Rightarrow> 0 | c # _ \<Rightarrow> column_length c)\<rparr>),
      l_fixed_list = (\<lambda>width values. Inr (ListColumn (map F32Column (chunks width values))))\<rparr>"

definition demo_bitmap :: "u64 list bitmap" where
  "demo_bitmap =
     \<lparr>bm_collect = (\<lambda>xs. sorted_list_of_set (set xs)),
      bm_and = (\<lambda>a b. sorted_list_of_set (set a \<inter> set b)),
      bm_or = (\<lambda>a b. sorted_list_of_set (set a \<union> set b)),
      bm_len = (\<lambda>a. word_of_nat (card (set a))),
      bm_is_empty = (\<lambda>a. set a = {}),
      bm_contains = (\<lambda>a x. x \<in> set a),
      bm_iter = (\<lambda>a. sorted_list_of_set (set a))\<rparr>"

definition demo_services :: "(demo_disk, demo_dataset, demo_scan, demo_dataset, u64 list) services" where
  "demo_services =
     \<lparr>sv_lance = demo_lance, sv_bitmap = demo_bitmap, sv_mac = demo_mac, sv_digest = demo_digest,
      sv_audit_env = demo_env, sv_escaped = (\<lambda>_. False), sv_absolute = (\<lambda>p. Some p), sv_file_url = (\<lambda>p. Some p)\<rparr>"

definition demo_writer :: store where
  "demo_writer = (store_new ''/db'')\<lparr>st_write_lock := Some \<lparr>wl_handle = 0\<rparr>\<rparr>"

definition demo_notes :: "data_type schema" where
  "demo_notes = \<lparr>s_fields = [\<lparr>f_name = ''body'', f_type = OtherType ''Utf8'', f_nullable = False, f_metadata = Map.empty\<rparr>],
     s_metadata = Map.empty\<rparr>"

definition demo_rows_of :: "string list \<Rightarrow> batch" where
  "demo_rows_of texts = \<lparr>b_schema = demo_notes, b_columns = [TextColumn texts], b_rows = length texts\<rparr>"

definition demo_world :: "demo_disk \<Rightarrow> demo_disk world" where
  "demo_world d = \<lparr>w_disk = d, w_audit = (\<lambda>_. None), w_trace = []\<rparr>"

definition demo_disk_notes :: demo_disk where
  "demo_disk_notes = [''/db/notes.lance'' \<mapsto> (demo_notes, [demo_rows_of [''a'', ''b'']])]"

lemma demo_services_simps [simp]:
  "sv_lance demo_services = demo_lance" "sv_bitmap demo_services = demo_bitmap" "sv_mac demo_services = demo_mac"
  "sv_digest demo_services = demo_digest" "sv_audit_env demo_services = demo_env"
  by (simp_all add: demo_services_def)

lemma demo_lance_simps [simp]:
  "l_load demo_lance = demo_load" "l_schema demo_lance (u, s, bs) = s" "l_row_id demo_lance = ''_rowid''"
  "l_scan demo_lance (u, s, bs) = (bs, False, None)" "l_filter demo_lance p sc = Inr sc" "l_order_by demo_lance by_column sc = Inr sc"
  "l_with_row_id demo_lance (bs, r, ns) = (bs, True, ns)" "l_project demo_lance names (bs, r, ns) = Inr (bs, r, Some names)"
  "l_nearest demo_lance column q n sc = Inr sc" "l_full_text demo_lance text sc = Inr sc" "l_limit demo_lance n sc = Inr sc"
  "l_start demo_lance sc d = Inr ()" "l_read demo_lance (bs, r, ns) d = Inr (demo_read 0 r ns bs)"
  "l_count demo_lance (u, s, bs) which d = Inr (demo_row_count bs)"
  "l_create_index demo_lance ds column i d = (Inr (), d)" "l_write demo_lance = demo_write"
  "l_delete demo_lance (u, s, bs) pred d = (Inr (word_of_nat (demo_row_count bs)), d(u \<mapsto> (s, [])))"
  "l_remove_dir demo_lance path d = (Inr (), d(path := None))"
  "l_batch demo_lance s columns = Inr \<lparr>b_schema = s, b_columns = columns, b_rows = (case columns of [] \<Rightarrow> 0 | c # _ \<Rightarrow> column_length c)\<rparr>"
  "l_fixed_list demo_lance width vs = Inr (ListColumn (map F32Column (chunks width vs)))"
  by (simp_all add: demo_lance_def)

lemma demo_world_simps [simp]:
  "w_disk (demo_world d) = d" "w_audit (demo_world d) = (\<lambda>_. None)" "w_trace (demo_world d) = []"
  by (simp_all add: demo_world_def)

lemma demo_writer_simps [simp]:
  "st_root demo_writer = ''/db''" "st_write_lock demo_writer = Some \<lparr>wl_handle = 0\<rparr>" "st_session demo_writer = None"
  "st_embedder demo_writer = None" "st_audit demo_writer = None" "st_gate demo_writer = None"
  by (simp_all add: demo_writer_def store_new_def)

lemma demo_load_plain [simp]: "take 9 uri \<noteq> ''euledb://'' \<Longrightarrow>
    demo_load uri s d = (case d uri of None \<Rightarrow> Inl ''no such table'' | Some (s, bs) \<Rightarrow> Inr (uri, s, bs))"
  by (simp add: demo_load_def demo_reach_def)

lemma demo_disk_simps [simp]: "demo_disk_notes ''/db/notes.lance'' = Some (demo_notes, [demo_rows_of [''a'', ''b'']])"
  by (simp add: demo_disk_notes_def)

lemma demo_bitmap_laws: "bitmap_laws demo_bitmap set"
  by (simp add: bitmap_laws_def demo_bitmap_def)

end
