(* ===== verification/Store_Audit.thy ===== *)
theory Store_Audit
  imports Demo_Store
begin

text \<open>
  The audit log beside the store: which record each command leaves, and how a query text can stop the log.
\<close>

section \<open>Operations that log\<close>

text \<open>A handle that records into a log that reads as the records \<open>rs\<close>, on a file system that works.\<close>

definition audit_ready ::
  "('w, 'ds, 'sc, 'ub, 't) services \<Rightarrow> store \<Rightarrow> os_path \<Rightarrow> 'w world \<Rightarrow> audit_record list \<Rightarrow> bool" where
  "audit_ready E st path w rs \<longleftrightarrow>
     st_audit st = Some path \<and> sound_env (sv_audit_env E) \<and> digest_sized (sv_digest E) \<and>
     log_ok (sv_digest E) (w_audit w path) rs"

lemma audit_ready_cong: "w_audit w' = w_audit w \<Longrightarrow> audit_ready E st path w' rs = audit_ready E st path w rs"
  by (simp add: audit_ready_def)

text \<open>\<open>logs E st path m P\<close>: when \<open>m\<close> succeeds, the log has grown by entries that fit its result.\<close>

type_synonym entry = "string \<times> string \<times> u64"

definition logs ::
  "('w, 'ds, 'sc, 'ub, 't) services \<Rightarrow> store \<Rightarrow> os_path \<Rightarrow> ('w world, db_error, 'a) act \<Rightarrow> ('a \<Rightarrow> entry list \<Rightarrow> bool) \<Rightarrow> bool" where
  "logs E st path m P \<longleftrightarrow>
     (\<forall>w rs x w'. audit_ready E st path w rs \<longrightarrow> m w = (Inr x, w') \<longrightarrow>
        (\<exists>es. P x es \<and> audit_ready E st path w' (chain_of (sv_digest E) rs es)))"

lemma chain_of_append: "chain_of d rs (es @ fs) = chain_of d (chain_of d rs es) fs"
  by (induction d rs es rule: chain_of.induct) simp_all

definition entry_of :: "audit_record \<Rightarrow> entry" where
  "entry_of r = (ar_query r, ar_plan r, ar_rows r)"

lemma next_record_rows [simp]: "ar_rows (next_record d rs q p n) = n"
  by (simp add: next_record_def)

lemma chain_of_extends: "\<exists>rs'. chain_of d rs es = rs @ rs' \<and> map entry_of rs' = es"
proof (induction d rs es rule: chain_of.induct)
  case (2 d rs q p n es)
  then obtain rs' where "chain_of d (rs @ [next_record d rs q p n]) es = (rs @ [next_record d rs q p n]) @ rs'"
    "map entry_of rs' = es" by blast
  moreover have "entry_of (next_record d rs q p n) = (q, p, n)" by (simp add: entry_of_def)
  ultimately show ?case by (intro exI [of _ "next_record d rs q p n # rs'"]) simp
qed simp

lemma logs_quiet:
  assumes "keeps w_audit m" and "\<And>x. P x []"
  shows "logs E st path m P"
  unfolding logs_def
proof (intro allI impI)
  fix w rs x w' assume "audit_ready E st path w rs" "m w = (Inr x, w')"
  then have "audit_ready E st path w' rs" using keepsD [OF assms(1), of w] by (simp add: audit_ready_cong [of w' w])
  then show "\<exists>es. P x es \<and> audit_ready E st path w' (chain_of (sv_digest E) rs es)"
    using assms(2) by (intro exI [of _ "[]"]) simp
qed

lemma logs_bind:
  assumes "logs E st path m P" and "\<And>x es. P x es \<Longrightarrow> logs E st path (k x) (\<lambda>y fs. Q y (es @ fs))"
  shows "logs E st path (act_bind m k) Q"
  unfolding logs_def
proof (intro allI impI)
  fix w rs y w'' assume ready: "audit_ready E st path w rs" and "act_bind m k w = (Inr y, w'')"
  then obtain x w' where m: "m w = (Inr x, w')" and k: "k x w' = (Inr y, w'')" by (auto simp: act_bind_Inr)
  obtain es where es: "P x es" "audit_ready E st path w' (chain_of (sv_digest E) rs es)"
    using assms(1) ready m unfolding logs_def by blast
  then obtain fs where "Q y (es @ fs)" "audit_ready E st path w'' (chain_of (sv_digest E) (chain_of (sv_digest E) rs es) fs)"
    using assms(2) [OF es(1)] k unfolding logs_def by blast
  then show "\<exists>es. Q y es \<and> audit_ready E st path w'' (chain_of (sv_digest E) rs es)"
    by (intro exI [of _ "es @ fs"]) (simp add: chain_of_append)
qed

lemma logs_then:
  assumes "keeps w_audit m" and "\<And>x. logs E st path (k x) Q"
  shows "logs E st path (act_bind m k) Q"
  by (rule logs_bind [OF logs_quiet [OF assms(1), of "\<lambda>_ es. es = []"]]) (use assms(2) in simp_all)

lemma logs_ok: "Q x [] \<Longrightarrow> logs E st path (act_ok x) Q"
  by (auto simp: logs_def act_run intro!: exI [of _ "[]"])

lemma logs_if: "logs E st path m P \<Longrightarrow> logs E st path n P \<Longrightarrow> logs E st path (if b then m else n) P"
  by simp

lemma logs_fail: "logs E st path (act_of (Inl e)) P"
  by (simp add: logs_def act_run)

lemma logs_weaken: "logs E st path m P \<Longrightarrow> (\<And>x es. P x es \<Longrightarrow> Q x es) \<Longrightarrow> logs E st path m Q"
  unfolding logs_def by blast

text \<open>A query text never poses as a re-anchoring when it starts with another letter.\<close>

lemma other_letter: "c \<noteq> CHR ''r'' \<Longrightarrow> take (length REANCHOR) (c # q) \<noteq> REANCHOR"
  by (simp add: REANCHOR_def)

lemma record_appends:
  assumes "audit_ready E st path w rs" and "plain_entry (query, plan, n)"
  obtains w' where "record_op E st query plan n w = (Inr (), w')"
    and "audit_ready E st path w' (rs @ [next_record (sv_digest E) rs query plan n])"
proof -
  have ready: "st_audit st = Some path" "sound_env (sv_audit_env E)" "digest_sized (sv_digest E)"
    "log_ok (sv_digest E) (w_audit w path) rs" using assms(1) by (simp_all add: audit_ready_def)
  have plain: "take (length REANCHOR) query \<noteq> REANCHOR" "plan = [] \<or> last plan \<noteq> carriage" "utf8 query" "utf8 plan"
    using assms(2) by (simp_all add: plain_entry_def)
  obtain log where log: "audit_append (sv_audit_env E) (sv_digest E) query plan n (w_audit w path) = (Inr (), Some log)"
    "log_ok (sv_digest E) (Some log) (rs @ [next_record (sv_digest E) rs query plan n])"
    by (rule append_keeps_log [OF ready(2-4) plain])
  show ?thesis
    by (rule that [of "w\<lparr>w_audit := (w_audit w)(path \<mapsto> log)\<rparr>"])
      (use ready log in \<open>simp_all add: record_op_def audit_ready_def\<close>)
qed

lemma logs_record:
  assumes "plain_entry (query, plan, n)" and "P () [(query, plan, n)]"
  shows "logs E st path (record_op E st query plan n) P"
  unfolding logs_def
proof (intro allI impI)
  fix w rs x w' assume ready: "audit_ready E st path w rs" and run: "record_op E st query plan n w = (Inr x, w')"
  obtain v where "record_op E st query plan n w = (Inr (), v)"
    and "audit_ready E st path v (rs @ [next_record (sv_digest E) rs query plan n])"
    by (rule record_appends [OF ready assms(1)])
  with run assms(2) show "\<exists>es. P x es \<and> audit_ready E st path w' (chain_of (sv_digest E) rs es)"
    by (intro exI [of _ "[(query, plan, n)]"]) simp
qed

lemma logs_record_then:
  assumes "plain_entry (query, plan, n)" and "logs E st path (k ()) (\<lambda>y fs. Q y ((query, plan, n) # fs))"
  shows "logs E st path (act_bind (record_op E st query plan n) k) Q"
  by (rule logs_bind [OF logs_record [OF assms(1), of "\<lambda>_ es. es = [(query, plan, n)]"]]) (use assms(2) in simp_all)

section \<open>What each command records\<close>

lemma keeps_audit_reconcile [intro, simp]: "keeps w_audit (reconcile E st t c)"
proof -
  have "keeps w_audit (existing_vectors E st t c)"
    using keeps_vectors_of [of w_audit E st t c] by (auto simp: keeps_def existing_vectors_def split: sum.split)
  then show ?thesis
    unfolding reconcile_def present_rows_def write_vectors_def by (cases "st_embedder st") (auto intro: keeps_if)
qed

lemma keeps_audit_reconcile_all [intro, simp]: "keeps w_audit (reconcile_all E st t)"
  unfolding reconcile_all_def embedding_columns_def by (auto intro!: keeps_each)

definition of_column :: "string \<Rightarrow> string \<Rightarrow> string" where
  "of_column table column = tick @ table @ tick @ ''.'' @ tick @ column @ tick"

text \<open>The query texts of the records a command leaves, in order.\<close>

fun command_log :: "(nat \<Rightarrow> bool) \<Rightarrow> command \<Rightarrow> string list" where
  "command_log x (CreateTable t _) = [''create table '' @ tick @ t @ tick]"
| "command_log x (AppendBatch t _) = [''insert into '' @ tick @ t @ tick]"
| "command_log x (UpdateRows t p _) = [''update '' @ tick @ t @ tick @ '' where '' @ predicate_str p]"
| "command_log x (DeleteRows t p) = [''delete from '' @ tick @ t @ tick @ '' where '' @ predicate_str p]"
| "command_log x (DropTable t) = [''drop table '' @ tick @ t @ tick]"
| "command_log x (Scan t) = [''scan '' @ tick @ t @ tick]"
| "command_log x (CreateVectorIndex t c _) = [''index the vectors of '' @ of_column t c]"
| "command_log x (Nearest t c _ _) = [''search the vectors of '' @ of_column t c]"
| "command_log x (CreateTextIndex t c _) = [''index the text of '' @ of_column t c]"
| "command_log x (SearchText t c _ _) = [''search the text of '' @ of_column t c]"
| "command_log x (HybridSearch t c q _ _) =
     [''search the vectors of '' @ of_column t c, ''search the text of '' @ of_column t c,
      ''hybrid search of '' @ of_column t c @ '' for '' @ debug_str x q]"
| "command_log x _ = []"

text \<open>
  The plans of these records. That of the hybrid search itself holds the constant of its fusion, which
  follows from the number of rows.
\<close>

fun command_plans :: "command \<Rightarrow> string list \<Rightarrow> bool" where
  "command_plans (UpdateRows _ _ as) ps \<longleftrightarrow> ps = [join_str '', '' (map as_column as)]"
| "command_plans (CreateVectorIndex _ _ kind) ps \<longleftrightarrow> ps = [kind_name kind]"
| "command_plans (CreateTextIndex _ _ language) ps \<longleftrightarrow> ps = [fst (as_parts language)]"
| "command_plans (SearchText _ _ q _) ps \<longleftrightarrow> ps = [q]"
| "command_plans (HybridSearch _ _ q _ _) ps \<longleftrightarrow> (\<exists>k. ps = [[], q, ''rrf k='' @ show_nat k])"
| "command_plans cmd ps \<longleftrightarrow> (\<forall>p \<in> set ps. p = [])"

text \<open>The counts that do not depend on what the format answers.\<close>

fun command_counts :: "command \<Rightarrow> u64 list \<Rightarrow> bool" where
  "command_counts (AppendBatch _ b) ns \<longleftrightarrow> ns = [count_u64 (b_rows b)]"
| "command_counts (CreateTable _ _) ns \<longleftrightarrow> ns = [0]"
| "command_counts (DropTable _) ns \<longleftrightarrow> ns = [0]"
| "command_counts (CreateVectorIndex _ _ _) ns \<longleftrightarrow> ns = [0]"
| "command_counts (CreateTextIndex _ _ _) ns \<longleftrightarrow> ns = [0]"
| "command_counts _ ns \<longleftrightarrow> True"

definition command_entries :: "(nat \<Rightarrow> bool) \<Rightarrow> command \<Rightarrow> entry list \<Rightarrow> bool" where
  "command_entries x cmd es \<longleftrightarrow>
     map fst es = command_log x cmd \<and> command_plans cmd (map (fst \<circ> snd) es) \<and> command_counts cmd (map (snd \<circ> snd) es)"

text \<open>
  The strings of a command that end up in its records, and the one among them that is a plan of its own: a
  command is plain when the strings are strings and that plan does not end in a carriage return.
\<close>

definition ends_plain :: "string \<Rightarrow> bool" where
  "ends_plain s \<longleftrightarrow> s = [] \<or> last s \<noteq> carriage"

fun command_texts :: "command \<Rightarrow> string list" where
  "command_texts (UpdateRows t p as) = [t, predicate_str p, join_str '', '' (map as_column as)]"
| "command_texts (DeleteRows t p) = [t, predicate_str p]"
| "command_texts (CreateVectorIndex t c _) = [t, c]"
| "command_texts (Nearest t c _ _) = [t, c]"
| "command_texts (CreateTextIndex t c _) = [t, c]"
| "command_texts (SearchText t c q _) = [t, c, q]"
| "command_texts (HybridSearch t c q _ _) = [t, c, q]"
| "command_texts cmd = [command_table cmd]"

fun free_plan :: "command \<Rightarrow> string" where
  "free_plan (SearchText _ _ q _) = q"
| "free_plan (HybridSearch _ _ q _ _) = q"
| "free_plan (UpdateRows _ _ as) = join_str '', '' (map as_column as)"
| "free_plan _ = []"

definition plain_command :: "command \<Rightarrow> bool" where
  "plain_command cmd \<longleftrightarrow> list_all utf8 (command_texts cmd) \<and> ends_plain (free_plan cmd)"

lemma utf8_hex_digits [simp]: "utf8 (hex_digits n)"
proof (induction n rule: hex_digits.induct)
  case (1 n)
  have "utf8 [hex_digit (n mod 16)]" by (rule utf8_ascii) (auto split: if_splits)
  with 1 show ?case by (subst hex_digits.simps) (auto intro!: utf8_ascii)
qed

lemma utf8_debug_str:
  assumes "utf8 s"
  shows "utf8 (debug_str x s)"
proof -
  have "utf8 (debug_char x ch)" if "well_formed ch" for ch
    using utf8_first [OF that, of "[]"] by (simp add: debug_char_def Let_def)
  then have "utf8 (concat (map (debug_char x) (characters s)))"
    using assms by (intro utf8_concat) (auto simp: utf8_def [of s] list_all_iff)
  then show ?thesis by (simp add: debug_str_def)
qed

lemma utf8_tick [simp]: "utf8 (tick @ s) \<longleftrightarrow> utf8 s" "utf8 tick"
  by (simp_all add: tick_def)

lemma utf8_of_column [simp]: "utf8 t \<Longrightarrow> utf8 c \<Longrightarrow> utf8 (of_column t c @ s) \<longleftrightarrow> utf8 s" "utf8 t \<Longrightarrow> utf8 c \<Longrightarrow> utf8 (of_column t c)"
  by (simp_all add: of_column_def)

lemma plain_record:
  "c \<noteq> CHR ''r'' \<Longrightarrow> utf8 (c # q) \<Longrightarrow> utf8 p \<Longrightarrow> ends_plain p \<Longrightarrow> plain_entry (c # q, p, n)"
  by (simp add: plain_entry_def ends_plain_def other_letter)

lemma ends_plain_show [simp]: "last (show_nat n) \<noteq> carriage"
  using show_nat_plain [of carriage n] last_in_set [OF show_nat_not_Nil [of n]] by fastforce

lemma own_plans [simp]:
  "ends_plain []" "ends_plain (kind_name k)" "ends_plain (fst (as_parts l))" "ends_plain (show_nat n)"
  "utf8 (kind_name k)" "utf8 (fst (as_parts l))" "s \<noteq> [] \<Longrightarrow> ends_plain (c # s) \<longleftrightarrow> ends_plain s"
  by (cases k; cases l; simp add: ends_plain_def)+

lemmas logs_rules = logs_record_then logs_record logs_if logs_fail logs_ok logs_then

lemma logs_create_table:
  "utf8 t \<Longrightarrow> logs E st path (create_table E st t d) (\<lambda>_ es. es = [(''create table '' @ tick @ t @ tick, [], 0)])"
  unfolding create_table_def by (rule logs_rules | (auto intro!: plain_record)[1])+

lemma logs_append:
  "utf8 t \<Longrightarrow> logs E st path (append_batch E st t b)
     (\<lambda>_ es. es = [(''insert into '' @ tick @ t @ tick, [], count_u64 (b_rows b))])"
  unfolding append_batch_def by (rule logs_record_then logs_quiet logs_then | (auto intro!: plain_record)[1])+

lemma logs_update:
  "utf8 t \<Longrightarrow> utf8 (predicate_str p) \<Longrightarrow> utf8 (join_str '', '' (map as_column as)) \<Longrightarrow>
     ends_plain (join_str '', '' (map as_column as)) \<Longrightarrow>
     logs E st path (update_rows E st t p as)
       (\<lambda>u es. es = [(''update '' @ tick @ t @ tick @ '' where '' @ predicate_str p, join_str '', '' (map as_column as), updated_rows u)])"
  unfolding update_rows_def by (rule logs_rules | (auto intro!: plain_record)[1])+

lemma logs_delete:
  "utf8 t \<Longrightarrow> utf8 (predicate_str p) \<Longrightarrow>
     logs E st path (delete_rows E st t p)
       (\<lambda>d es. es = [(''delete from '' @ tick @ t @ tick @ '' where '' @ predicate_str p, [], deleted_rows d)])"
  unfolding delete_rows_def by (rule logs_rules | (auto intro!: plain_record)[1])+

lemma logs_drop:
  "utf8 t \<Longrightarrow> logs E st path (drop_table E st t) (\<lambda>_ es. es = [(''drop table '' @ tick @ t @ tick, [], 0)])"
  unfolding drop_table_def by (rule logs_record_then logs_quiet logs_then | (auto intro!: plain_record)[1])+

lemma logs_scan:
  "utf8 t \<Longrightarrow> logs E st path (scan E st t)
     (\<lambda>bs es. es = [(''scan '' @ tick @ t @ tick, [], sum_list (map (\<lambda>b. count_u64 (b_rows b)) bs))])"
  unfolding scan_def by (rule logs_rules | (auto intro!: plain_record)[1])+

lemma logs_vector_index:
  "utf8 t \<Longrightarrow> utf8 c \<Longrightarrow> logs E st path (create_vector_index E st t c kind)
     (\<lambda>_ es. es = [(''index the vectors of '' @ of_column t c, kind_name kind, 0)])"
  unfolding create_vector_index_def of_column_def by (rule logs_rules | (auto intro!: plain_record)[1])+

lemma logs_text_index:
  "utf8 t \<Longrightarrow> utf8 c \<Longrightarrow> logs E st path (create_text_index E st t c l)
     (\<lambda>_ es. es = [(''index the text of '' @ of_column t c, fst (as_parts l), 0)])"
  unfolding create_text_index_def of_column_def Let_def split_beta
  by (rule logs_rules | (auto intro!: plain_record)[1])+

lemma logs_nearest:
  "utf8 t \<Longrightarrow> utf8 c \<Longrightarrow> logs E st path (nearest E st t c q n)
     (\<lambda>vs es. es = [(''search the vectors of '' @ of_column t c, [], count_u64 (length vs))])"
  unfolding nearest_def of_column_def by (rule logs_rules | (auto intro!: plain_record)[1])+

lemma logs_search_text:
  "utf8 t \<Longrightarrow> utf8 c \<Longrightarrow> utf8 q \<Longrightarrow> ends_plain q \<Longrightarrow> logs E st path (search_text E st t c q n)
     (\<lambda>hits es. es = [(''search the text of '' @ of_column t c, q, count_u64 (length hits))])"
  unfolding search_text_def of_column_def by (rule logs_rules | (auto intro!: plain_record)[1])+

text \<open>A hybrid search leaves the records of its two halves, then its own.\<close>

definition hybrid_entries :: "(nat \<Rightarrow> bool) \<Rightarrow> string \<Rightarrow> string \<Rightarrow> string \<Rightarrow> fused \<Rightarrow> entry list \<Rightarrow> bool" where
  "hybrid_entries x t c q f es \<longleftrightarrow>
     (\<exists>n m. es = [(''search the vectors of '' @ of_column t c, [], n), (''search the text of '' @ of_column t c, q, m),
        (''hybrid search of '' @ of_column t c @ '' for '' @ debug_str x q, ''rrf k='' @ show_nat (fused_effective_k f),
         count_u64 (length (fused_hits f)))])"

lemma logs_hybrid:
  assumes "utf8 t" "utf8 c" "utf8 q" "ends_plain q"
  shows "logs E st path (hybrid_search E st t c q v n) (hybrid_entries (sv_escaped E) t c q)"
proof -
  have own: "plain_entry (''hybrid search of '' @ tick @ t @ tick @ ''.'' @ tick @ c @ tick @ '' for '' @ debug_str x q, ''rrf k='' @ show_nat k, m)"
    for x k m using assms by (auto intro!: plain_record simp: utf8_debug_str)
  note halves = logs_bind [OF logs_nearest [OF assms(1,2)]] logs_bind [OF logs_search_text [OF assms]]
  show ?thesis
    unfolding hybrid_search_def Let_def hybrid_entries_def
    by (rule halves logs_record_then logs_ok logs_then own | (simp add: of_column_def; fail) | (auto simp: of_column_def)[1])+
qed

lemma quiet_commands:
  "keeps w_audit (create_index E st t c)" "keeps w_audit (row_ids_all E st t ps)" "keeps w_audit (row_ids_any E st t ps)"
  "keeps w_audit (row_ids_measured E st t p)" "keeps w_audit (scan_ordered_measured E st t p by order)"
  "keeps w_audit (vector_index_kind_of E st t c)" "keeps w_audit (nearest_uses_the_index E st t c q n)"
  unfolding create_index_def row_ids_all_def row_ids_any_def row_ids_measured_def scan_ordered_measured_def
    vector_index_kind_of_def nearest_uses_the_index_def by (auto split: prod.split)

lemma logs_discard:
  assumes "logs E st path m P" and "\<And>x es. P x es \<Longrightarrow> Q () es"
  shows "logs E st path (discard m) Q"
  unfolding discard_def by (rule logs_bind [OF assms(1)], rule logs_ok, simp add: assms(2))

lemma hybrid_command: "hybrid_entries x t c q f es \<Longrightarrow> command_entries x (HybridSearch t c q v n) es"
  by (auto simp: hybrid_entries_def command_entries_def)

lemmas logs_operations = logs_create_table logs_append logs_update logs_delete logs_drop logs_scan logs_vector_index
  logs_text_index logs_nearest logs_search_text logs_hybrid

lemma logs_command:
  assumes "plain_command cmd"
  shows "logs E st path (run_command E st cmd) (\<lambda>_. command_entries (sv_escaped E) cmd)"
proof (cases "command_log (sv_escaped E) cmd = []")
  case True
  have "keeps w_audit (run_command E st cmd)" using True by (cases cmd) (simp_all add: quiet_commands keeps_discard)
  moreover have "command_entries (sv_escaped E) cmd []" using True by (cases cmd) (simp_all add: command_entries_def)
  ultimately show ?thesis by (rule logs_quiet)
next
  case False
  have "list_all utf8 (command_texts cmd)" "ends_plain (free_plan cmd)" using assms by (simp_all add: plain_command_def)
  with False show ?thesis
    by (cases cmd)
      (simp_all only: run_command.simps,
       auto simp: command_entries_def intro!: logs_discard [OF logs_operations(3)] logs_discard [OF logs_operations(4)]
         logs_discard [OF logs_operations(6)] logs_discard [OF logs_operations(9)] logs_discard [OF logs_operations(10)]
         logs_weaken [OF logs_operations(1)] logs_weaken [OF logs_operations(2)]
         logs_weaken [OF logs_operations(5)] logs_weaken [OF logs_operations(7)] logs_weaken [OF logs_operations(8)]
         logs_discard [OF logs_operations(11)] elim!: hybrid_command)
qed

text \<open>The log reads as the records there were and then records of these entries, and it verifies.\<close>

definition recorded ::
  "('w, 'ds, 'sc, 'ub, 't) services \<Rightarrow> os_path \<Rightarrow> 'w world \<Rightarrow> audit_record list \<Rightarrow> entry list \<Rightarrow> bool" where
  "recorded E path w rs es \<longleftrightarrow>
     (\<exists>rs'. audit_records (sv_audit_env E) (w_audit w path) = Inr (rs @ rs') \<and>
        audit_verify (sv_audit_env E) (sv_digest E) (w_audit w path) = Inr () \<and> map entry_of rs' = es)"

lemma logs_appended:
  assumes "logs E st path m P" and "audit_ready E st path w rs" and "m w = (Inr x, w')"
  obtains es where "P x es" and "recorded E path w' rs es"
proof -
  obtain es where es: "P x es" and ready: "audit_ready E st path w' (chain_of (sv_digest E) rs es)"
    using assms unfolding logs_def by blast
  obtain rs' where rs': "chain_of (sv_digest E) rs es = rs @ rs'" "map entry_of rs' = es"
    using chain_of_extends by blast
  have "audit_records (sv_audit_env E) (w_audit w' path) = Inr (rs @ rs')"
    using ready unfolding audit_ready_def rs'(1)
    by (cases "w_audit w' path") (auto simp: audit_records_def log_ok_def opened_def)
  moreover from this have "audit_verify (sv_audit_env E) (sv_digest E) (w_audit w' path) = Inr ()"
    using ready by (simp add: audit_verify_def audit_ready_def log_ok_def rs'(1))
  ultimately show ?thesis using that [OF es] rs'(2) by (auto simp: recorded_def)
qed

lemma logs_recorded:
  assumes "logs E st path m (\<lambda>x es. es = f x)" and "audit_ready E st path w rs" and "m w = (Inr x, w')"
  shows "recorded E path w' rs (f x)"
  using logs_appended [OF assms] by metis


definition demo_audited :: store where
  "demo_audited = audited demo_writer"

definition demo_log :: os_path where
  "demo_log = ''/db/.euledb-audit.log''"

lemma demo_audited_simps [simp]:
  "st_root demo_audited = ''/db''" "st_write_lock demo_audited = Some \<lparr>wl_handle = 0\<rparr>" "st_session demo_audited = None"
  "st_audit demo_audited = Some demo_log" "st_gate demo_audited = None"
  by (simp_all add: demo_audited_def audited_def demo_log_def LOG_FILE_def path_join_def is_absolute_def)

lemma demo_ready: "audit_ready demo_services demo_audited demo_log (demo_world d) []"
  by (simp add: audit_ready_def demo_env_sound demo_digest_sized log_ok_empty)

lemma demo_notes_path [simp]: "store_uri demo_services demo_audited ''notes'' = ''/db/notes.lance''"
  by (simp add: store_uri_def dataset_path_def path_join_def is_absolute_def)

lemma demo_record [simp]: "fst (record_op demo_services demo_audited q p n (demo_world d)) = Inr ()"
  using append_writes [OF demo_env_sound, of None "[]" demo_digest q p n]
  by (simp add: record_op_def opened_def parse_def first_break_def)

lemma demo_scope [simp]: "require_scope demo_services demo_audited s t = Inr ()"
  by (simp add: require_scope_def)

lemma demo_scan: "fst (run_command demo_services demo_audited (Scan ''notes'') (demo_world demo_disk_notes)) = Inr ()"
  by (simp add: scan_def discard_def act_simps reading_defs)


section \<open>A log that no longer accepts records\<close>

text \<open>The log a handle records into reads as a broken chain.\<close>

definition log_broken :: "('w, 'ds, 'sc, 'ub, 't) services \<Rightarrow> store \<Rightarrow> 'w world \<Rightarrow> bool" where
  "log_broken E st w \<longleftrightarrow>
     (\<exists>path content broken. st_audit st = Some path \<and> w_audit w path = Some content \<and>
        (\<forall>query plan rows. audit_append (sv_audit_env E) (sv_digest E) query plan rows (Some content)
           = (Inl (BrokenChain broken), Some content)))"

definition needs_log :: "('w, 'ds, 'sc, 'ub, 't) services \<Rightarrow> store \<Rightarrow> ('w world, db_error, 'a) act \<Rightarrow> bool" where
  "needs_log E st m \<longleftrightarrow> (\<forall>w. log_broken E st w \<longrightarrow> (\<exists>e. fst (m w) = Inl e))"

lemma needs_record: "needs_log E st (record_op E st q p n)"
  by (auto simp: needs_log_def log_broken_def record_op_def)

lemma needs_here: "needs_log E st m \<Longrightarrow> needs_log E st (act_bind m k)"
  unfolding needs_log_def
proof (intro allI impI)
  fix w assume "\<forall>w. log_broken E st w \<longrightarrow> (\<exists>e. fst (m w) = Inl e)" "log_broken E st w"
  then obtain e where "fst (m w) = Inl e" by blast
  then show "\<exists>e. fst (act_bind m k w) = Inl e" by (simp add: act_simps)
qed

lemma needs_later:
  assumes "keeps w_audit m" and "\<And>x. needs_log E st (k x)"
  shows "needs_log E st (act_bind m k)"
  unfolding needs_log_def
proof (intro allI impI)
  fix w assume w: "log_broken E st w"
  have "log_broken E st (snd (m w))" using w keepsD [OF assms(1), of w] by (simp add: log_broken_def)
  then show "\<exists>e. fst (act_bind m k w) = Inl e"
    using assms(2) by (cases "fst (m w)") (simp_all add: act_simps needs_log_def)
qed

lemma needs_if: "needs_log E st m \<Longrightarrow> needs_log E st n \<Longrightarrow> needs_log E st (if b then m else n)"
  by simp

lemma needs_fail: "needs_log E st (act_of (Inl e))"
  by (simp add: needs_log_def act_run)

lemma needs_discard: "needs_log E st m \<Longrightarrow> needs_log E st (discard m)"
  unfolding discard_def by (rule needs_here)

lemma needs_nearest: "needs_log E st (nearest E st t c q n)"
  unfolding nearest_def by (intro needs_later needs_if needs_fail needs_here [OF needs_record]) auto

lemmas recording_defs = create_table_def append_batch_def update_rows_def delete_rows_def drop_table_def scan_def
  create_vector_index_def create_text_index_def search_text_def hybrid_search_def

lemma needs_command:
  assumes "command_log (sv_escaped E) cmd \<noteq> []"
  shows "needs_log E st (run_command E st cmd)"
  using assms
  by (cases cmd; simp only: run_command.simps command_log.simps recording_defs Let_def split_beta;
      intro needs_discard needs_here [OF needs_nearest] needs_later needs_if needs_fail needs_here [OF needs_record] needs_record needs_nearest;
      simp)

text \<open>A search that succeeded has recorded itself last, in a world whose log no earlier step touched.\<close>

lemma search_text_records:
  assumes "search_text E st table column text limit w = (Inr hits, w')"
  shows "\<exists>v. w_audit v = w_audit w \<and>
    record_op E st (''search the text of '' @ tick @ table @ tick @ ''.'' @ tick @ column @ tick) text
      (count_u64 (length hits)) v = (Inr (), w')"
  using assms unfolding search_text_def
  by (auto simp: act_bind_read act_run act_bind_Inr split: sum.splits)

text \<open>C23: a reader can stop the audit log with a query. A full-text search for a text that ends in a carriage
  return succeeds and is recorded; the record is read back without that character, so the chain counts
  as broken from then on, and every recorded command on every handle of the database fails.\<close>

theorem text_query_stops_audit:
  assumes ready: "audit_ready E st path w rs" and safe: "text = [] \<or> last text \<noteq> carriage"
    and run: "search_text E st table column (text @ [carriage]) limit w = (Inr hits, w')"
    and q: "query = ''search the text of '' @ of_column table column"
    and small: "length query < 2 ^ 64" "length text + 1 < 2 ^ 64" and strs: "list_all utf8 [table, column, text]"
    and r: "r = next_record (sv_digest E) rs query (text @ [carriage]) (count_u64 (length hits))"
    and sep: "digest_separates (sv_digest E) {r, r\<lparr>ar_plan := text\<rparr>}"
    and other: "st_audit st' = Some path"
  shows "audit_verify (sv_audit_env E) (sv_digest E) (w_audit w' path) = Inl (BrokenChain (ar_sequence r)) \<and>
    (\<forall>cmd. command_log (sv_escaped E) cmd \<noteq> [] \<longrightarrow> (\<exists>e. fst (run_command E st' cmd w') = Inl e))"
proof -
  have e: "st_audit st = Some path" "sound_env (sv_audit_env E)" "digest_sized (sv_digest E)"
    "log_ok (sv_digest E) (w_audit w path) rs" using ready by (simp_all add: audit_ready_def)
  obtain v where v: "w_audit v = w_audit w"
    and rec: "record_op E st query (text @ [carriage]) (count_u64 (length hits)) v = (Inr (), w')"
    using search_text_records [OF run] unfolding q of_column_def by blast
  have "take (length REANCHOR) query \<noteq> REANCHOR" unfolding q by (simp add: other_letter)
  moreover have "utf8 query" "utf8 text" using strs by (simp_all add: q)
  ultimately
  obtain content where c: "audit_append (sv_audit_env E) (sv_digest E) query (text @ [carriage]) (count_u64 (length hits)) (w_audit w path)
      = (Inr (), Some content)"
    "audit_verify (sv_audit_env E) (sv_digest E) (Some content) = Inl (BrokenChain (ar_sequence r))"
    "\<forall>query plan rows. audit_append (sv_audit_env E) (sv_digest E) query plan rows (Some content)
      = (Inl (BrokenChain (ar_sequence r)), Some content)"
    using carriage_append_breaks [OF e(2-4) _ safe small _ _ r sep] by blast
  have w': "w_audit w' path = Some content" using rec c(1) v by (auto simp: record_op_def e(1))
  then have "log_broken E st' w'" using other c(3) unfolding log_broken_def by blast
  then have "\<exists>e. fst (run_command E st' cmd w') = Inl e" if "command_log (sv_escaped E) cmd \<noteq> []" for cmd
    using needs_command [OF that, of st'] unfolding needs_log_def by blast
  then show ?thesis using w' c(2) by simp
qed

theorem text_query_stops_audit_witness:
  "\<exists>w'. search_text demo_services demo_audited ''notes'' ''body'' (''x'' @ [carriage]) 10 (demo_world demo_disk_notes)
       = (Inr [RowId 0, RowId 1], w') \<and>
     audit_verify demo_env demo_digest (w_audit w' demo_log) = Inl (BrokenChain 0) \<and>
     (\<exists>e. fst (run_command demo_services demo_audited (Scan ''notes'') w') = Inl e)"
proof -
  let ?E = demo_services and ?q = "''search the text of '' @ of_column ''notes'' ''body''"
  have "fst (search_text ?E demo_audited ''notes'' ''body'' (''x'' @ [carriage]) 10 (demo_world demo_disk_notes)) = Inr [RowId 0, RowId 1]"
    by (simp add: search_text_def act_simps reading_defs demo_rows_of_def demo_batch_def demo_row_field_def
        text_ids_of_batch_def u64_column_def column_by_name_def demo_notes_def Let_def upt_rec)
  then obtain w' where run: "search_text ?E demo_audited ''notes'' ''body'' (''x'' @ [carriage]) 10 (demo_world demo_disk_notes)
      = (Inr [RowId 0, RowId 1], w')" by (metis prod.collapse)
  define r where "r = next_record (sv_digest ?E) [] ?q (''x'' @ [carriage]) (count_u64 (length [RowId 0, RowId 1]))"
  have seq: "ar_sequence r = 0" by (simp add: r_def next_record_def)
  have "demo_digest (record_message r) \<noteq> demo_digest (record_message (r\<lparr>ar_plan := ''x''\<rparr>))"
    by (simp add: r_def next_record_def sealed_record_def demo_digest_def record_message_def ascii_def be64_def
        length_prefix_def Let_def take_Cons' count_u64_def)
  then have "digest_separates (sv_digest ?E) {r, r\<lparr>ar_plan := ''x''\<rparr>}"
    using demo_digest_anchor by (auto simp: digest_separates_def)
  from text_query_stops_audit [OF demo_ready _ run refl _ _ _ r_def this, of demo_audited]
  have "audit_verify demo_env demo_digest (w_audit w' demo_log) = Inl (BrokenChain 0)"
    "\<forall>cmd. command_log (sv_escaped ?E) cmd \<noteq> [] \<longrightarrow> (\<exists>e. fst (run_command ?E demo_audited cmd w') = Inl e)"
    by (simp_all add: seq of_column_def tick_def)
  moreover have "command_log (sv_escaped ?E) (Scan ''notes'') \<noteq> []" by simp
  ultimately show ?thesis using run by blast
qed

end
