(* ===== verification/Store_Claims.thy ===== *)
theory Store_Claims
  imports Store_Audit
begin

text \<open>
  The properties of the table store: who may change what, what a refusal says, what is announced before
  rows go, exact filters as set algebra, and what becomes of the vectors of an auto-embedding column.
\<close>

section \<open>Authority\<close>

text \<open>C3: nothing changes without authority. Whatever command a handle runs, on whatever branch it returns,
  if a byte on disk or a line in the process log is different afterwards, then the handle holds the write
  lock, the command is a writing one, and a gated handle carries the very token its keyring grants
  for that table and that scope.\<close>

theorem change_needs_authority:
  assumes run: "run_command E st cmd w = (r, w')" and change: "w_disk w' \<noteq> w_disk w \<or> w_trace w' \<noteq> w_trace w"
  shows "st_write_lock st \<noteq> None \<and> command_scope cmd \<noteq> Read \<and>
    (\<forall>k caps. st_gate st = Some (gate_new (sv_mac E) k caps) \<longrightarrow>
       grant (sv_mac E) k (command_table cmd) (command_scope cmd) \<in> set caps)"
proof -
  have "authorise E st cmd \<noteq> Inl e" for e
    using refused_first [of E st cmd e] run change by (auto simp: act_run)
  then obtain u where ok: "authorise E st cmd = Inr u" by (cases "authorise E st cmd") auto
  have writing: "writing_name cmd \<noteq> None"
  proof
    assume "writing_name cmd = None"
    from reading_keeps_disk [OF this, of E st] have "w_disk w' = w_disk w" "w_trace w' = w_trace w"
      using run by (auto dest!: keepsD [of _ _ w])
    with change show False by simp
  qed
  then have "command_scope cmd \<noteq> Read" by (cases cmd) simp_all
  then show ?thesis using authorise_Inr [OF ok] writing scope_granted by blast
qed

text \<open>C12: a refusal reveals nothing. A gated handle without the token gets the same answer whatever is on
  disk, whether the table exists or not, and leaves everything as it is; with the token but without the
  write role, a writing command is refused as read-only before the table is touched.\<close>

theorem refusal_reveals_nothing:
  assumes gate: "st_gate st = Some (gate_new (sv_mac E) k caps)"
  shows "(grant (sv_mac E) k (command_table cmd) (command_scope cmd) \<notin> set caps \<longrightarrow>
      run_command E st cmd w = (Inl (StorageError (NotPermitted (command_scope cmd) (command_table cmd))), w)) \<and>
    (grant (sv_mac E) k (command_table cmd) (command_scope cmd) \<in> set caps \<and> st_write_lock st = None \<longrightarrow>
      (\<forall>operation. writing_name cmd = Some operation \<longrightarrow>
         run_command E st cmd w = (Inl (StorageError (ReadOnly operation (command_table cmd))), w)))"
proof (intro conjI impI allI)
  assume "grant (sv_mac E) k (command_table cmd) (command_scope cmd) \<notin> set caps"
  from no_scope_first [OF scope_missing [OF this gate]]
  show "run_command E st cmd w = (Inl (StorageError (NotPermitted (command_scope cmd) (command_table cmd))), w)"
    by (simp add: act_run)
next
  fix operation
  assume granted: "grant (sv_mac E) k (command_table cmd) (command_scope cmd) \<in> set caps \<and> st_write_lock st = None"
    and writing: "writing_name cmd = Some operation"
  have "require_scope E st (command_scope cmd) (command_table cmd) = Inr ()"
    using granted gate by (simp add: require_scope_def permits_iff)
  moreover have "require_write_role st operation (command_table cmd) = Inl (StorageError (ReadOnly operation (command_table cmd)))"
    using granted by (simp add: require_write_role_def)
  ultimately show "run_command E st cmd w = (Inl (StorageError (ReadOnly operation (command_table cmd))), w)"
    using no_role_first writing by (fastforce simp: act_run)
qed

definition demo_gated :: "capability list \<Rightarrow> store" where
  "demo_gated caps = gated demo_mac demo_keyring caps demo_writer"

lemma demo_gated_simps [simp]:
  "st_gate (demo_gated caps) = Some (gate_new demo_mac demo_keyring caps)" "st_root (demo_gated caps) = ''/db''"
  "st_write_lock (demo_gated caps) = Some \<lparr>wl_handle = 0\<rparr>" "st_session (demo_gated caps) = None"
  "st_embedder (demo_gated caps) = None" "st_audit (demo_gated caps) = None"
  by (simp_all add: demo_gated_def gated_def)

theorem refusal_reveals_nothing_witness:
  "run_command demo_services (demo_gated [grant demo_mac demo_keyring ''notes'' Read]) (DropTable ''notes'') (demo_world demo_disk_notes)
     = (Inl (StorageError (NotPermitted Schema ''notes'')), demo_world demo_disk_notes)"
  using refusal_reveals_nothing [of "demo_gated [grant demo_mac demo_keyring ''notes'' Read]" demo_services demo_keyring
      "[grant demo_mac demo_keyring ''notes'' Read]" "DropTable ''notes''" "demo_world demo_disk_notes"]
  by (simp add: grant_def)

theorem change_needs_authority_witness:
  "\<exists>w'. run_command demo_services (demo_gated [grant demo_mac demo_keyring ''notes'' Schema]) (DropTable ''notes'') (demo_world demo_disk_notes)
     = (Inr (), w') \<and> w_disk w' \<noteq> demo_disk_notes \<and> st_write_lock (demo_gated [grant demo_mac demo_keyring ''notes'' Schema]) \<noteq> None"
proof -
  let ?st = "demo_gated [grant demo_mac demo_keyring ''notes'' Schema]"
  let ?w = "(demo_world demo_disk_notes)\<lparr>w_disk := demo_disk_notes(''/db/notes.lance'' := None)\<rparr>"
  have "require_scope demo_services ?st Schema ''notes'' = Inr ()"
    by (simp add: require_scope_def permits_iff)
  then have run: "run_command demo_services ?st (DropTable ''notes'') (demo_world demo_disk_notes) = (Inr (), ?w)"
    by (simp add: drop_table_def act_simps require_write_role_def record_op_def on_disk_def dataset_path_def
        path_join_def is_absolute_def)
  have "w_disk ?w ''/db/notes.lance'' \<noteq> demo_disk_notes ''/db/notes.lance''" by simp
  then have "w_disk ?w \<noteq> demo_disk_notes" by metis
  with change_needs_authority [OF run] show ?thesis using run by auto
qed

section \<open>Deleting\<close>

lemma or_backend_Inr [elim!]:
  assumes "or_backend op t m = Inr x"
  obtains "m = Inr x"
  using assms by (cases m) auto

lemma keeps_trace_reconcile_all [intro, simp]: "keeps w_trace (reconcile_all E st t)"
proof -
  have "keeps w_trace (existing_vectors E st t c)" for c
    using keeps_vectors_of [of w_trace E st t c] by (auto simp: keeps_def existing_vectors_def split: sum.split)
  then have "keeps w_trace (reconcile E st t c)" for c
    unfolding reconcile_def present_rows_def write_vectors_def by (cases "st_embedder st") (auto intro: keeps_if)
  then show ?thesis unfolding reconcile_all_def embedding_columns_def by (auto intro!: keeps_each)
qed

text \<open>No row goes unannounced. On every branch of a delete, either nothing on disk has changed and nothing
  was logged, or the process log has gained exactly one warning, which names the table, the predicate
  and the number of rows the predicate matched on the disk as it was before; a successful delete
  reports what the format removed.\<close>

theorem delete_is_announced:
  assumes run: "delete_rows E st table matching w = (r, w')"
  shows "w_disk w' = w_disk w \<and> w_trace w' = w_trace w \<or>
    (\<exists>dataset n. l_load (sv_lance E) (store_uri E st table) (st_session st) (w_disk w) = Inr dataset \<and>
       l_count (sv_lance E) dataset (Some (predicate_str matching)) (w_disk w) = Inr n \<and>
       w_trace w' = w_trace w @ [DeletingRows table (predicate_str matching) (count_u64 n)] \<and>
       (\<forall>m. r = Inr (Deleted m) \<longrightarrow> fst (l_delete (sv_lance E) dataset (predicate_str matching) (w_disk w)) = Inr m))"
proof -
  let ?L = "sv_lance E" and ?p = "predicate_str matching"
  let ?after = "\<lambda>rows. act_bind (record_op E st (''delete from '' @ tick @ table @ tick @ '' where '' @ ?p) [] rows)
      (\<lambda>_. act_bind (reconcile_all E st table) (\<lambda>_. act_ok (Deleted rows)))"
  have after: "keeps w_trace (?after rows)" for rows by auto
  have result: "rows = m" if "?after rows s = (Inr (Deleted m), s')" for rows m s s'
    using that by (auto simp: act_bind_Inr act_run)
  consider (refused) "w' = w"
    | (deleting) dataset n where "l_load ?L (store_uri E st table) (st_session st) (w_disk w) = Inr dataset"
      "l_count ?L dataset (Some ?p) (w_disk w) = Inr n"
      "act_bind (on_disk ''delete from'' table (l_delete ?L dataset ?p)) ?after
         (w\<lparr>w_trace := w_trace w @ [DeletingRows table ?p (count_u64 n)]\<rparr>) = (r, w')"
    using run unfolding delete_rows_def
    by (auto simp: act_bind_read act_run store_open_def from_disk_def act_bind_step [OF warn_def] split: sum.splits elim!: or_backend_Inr)
  then show ?thesis
  proof cases
    case (deleting dataset n)
    from deleting(3) show ?thesis
    proof (cases rule: act_bindE)
      case (1 e)
      then show ?thesis using deleting by (auto simp: on_disk_def split: prod.splits)
    next
      case (2 rows s)
      then have "w_trace w' = w_trace s" using keepsD [OF after, of rows s] by simp
      moreover have "fst (l_delete ?L dataset ?p (w_disk w)) = Inr rows" "w_trace s = w_trace w @ [DeletingRows table ?p (count_u64 n)]"
        using 2(1) by (auto simp: on_disk_def split: prod.splits elim!: or_backend_Inr)
      ultimately show ?thesis using deleting(1,2) 2(2) result by auto
    qed
  qed simp
qed

lemma demo_writer_path [simp]: "store_uri demo_services demo_writer ''notes'' = ''/db/notes.lance''"
  by (simp add: store_uri_def dataset_path_def path_join_def is_absolute_def)

lemma demo_notes_plain [simp]: "auto_embedding_columns demo_notes = []"
  by (simp add: auto_embedding_columns_def demo_notes_def)

theorem delete_is_announced_witness:
  "\<exists>w'. delete_rows demo_services demo_writer ''notes'' (Predicate ''id = 1'') (demo_world demo_disk_notes) = (Inr (Deleted 2), w') \<and>
     w_trace w' = [DeletingRows ''notes'' ''id = 1'' 2]"
proof -
  let ?m = "delete_rows demo_services demo_writer ''notes'' (Predicate ''id = 1'') (demo_world demo_disk_notes)"
  have "fst ?m = Inr (Deleted 2)"
    by (simp add: delete_rows_def act_simps reading_defs require_scope_def require_write_role_def warn_def on_disk_def
        record_op_def reconcile_all_def embedding_columns_def demo_row_count_def demo_rows_of_def count_u64_def)
  moreover have "w_disk (snd ?m) ''/db/notes.lance'' = Some (demo_notes, [])"
    by (simp add: delete_rows_def act_simps reading_defs require_scope_def require_write_role_def warn_def on_disk_def
        record_op_def reconcile_all_def embedding_columns_def)
  then have "w_disk (snd ?m) \<noteq> demo_disk_notes" by auto
  ultimately show ?thesis
    using delete_is_announced [OF prod.collapse [symmetric], of demo_services demo_writer "''notes''" "Predicate ''id = 1''" "demo_world demo_disk_notes"]
    by (intro exI [of _ "snd ?m"]) (auto simp: demo_row_count_def demo_rows_of_def count_u64_def prod_eq_iff)
qed

section \<open>Exact filters\<close>

text \<open>The rows one predicate selects.\<close>

definition selected ::
  "('w, 'ds, 'sc, 'ub, 't) services \<Rightarrow> store \<Rightarrow> string \<Rightarrow> 'w world \<Rightarrow> predicate \<Rightarrow> u64 set" where
  "selected E st table w p = (case fst (row_ids E st table p w) of Inr ids \<Rightarrow> row_get ` set ids | Inl _ \<Rightarrow> {})"

lemma row_ids_result: "row_ids E st table p w = (r, w') \<Longrightarrow> w' = w"
  using keepsD [OF keeps_row_ids [of "\<lambda>w. w"], of E st table p w] by simp

lemma row_sets:
  assumes laws: "bitmap_laws bm elems"
    and run: "act_map (\<lambda>p. act_bind (row_ids E st table p) (\<lambda>ids. act_ok (row_set_of bm ids))) ps w = (Inr sets, w')"
  shows "w' = w \<and> map elems sets = map (selected E st table w) ps \<and>
    (\<forall>p \<in> set ps. \<exists>ids. row_ids E st table p w = (Inr ids, w))"
  using run
proof (induction ps arbitrary: sets)
  case (Cons p ps)
  from Cons.prems obtain ids w1 rest where ids: "row_ids E st table p w = (Inr ids, w1)" and sets: "sets = row_set_of bm ids # rest"
    and rest: "act_map (\<lambda>p. act_bind (row_ids E st table p) (\<lambda>ids. act_ok (row_set_of bm ids))) ps w1 = (Inr rest, w')"
    by (auto simp: act_bind_Inr act_pure_iff)
  have "w1 = w" using row_ids_result [OF ids] .
  moreover have "elems (row_set_of bm ids) = selected E st table w p"
    using laws ids by (simp add: row_set_of_def bitmap_laws_def selected_def)
  ultimately show ?case using Cons.IH rest ids sets by simp
qed (simp add: act_run)

lemma foldl_elems:
  assumes "bitmap_laws bm elems"
  shows "elems (intersect_all bm first rest) = elems first \<inter> \<Inter> (set (map elems rest))"
    and "elems (union_all bm first rest) = elems first \<union> \<Union> (set (map elems rest))"
  using assms unfolding intersect_all_def union_all_def
  by (induction rest arbitrary: first) (auto simp: bitmap_laws_def)

lemma each_set_sets:
  assumes laws: "bitmap_laws (sv_bitmap E) elems" and run: "each_set E st table (p # ps) op w = (Inr (first, rest), w')"
  shows "w' = w \<and> elems first = selected E st table w p \<and> map elems rest = map (selected E st table w) ps \<and>
    (\<forall>q \<in> set (p # ps). \<exists>ids. row_ids E st table q w = (Inr ids, w))"
proof -
  obtain ids w1 where ids: "row_ids E st table p w = (Inr ids, w1)" and first: "first = row_set_of (sv_bitmap E) ids"
    and rest: "act_map (\<lambda>p. act_bind (row_ids E st table p) (\<lambda>ids. act_ok (row_set_of (sv_bitmap E) ids))) ps w1 = (Inr rest, w')"
    using run by (auto simp: each_set_def act_bind_Inr act_pure_iff)
  have "w1 = w" using row_ids_result [OF ids] .
  moreover have "elems first = selected E st table w p"
    using laws ids by (simp add: first row_set_of_def bitmap_laws_def selected_def)
  ultimately show ?thesis using row_sets [OF laws, of E st table ps w rest w'] rest ids by simp
qed

lemma all_sets:
  assumes laws: "bitmap_laws (sv_bitmap E) elems" and all: "row_ids_all E st table (p # ps) w = (Inr s, w')"
  shows "w' = w" "elems s = (\<Inter>q \<in> set (p # ps). selected E st table w q)"
proof -
  from all obtain first rest where sets: "each_set E st table (p # ps) ''intersect'' w = (Inr (first, rest), w')"
    and s: "s = intersect_all (sv_bitmap E) first rest"
    by (auto simp: row_ids_all_def act_bind_Inr act_run)
  note e = each_set_sets [OF laws sets]
  show "w' = w" using e by simp
  show "elems s = (\<Inter>q \<in> set (p # ps). selected E st table w q)"
    unfolding s foldl_elems(1) [OF laws] using e by simp
qed

text \<open>C20: combined filters are set algebra. When every predicate can be answered, the rows of all of them are
  the intersection of what each selects and the rows of any of them the union, listed once each in
  ascending order; nothing in the world changes; a search hands exactly the intersection to its source
  of candidates and, from a source that keeps its contract, returns rows that every predicate selects; and
  an empty list of predicates is refused by both.\<close>

theorem filters_combine:
  assumes laws: "bitmap_laws (sv_bitmap E) elems"
  shows "(\<forall>s w'. row_ids_all E st table (p # ps) w = (Inr s, w') \<longrightarrow>
        w' = w \<and> elems s = (\<Inter>q \<in> set (p # ps). selected E st table w q) \<and>
        map row_get (row_set_iter (sv_bitmap E) s) = sorted_list_of_set (elems s) \<and>
        filtered_search E st table (p # ps) candidates limit w = candidates s limit w) \<and>
    (candidate_source elems candidates \<longrightarrow> (\<forall>rows w'. filtered_search E st table (p # ps) candidates limit w = (Inr rows, w') \<longrightarrow>
        row_get ` set rows \<subseteq> (\<Inter>q \<in> set (p # ps). selected E st table w q))) \<and>
    (\<forall>s w'. row_ids_any E st table (p # ps) w = (Inr s, w') \<longrightarrow>
        w' = w \<and> elems s = (\<Union>q \<in> set (p # ps). selected E st table w q)) \<and>
    row_ids_all E st table [] w = (Inl (StorageError (NothingToCombine table ''intersect'')), w) \<and>
    row_ids_any E st table [] w = (Inl (StorageError (NothingToCombine table ''unite'')), w)"
proof (intro conjI allI impI)
  fix s w' assume all: "row_ids_all E st table (p # ps) w = (Inr s, w')"
  show "w' = w" and "elems s = (\<Inter>q \<in> set (p # ps). selected E st table w q)"
    using all_sets [OF laws all] by simp_all
  show "map row_get (row_set_iter (sv_bitmap E) s) = sorted_list_of_set (elems s)"
    using laws by (simp add: row_set_iter_def bitmap_laws_def comp_def)
  show "filtered_search E st table (p # ps) candidates limit w = candidates s limit w"
    using all \<open>w' = w\<close> by (simp add: filtered_search_def act_bind_step)
next
  fix rows w' assume source: "candidate_source elems candidates"
    and found: "filtered_search E st table (p # ps) candidates limit w = (Inr rows, w')"
  from found obtain s w1 where all: "row_ids_all E st table (p # ps) w = (Inr s, w1)" and rows: "candidates s limit w1 = (Inr rows, w')"
    by (auto simp: filtered_search_def act_bind_Inr)
  from source rows have "row_get ` set rows \<subseteq> elems s" unfolding candidate_source_def by blast
  with all_sets(2) [OF laws all] show "row_get ` set rows \<subseteq> (\<Inter>q \<in> set (p # ps). selected E st table w q)" by simp
next
  fix s w' assume "row_ids_any E st table (p # ps) w = (Inr s, w')"
  then obtain first rest where sets: "each_set E st table (p # ps) ''unite'' w = (Inr (first, rest), w')"
    and s: "s = union_all (sv_bitmap E) first rest"
    by (auto simp: row_ids_any_def act_bind_Inr act_run)
  note e = each_set_sets [OF laws sets]
  show "w' = w" using e by simp
  show "elems s = (\<Union>q \<in> set (p # ps). selected E st table w q)"
    unfolding s foldl_elems(2) [OF laws] using e by simp
qed (simp_all add: row_ids_all_def row_ids_any_def each_set_def act_run)

lemma demo_row_ids: "row_ids demo_services demo_writer ''notes'' p (demo_world demo_disk_notes)
    = (Inr [RowId 0, RowId 1], demo_world demo_disk_notes)"
  by (simp add: row_ids_def act_simps reading_defs require_scope_def select_row_ids_def demo_rows_of_def demo_batch_def
      demo_row_field_def ids_of_batch_def u64_column_def column_by_name_def demo_notes_def Let_def upt_rec)

text \<open>A source that returns the first rows of what it is given, as the fake of the integration tests does.\<close>

definition demo_source :: "u64 list \<Rightarrow> nat \<Rightarrow> (demo_disk world, db_error, row_id list) act" where
  "demo_source kept limit = act_ok (take limit (row_set_iter demo_bitmap kept))"

lemma demo_source_keeps: "candidate_source set demo_source"
  by (auto simp: candidate_source_def demo_source_def act_ok_def row_set_iter_def demo_bitmap_def comp_def dest!: in_set_takeD)

theorem filters_combine_witness:
  "\<exists>s rows. row_ids_all demo_services demo_writer ''notes'' [Predicate ''a'', Predicate ''b''] (demo_world demo_disk_notes)
       = (Inr s, demo_world demo_disk_notes) \<and> set s = {0, 1} \<and>
     filtered_search demo_services demo_writer ''notes'' [Predicate ''a'', Predicate ''b''] demo_source 1 (demo_world demo_disk_notes)
       = (Inr rows, demo_world demo_disk_notes) \<and> length rows = 1 \<and> row_get ` set rows \<subseteq> {0, 1}"
proof -
  let ?w = "demo_world demo_disk_notes"
  let ?m = "row_ids_all demo_services demo_writer ''notes'' [Predicate ''a'', Predicate ''b'']"
  have "\<exists>s. ?m ?w = (Inr s, ?w)"
    by (simp add: row_ids_all_def each_set_def act_simps demo_row_ids)
  then obtain s where s: "?m ?w = (Inr s, ?w)" by blast
  have "bitmap_laws (sv_bitmap demo_services) set" by (simp add: demo_bitmap_laws)
  note parts = filters_combine [OF this, where st = demo_writer and table = "''notes''" and p = "Predicate ''a''"
      and ps = "[Predicate ''b'']" and w = ?w and candidates = demo_source and limit = 1]
  have sel: "selected demo_services demo_writer ''notes'' ?w q = {0, 1}" for q by (simp add: selected_def demo_row_ids)
  from parts [THEN conjunct1, rule_format, OF s] have "set s = {0, 1}" by (simp add: sel)
  let ?rows = "take 1 (row_set_iter demo_bitmap s)"
  have found: "filtered_search demo_services demo_writer ''notes'' [Predicate ''a'', Predicate ''b''] demo_source 1 ?w = (Inr ?rows, ?w)"
    using s by (simp add: filtered_search_def act_bind_step demo_source_def act_run)
  moreover from parts [THEN conjunct2, THEN conjunct1, rule_format, OF demo_source_keeps found]
  have "row_get ` set ?rows \<subseteq> {0, 1}" by (simp add: sel)
  moreover have "length ?rows = 1" using \<open>set s = {0, 1}\<close> by (simp add: row_set_iter_def demo_bitmap_def)
  ultimately show ?thesis using s \<open>set s = {0, 1}\<close> by blast
qed

end
