(* ===== verification/Table_Rows.thy ===== *)
theory Table_Rows
  imports Store_Claims
begin

text \<open>
  Tables row by row: which batches are well typed, what is relied on of Arrow when a batch is built again
  under a schema that differs in metadata only, and when a table holds certain rows. How a scan cuts the
  rows into batches is the format's; nothing here depends on it.
\<close>

section \<open>Well-typed batches\<close>

text \<open>The arrays of a type. Of the types the code does not name nothing is said.\<close>

fun has_type :: "data_type \<Rightarrow> column \<Rightarrow> bool" where
  "has_type UInt64 c \<longleftrightarrow> (case c of U64Column _ \<Rightarrow> True | _ \<Rightarrow> False)"
| "has_type UInt32 c \<longleftrightarrow> (case c of U32Column _ \<Rightarrow> True | _ \<Rightarrow> False)"
| "has_type Int64 c \<longleftrightarrow> (case c of I64Column _ \<Rightarrow> True | _ \<Rightarrow> False)"
| "has_type Float32 c \<longleftrightarrow> (case c of F32Column _ \<Rightarrow> True | _ \<Rightarrow> False)"
| "has_type (FixedSizeList _ t _ n) c \<longleftrightarrow>
     (case c of ListColumn zs \<Rightarrow> list_all (\<lambda>z. has_type t z \<and> column_length z = n) zs | _ \<Rightarrow> False)"
| "has_type (OtherType _) c \<longleftrightarrow> True"

lemma has_type_iff:
  "has_type UInt64 c \<longleftrightarrow> (\<exists>xs. c = U64Column xs)" "has_type UInt32 c \<longleftrightarrow> (\<exists>ys. c = U32Column ys)"
  "has_type Int64 c \<longleftrightarrow> (\<exists>ns. c = I64Column ns)" "has_type Float32 c \<longleftrightarrow> (\<exists>fs. c = F32Column fs)"
  "has_type (FixedSizeList x t y n) c \<longleftrightarrow> (\<exists>zs. c = ListColumn zs \<and> list_all (\<lambda>z. has_type t z \<and> column_length z = n) zs)"
  by (cases c; simp)+

text \<open>What Arrow guarantees of every batch: a column of its type for every field, all of the batch's length.\<close>

definition typed_batch :: "batch \<Rightarrow> bool" where
  "typed_batch b \<longleftrightarrow> b_columns b \<noteq> [] \<and>
     list_all2 (\<lambda>f c. has_type (f_type f) c \<and> column_length c = b_rows b) (s_fields (b_schema b)) (b_columns b)"

text \<open>Schemas that differ in metadata only.\<close>

definition same_shape :: "data_type schema \<Rightarrow> data_type schema \<Rightarrow> bool" where
  "same_shape s s' \<longleftrightarrow>
     map (\<lambda>f. (f_name f, f_type f, f_nullable f)) (s_fields s) = map (\<lambda>f. (f_name f, f_type f, f_nullable f)) (s_fields s')"

lemma same_shape_simps [simp]: "same_shape s s" "same_shape s s' \<Longrightarrow> same_shape s' s"
  by (simp_all add: same_shape_def)

lemma same_shape_trans: "same_shape s s' \<Longrightarrow> same_shape s' s'' \<Longrightarrow> same_shape s s''"
  by (simp add: same_shape_def)

lemma typed_restamped:
  assumes "typed_batch b" and "same_shape (b_schema b) s"
  shows "typed_batch (b\<lparr>b_schema := s\<rparr>)"
proof -
  have "map f_type (s_fields s) = map f_type (s_fields (b_schema b))"
    using arg_cong [OF assms(2) [unfolded same_shape_def], of "map (fst \<circ> snd)"] by (simp add: o_def)
  then have "list_all2 (\<lambda>t c. has_type t c \<and> column_length c = b_rows b) (map f_type (s_fields s)) (b_columns b)"
    using assms(1) by (simp add: typed_batch_def list.rel_map)
  then show ?thesis using assms(1) by (simp add: typed_batch_def list.rel_map)
qed

text \<open>
  What is relied on of \<open>RecordBatch::try_new\<close>: it looks at the types, the nullability and the lengths, so the
  columns of a batch make a batch under every schema that differs in metadata only.
\<close>

definition rebuilds_batches :: "('w, 'ds, 'sc, 'ub) lance \<Rightarrow> bool" where
  "rebuilds_batches L \<longleftrightarrow>
     (\<forall>b s. typed_batch b \<longrightarrow> same_shape (b_schema b) s \<longrightarrow> l_batch L s (b_columns b) = Inr (b\<lparr>b_schema := s\<rparr>))"

section \<open>Tables as rows\<close>

text \<open>
  A table is loaded with the schema \<open>s\<close>, and a scan of it returns well-typed batches under that schema whose
  rows, taken together, are \<open>rows\<close>.
\<close>

definition table_holds ::
  "('w, 'ds, 'sc, 'ub) lance \<Rightarrow> string \<Rightarrow> block_frame option \<Rightarrow> 'w \<Rightarrow> data_type schema \<Rightarrow> cell list list \<Rightarrow> bool" where
  "table_holds L uri session d s rows \<longleftrightarrow>
     (\<exists>dataset batches. l_load L uri session d = Inr dataset \<and> l_schema L dataset = s \<and> l_start L (l_scan L dataset) d = Inr () \<and>
        l_read L (l_scan L dataset) d = Inr batches \<and> (\<forall>b \<in> set batches. b_schema b = s \<and> typed_batch b) \<and>
        concat (map batch_rows batches) = rows)"

text \<open>
  What is relied on of the format: creating makes an empty table, and appending a batch of the table's columns
  adds its rows after the ones there are, since a scan goes through the fragments in the order they were written.
\<close>

definition format_keeps_rows :: "('w, 'ds, 'sc, 'ub) lance \<Rightarrow> bool" where
  "format_keeps_rows L \<longleftrightarrow>
     (\<forall>uri session s d d1. l_write L s [] uri Create session d = (Inr (), d1) \<longrightarrow> table_holds L uri session d1 s []) \<and>
     (\<forall>uri session s rows b d d1. table_holds L uri session d s rows \<longrightarrow> typed_batch b \<longrightarrow> same_shape (b_schema b) s \<longrightarrow>
        l_write L (b_schema b) [b] uri Append session d = (Inr (), d1) \<longrightarrow> table_holds L uri session d1 s (rows @ batch_rows b))"

end
