(* ===== verification/Store_Vectors.thy ===== *)
theory Store_Vectors
  imports Table_Rows
begin

text \<open>
  The vectors of an auto-embedding column: what reconciling leaves in the companion table, and where a
  write is stored although it is reported as failed.
\<close>

section \<open>The vectors of one row\<close>

definition vectors_for :: "row_vector list \<Rightarrow> u64 \<Rightarrow> f32 list list" where
  "vectors_for vs row = map rv_embedding (filter (\<lambda>v. row_get (rv_row v) = row) vs)"

lemma number_chunks_Inr:
  assumes "number_chunks table row n embs = Inr vs"
  shows "map rv_embedding vs = embs \<and> (\<forall>v \<in> set vs. row_get (rv_row v) = row) \<and>
    (\<forall>v \<in> set embs. length v = VECTOR_WIDTH) \<and> sorted (map rv_chunk vs) \<and>
    (\<forall>v \<in> set vs. (if n < 2 ^ 32 then word_of_nat n else - 1) \<le> rv_chunk v)"
  using assms
proof (induction embs arbitrary: n vs)
  case (Cons e embs)
  let ?c = "\<lambda>n. if n < 2 ^ 32 then word_of_nat n else - 1 :: u32"
  from Cons.prems obtain rest where e: "length e = VECTOR_WIDTH" and rest: "number_chunks table row (Suc n) embs = Inr rest"
    and vs: "vs = \<lparr>rv_row = RowId row, rv_chunk = ?c n, rv_embedding = e\<rparr> # rest"
    by (auto simp: rbind_Inr_iff split: if_splits)
  have c: "unat (?c m) = min m (2 ^ 32 - 1)" for m
    by (auto simp: unsigned_of_nat take_bit_nat_eq_self unsigned_minus_1_eq_mask mask_eq_exp_minus_1)
  have step: "?c n \<le> ?c (Suc n)" unfolding word_le_nat_alt c by simp
  then have "\<forall>v \<in> set rest. ?c n \<le> rv_chunk v" using Cons.IH [OF rest] by (meson order_trans)
  then show ?case using Cons.IH [OF rest] e by (simp add: vs)
qed simp

lemma rebuild_rows:
  assumes "rebuild e table existing present = Inr vs" and "v \<in> set vs"
  shows "row_get (rv_row v) \<in> fst ` set present \<and> length (rv_embedding v) = VECTOR_WIDTH"
  using assms
proof (induction e table existing present arbitrary: vs rule: rebuild.induct)
  case (2 e table existing row t present)
  then show ?case
    by (auto simp: rbind_Inr_iff dest!: number_chunks_Inr)
qed simp

lemma rebuild_row:
  assumes "rebuild e table existing present = Inr vs" and "distinct (map fst present)" and "(row, text) \<in> set present"
  shows "\<exists>embs ns. embeddings_for e table existing row text = Inr embs \<and> number_chunks table row 0 embs = Inr ns \<and>
    filter (\<lambda>v. row_get (rv_row v) = row) vs = ns"
  using assms
proof (induction e table existing present arbitrary: vs rule: rebuild.induct)
  case (2 e table existing row' t' present)
  from "2.prems"(1) obtain embs ns rest where step: "embeddings_for e table existing row' t' = Inr embs"
    "number_chunks table row' 0 embs = Inr ns" "rebuild e table existing present = Inr rest" "vs = ns @ rest"
    by (auto simp: rbind_Inr_iff)
  have ns: "\<forall>v \<in> set ns. row_get (rv_row v) = row'" using number_chunks_Inr [OF step(2)] by blast
  have rest: "row_get (rv_row v) \<noteq> row'" if "v \<in> set rest" for v
    using rebuild_rows [OF step(3) that] "2.prems"(2) by force
  show ?case
  proof (cases "row = row'")
    case True
    then have "text = t'" using "2.prems"(2,3) by force
    moreover have "filter (\<lambda>v. row_get (rv_row v) = row) vs = ns"
      using ns rest by (simp add: True step(4) filter_empty_conv)
    ultimately show ?thesis using True step by auto
  next
    case False
    then have "filter (\<lambda>v. row_get (rv_row v) = row) ns = []" using ns by (simp add: filter_empty_conv)
    then show ?thesis using "2.IH" [OF step(3)] "2.prems"(2,3) False by (simp add: step(4))
  qed
qed simp

text \<open>Sorting by row and chunk does not reorder the chunks of a row.\<close>

lemma vectors_for_sorted:
  assumes "number_chunks table row n embs = Inr (filter (\<lambda>v. row_get (rv_row v) = row) vs)"
  shows "vectors_for (sort_key vector_key vs) row = embs"
proof -
  let ?f = "filter (\<lambda>v. row_get (rv_row v) = row) vs"
  have chunks: "sorted (map rv_chunk ?f)" and embs: "map rv_embedding ?f = embs"
    using number_chunks_Inr [OF assms] by blast+
  have "sorted (map (Pair row) cs)" if "sorted cs" for cs :: "u32 list"
    using that by (induction cs) (auto simp: less_eq_prod_def)
  from this [OF chunks] have "sorted (map vector_key ?f)"
    by (subst map_cong [OF refl, where g = "Pair row \<circ> rv_chunk"]) (auto simp: vector_key_def)
  then have "sort_key vector_key ?f = ?f" by (rule sort_key_id_if_sorted)
  then show ?thesis unfolding vectors_for_def filter_sort using embs by simp
qed

section \<open>Reading a companion table back\<close>

definition vector_batch :: "row_vector list \<Rightarrow> batch" where
  "vector_batch vs =
     \<lparr>b_schema = vector_schema,
      b_columns = [U64Column (map (row_get \<circ> rv_row) vs), U32Column (map rv_chunk vs), ListColumn (map (F32Column \<circ> rv_embedding) vs)],
      b_rows = length vs\<rparr>"

text \<open>
  What is relied on of Arrow and the format: the vectors laid end to end make a list column of the same
  vectors, columns of one length make a batch, and a table that was overwritten with a batch, without a
  session, holds the rows of that batch.
\<close>

definition format_keeps_vectors :: "('w, 'ds, 'sc, 'ub) lance \<Rightarrow> bool" where
  "format_keeps_vectors L \<longleftrightarrow>
     (\<forall>vs. (\<forall>v \<in> set vs. length (rv_embedding v) = VECTOR_WIDTH) \<longrightarrow>
        l_fixed_list L VECTOR_WIDTH (concat (map rv_embedding vs)) = Inr (ListColumn (map (F32Column \<circ> rv_embedding) vs)) \<and>
        l_batch L vector_schema (b_columns (vector_batch vs)) = Inr (vector_batch vs)) \<and>
     (\<forall>b uri d d'. b_schema b = vector_schema \<longrightarrow> typed_batch b \<longrightarrow>
        l_write L vector_schema [b] uri Overwrite None d = (Inr (), d') \<longrightarrow> table_holds L uri None d' vector_schema (batch_rows b))"

lemma zip_vectors_back:
  "zip_vectors bad (map (row_get \<circ> rv_row) vs) (map rv_chunk vs) (map (F32Column \<circ> rv_embedding) vs) = Inr vs"
  by (induction vs) simp_all

lemma vectors_of_batch_back: "vectors_of_batch op bad t (vector_batch vs) = Inr vs"
  by (simp add: vectors_of_batch_def vector_batch_def u64_column_def u32_column_def list_column_def column_by_name_def
      vector_schema_def zip_vectors_back)

lemma stripped_vector_schema: "stripped_from vector_schema = vector_schema"
  by (simp add: stripped_from_def vector_schema_def fun_upd_idem)

lemma vector_batch_schema: "b_schema (vector_batch vs) = vector_schema"
  by (simp add: vector_batch_def)

text \<open>Every batch of the companion table's schema is the batch of some vectors, and its rows are theirs.\<close>

lemma vector_batch_rows:
  "batch_rows (vector_batch vs)
     = map (\<lambda>v. [U64Cell (row_get (rv_row v)), U32Cell (rv_chunk v), ListCell (F32Column (rv_embedding v))]) vs"
  by (rule nth_equalityI) (simp_all add: batch_rows_def vector_batch_def)

lemma concat_vector_rows:
  assumes "concat (map (batch_rows \<circ> vector_batch) vss) = batch_rows (vector_batch vs)"
  shows "concat vss = vs"
proof -
  let ?row = "\<lambda>v :: row_vector. [U64Cell (row_get (rv_row v)), U32Cell (rv_chunk v), ListCell (F32Column (rv_embedding v))]"
  have "map ?row (concat vss) = map ?row vs" using assms by (simp add: vector_batch_rows map_concat o_def)
  moreover have "inj ?row" by (rule injI) (auto intro!: row_vector.equality row_id.expand)
  ultimately show ?thesis by (simp add: inj_map_eq_map)
qed

lemma float_columns: "list_all (has_type Float32) zs \<Longrightarrow> \<exists>fs. zs = map F32Column fs"
proof (induction zs)
  case (Cons z zs)
  then obtain fs f where "zs = map F32Column fs" "z = F32Column f" by (auto simp: has_type_iff simp del: has_type.simps)
  then show ?case by (intro exI [of _ "f # fs"]) simp
qed simp

lemma typed_vectors:
  assumes "b_schema b = vector_schema" and "typed_batch b"
  obtains vs where "b = vector_batch vs" and "\<forall>v \<in> set vs. length (rv_embedding v) = VECTOR_WIDTH"
proof -
  obtain xs ys zs where cols: "b_columns b = [U64Column xs, U32Column ys, ListColumn zs]"
    and size: "length xs = b_rows b" "length ys = b_rows b" "length zs = b_rows b"
    and floats: "list_all (has_type Float32) zs" "list_all (\<lambda>z. column_length z = VECTOR_WIDTH) zs"
    using assms
    by (auto simp: typed_batch_def vector_schema_def list_all2_Cons1 column_length_def list_all_iff has_type_iff simp del: has_type.simps)
  obtain fs where fs: "zs = map F32Column fs" using float_columns [OF floats(1)] ..
  define vs where "vs = map (\<lambda>i. \<lparr>rv_row = RowId (xs ! i), rv_chunk = ys ! i, rv_embedding = fs ! i\<rparr>) [0..<b_rows b]"
  have parts: "map (row_get \<circ> rv_row) vs = xs" "map rv_chunk vs = ys" "map rv_embedding vs = fs"
    using size by (auto simp: vs_def fs intro!: nth_equalityI)
  have "b = vector_batch vs"
    using assms(1) cols parts by (intro batch.equality) (simp_all add: vector_batch_def fs flip: map_map, simp add: vs_def)
  moreover have "\<forall>v \<in> set vs. length (rv_embedding v) = VECTOR_WIDTH"
    using floats(2) parts(3) by (auto simp: fs list_all_iff column_length_def)
  ultimately show thesis by (rule that)
qed

lemma typed_vector_batch:
  assumes "\<forall>v \<in> set vs. length (rv_embedding v) = VECTOR_WIDTH"
  shows "typed_batch (vector_batch vs)"
  using assms by (auto simp: typed_batch_def vector_batch_def vector_schema_def column_length_def list_all_iff)

text \<open>Reading the batches of vectors, however they are cut.\<close>

lemma read_vectors:
  assumes "\<forall>b \<in> set batches. b_schema b = vector_schema \<and> typed_batch b"
    and "concat (map batch_rows batches) = batch_rows (vector_batch vs)"
    and builds: "\<And>vs. \<forall>v \<in> set vs. length (rv_embedding v) = VECTOR_WIDTH \<Longrightarrow>
      l_batch L vector_schema (b_columns (vector_batch vs)) = Inr (vector_batch vs)"
  shows "rmap (\<lambda>b. or_backend op t (l_batch L (stripped_from (b_schema b)) (b_columns b))) batches = Inr batches"
    and "\<exists>vss. rmap (vectors_of_batch op' bad t) batches = Inr vss \<and> concat vss = vs"
proof -
  have "\<forall>b \<in> set batches. \<exists>us. b = vector_batch us \<and> (\<forall>v \<in> set us. length (rv_embedding v) = VECTOR_WIDTH)"
    using assms(1) typed_vectors by metis
  from bchoice [OF this] obtain vecs where
    vecs: "\<And>b. b \<in> set batches \<Longrightarrow> vector_batch (vecs b) = b"
      "\<And>b. b \<in> set batches \<Longrightarrow> \<forall>v \<in> set (vecs b). length (rv_embedding v) = VECTOR_WIDTH" by metis
  have "l_batch L (stripped_from (b_schema b)) (b_columns b) = Inr b" if "b \<in> set batches" for b
    using builds [OF vecs(2) [OF that]] vecs(1) [OF that] assms(1) that by (simp add: stripped_vector_schema)
  then show "rmap (\<lambda>b. or_backend op t (l_batch L (stripped_from (b_schema b)) (b_columns b))) batches = Inr batches"
    using rmap_map [of batches "\<lambda>b. or_backend op t (l_batch L (stripped_from (b_schema b)) (b_columns b))" "\<lambda>b. b"] by simp
  have "rmap (vectors_of_batch op' bad t) batches = Inr (map vecs batches)"
    using vectors_of_batch_back vecs(1) by (intro rmap_map) metis
  moreover have "concat (map (batch_rows \<circ> vector_batch) (map vecs batches)) = batch_rows (vector_batch vs)"
    using assms(2) vecs(1) by (simp add: o_def cong: map_cong)
  ultimately show "\<exists>vss. rmap (vectors_of_batch op' bad t) batches = Inr vss \<and> concat vss = vs"
    using concat_vector_rows by blast
qed

lemma vectors_read_back:
  assumes "format_keeps_vectors (sv_lance E)" and "st_session st = None" and "require_scope E st Read table = Inr ()"
    and width: "\<forall>v \<in> set vs. length (rv_embedding v) = VECTOR_WIDTH"
    and run: "write_vectors E st table column vs w = (Inr (), w')"
  shows "vectors_of E st table column w' = (Inr (sort_key vector_key vs), w')"
proof -
  let ?L = "sv_lance E" and ?uri = "store_uri E st (vector_table table column)"
  have columns: "l_fixed_list ?L VECTOR_WIDTH (concat (map rv_embedding vs)) = Inr (ListColumn (map (F32Column \<circ> rv_embedding) vs))"
    and batch: "\<And>vs. \<forall>v \<in> set vs. length (rv_embedding v) = VECTOR_WIDTH \<Longrightarrow>
      l_batch ?L vector_schema (b_columns (vector_batch vs)) = Inr (vector_batch vs)"
    using assms(1) width unfolding format_keeps_vectors_def by blast+
  have "on_disk ''write the vectors of'' table (l_write ?L vector_schema [vector_batch vs] ?uri Overwrite None) w = (Inr (), w')"
    using run columns batch [OF width] by (simp add: write_vectors_def vector_batch_def)
  then have "l_write ?L vector_schema [vector_batch vs] ?uri Overwrite None (w_disk w) = (Inr (), w_disk w')"
    by (auto simp: on_disk_def split: prod.splits)
  then have "table_holds ?L ?uri None (w_disk w') vector_schema (batch_rows (vector_batch vs))"
    using assms(1) typed_vector_batch [OF width] vector_batch_schema unfolding format_keeps_vectors_def by blast
  then obtain dataset batches where load: "l_load ?L ?uri None (w_disk w') = Inr dataset"
    "l_start ?L (l_scan ?L dataset) (w_disk w') = Inr ()" "l_read ?L (l_scan ?L dataset) (w_disk w') = Inr batches"
    and rows: "\<forall>b \<in> set batches. b_schema b = vector_schema \<and> typed_batch b" "concat (map batch_rows batches) = batch_rows (vector_batch vs)"
    by (auto simp: table_holds_def)
  obtain vss where vss: "rmap (vectors_of_batch ''read the vectors of'' ''embeddings are not f32'' table) batches = Inr vss"
    "concat vss = vs"
    using read_vectors(2) [OF rows batch] by blast
  with load assms(2,3) read_vectors(1) [OF rows batch] show ?thesis
    by (simp add: vectors_of_def act_simps reading_defs)
qed

text \<open>C2: reconciling brings a column's vectors into agreement with its rows. After a reconciliation that
  succeeded, the companion table of a table with rows reads back, holds vectors of rows that are there
  and of no others, and for every row: the vectors it had, in the order of its chunks, or, when it had
  none, exactly what the embedder makes of its text, chunk by chunk.\<close>

theorem reconcile_agrees:
  assumes st: "st_session st = None" "require_scope E st Read table = Inr ()" "st_embedder st = Some e"
    and fmt: "format_keeps_vectors (sv_lance E)"
    and before: "existing_vectors E st table column w = (Inr existing, w)" "present_rows E st table column w = (Inr present, w)"
    and rows: "distinct (map fst present)" "present \<noteq> []"
    and run: "reconcile E st table column w = (Inr (), w')"
  shows "\<exists>vs. vectors_of E st table column w' = (Inr vs, w') \<and>
    (\<forall>v \<in> set vs. row_get (rv_row v) \<in> fst ` set present) \<and>
    (\<forall>(row, text) \<in> set present.
       if vectors_for existing row \<noteq> [] then vectors_for vs row = vectors_for existing row
       else em_passage e text = Inr (vectors_for vs row))"
proof (cases "set (map fst present) = set (map (row_get \<circ> rv_row) existing)")
  case True
  then have same: "w' = w" using run before by (simp add: reconcile_def st(3) act_bind_step act_run)
  have "existing \<noteq> []" using True rows(2) by auto
  then have "vectors_of E st table column w = (Inr existing, w)"
    using before(1) by (auto simp: existing_vectors_def split: sum.splits)
  moreover have "vectors_for existing row \<noteq> []" if "(row, t) \<in> set present" for row t
  proof -
    have "row \<in> set (map (row_get \<circ> rv_row) existing)" using True that by force
    then show ?thesis by (auto simp: vectors_for_def filter_empty_conv)
  qed
  ultimately show ?thesis using True same by (intro exI [of _ existing]) auto
next
  case False
  then obtain vs where vs: "rebuild e table existing present = Inr vs" and written: "write_vectors E st table column vs w = (Inr (), w')"
    using run before by (cases "rebuild e table existing present") (auto simp: reconcile_def st(3) act_bind_step act_run)
  have "\<forall>v \<in> set vs. length (rv_embedding v) = VECTOR_WIDTH" using rebuild_rows [OF vs] by blast
  note reread = vectors_read_back [OF fmt st(1,2) this written]
  have "if vectors_for existing row \<noteq> [] then vectors_for (sort_key vector_key vs) row = vectors_for existing row
      else em_passage e t = Inr (vectors_for (sort_key vector_key vs) row)" if live: "(row, t) \<in> set present" for row t
  proof -
    obtain embs ns where e: "embeddings_for e table existing row t = Inr embs" "number_chunks table row 0 embs = Inr ns"
      "filter (\<lambda>v. row_get (rv_row v) = row) vs = ns" using rebuild_row [OF vs rows(1) live] by blast
    then have "vectors_for (sort_key vector_key vs) row = embs" by (intro vectors_for_sorted) simp
    then show ?thesis
      using e(1) by (cases "em_passage e t") (auto simp: embeddings_for_def vectors_for_def Let_def split: if_splits)
  qed
  then show ?thesis using reread rebuild_rows [OF vs] by (intro exI [of _ "sort_key vector_key vs"]) auto
qed

definition demo_vector :: "string \<Rightarrow> f32 list" where
  "demo_vector t = replicate VECTOR_WIDTH (word_of_nat (length t))"

definition demo_embedder :: embedder where
  "demo_embedder = \<lparr>em_passage = (\<lambda>t. Inr [demo_vector t]), em_query = (\<lambda>t. Inr (demo_vector t))\<rparr>"

definition demo_embedding :: store where
  "demo_embedding = embedding demo_embedder demo_writer"

lemma demo_vector_simps [simp]:
  "em_passage demo_embedder t = Inr [demo_vector t]" "length (demo_vector t) = VECTOR_WIDTH"
  by (simp_all add: demo_embedder_def demo_vector_def)

lemma demo_embedding_simps [simp]:
  "st_root demo_embedding = ''/db''" "st_write_lock demo_embedding = Some \<lparr>wl_handle = 0\<rparr>" "st_session demo_embedding = None"
  "st_embedder demo_embedding = Some demo_embedder" "st_audit demo_embedding = None" "st_gate demo_embedding = None"
  by (simp_all add: demo_embedding_def embedding_def)

lemma demo_embedding_paths [simp]:
  "store_uri demo_services demo_embedding ''notes'' = ''/db/notes.lance''"
  "store_uri demo_services demo_embedding (vector_table ''notes'' ''body'') = ''/db/notes.body.vectors.lance''"
  by (simp_all add: store_uri_def dataset_path_def path_join_def is_absolute_def vector_table_def)

lemma demo_embedding_scope [simp]: "require_scope demo_services demo_embedding s t = Inr ()"
  by (simp add: require_scope_def)

lemma demo_keeps_vectors: "format_keeps_vectors demo_lance"
proof -
  have "l_fixed_list demo_lance VECTOR_WIDTH (concat (map rv_embedding vs)) = Inr (ListColumn (map (F32Column \<circ> rv_embedding) vs))"
    if "\<forall>v \<in> set vs. length (rv_embedding v) = VECTOR_WIDTH" for vs
    using chunks_concat [of VECTOR_WIDTH "map rv_embedding vs" "[]"] that by (simp add: VECTOR_WIDTH_def)
  moreover have "table_holds demo_lance uri None d' vector_schema (batch_rows b)"
    if "b_schema b = vector_schema" "typed_batch b" "l_write demo_lance vector_schema [b] uri Overwrite None d = (Inr (), d')" for b uri d d'
    using that by (auto simp: table_holds_def demo_write_def demo_load_def demo_batch_def split: if_splits option.splits)
  moreover have "l_batch demo_lance vector_schema (b_columns (vector_batch vs)) = Inr (vector_batch vs)" for vs
    by (simp add: vector_batch_def column_length_def)
  ultimately show ?thesis unfolding format_keeps_vectors_def by blast
qed

lemma demo_present: "present_rows demo_services demo_embedding ''notes'' ''body'' (demo_world demo_disk_notes)
    = (Inr [(0, ''a''), (1, ''b'')], demo_world demo_disk_notes)"
  by (simp add: present_rows_def act_simps reading_defs demo_rows_of_def demo_batch_def demo_row_field_def
      present_of_batch_def u64_column_def text_column_def column_by_name_def demo_notes_def Let_def upt_rec)

lemma demo_existing: "existing_vectors demo_services demo_embedding ''notes'' ''body'' (demo_world demo_disk_notes)
    = (Inr [], demo_world demo_disk_notes)"
  by (simp add: existing_vectors_def act_simps reading_defs demo_disk_notes_def)

theorem reconcile_agrees_witness:
  "\<exists>w' vs. reconcile demo_services demo_embedding ''notes'' ''body'' (demo_world demo_disk_notes) = (Inr (), w') \<and>
     vectors_of demo_services demo_embedding ''notes'' ''body'' w' = (Inr vs, w') \<and>
     vectors_for vs 0 = [demo_vector ''a''] \<and> vectors_for vs 1 = [demo_vector ''b'']"
proof -
  let ?m = "reconcile demo_services demo_embedding ''notes'' ''body'' (demo_world demo_disk_notes)"
  have "fst ?m = Inr ()"
    by (simp add: reconcile_def act_simps demo_present demo_existing embeddings_for_def write_vectors_def on_disk_def
        demo_write_def demo_reach_def)
  then obtain w' where run: "?m = (Inr (), w')" by (metis prod.collapse)
  have fmt: "format_keeps_vectors (sv_lance demo_services)" by (simp add: demo_keeps_vectors)
  from reconcile_agrees [OF _ _ _ fmt demo_existing demo_present _ _ run, of demo_embedder]
  obtain vs where "vectors_of demo_services demo_embedding ''notes'' ''body'' w' = (Inr vs, w')"
    "vectors_for vs 0 = [demo_vector ''a'']" "vectors_for vs 1 = [demo_vector ''b'']"
    by (auto simp: vectors_for_def)
  with run show ?thesis by blast
qed

section \<open>Stored although reported as failed\<close>

lemma encrypted_scheme:
  assumes "st_session st \<noteq> None"
  shows "take 9 (store_uri E st table) = ''euledb://''"
  using assms by (simp add: store_uri_def provider_uri_def SCHEME_def Let_def split: option.split)

lemma append_reconciles:
  assumes scope: "require_scope E st Write table = Inr ()" and role: "st_write_lock st \<noteq> None" and log: "st_audit st = None"
    and stored: "l_write (sv_lance E) (b_schema b) [b] (store_uri E st table) Append (st_session st) (w_disk w) = (Inr (), d)"
    and dataset: "l_load (sv_lance E) (store_uri E st table) (st_session st) d = Inr dataset"
  shows "append_batch E st table b w
    = act_each (reconcile E st table) (auto_embedding_columns (l_schema (sv_lance E) dataset)) (w\<lparr>w_disk := d\<rparr>)"
  using assms
  by (simp add: append_batch_def act_bind_read act_bind_def act_run require_write_role_def on_disk_def record_op_def
      reconcile_all_def embedding_columns_def reading_defs)

text \<open>C21: an insert that fails may have stored its rows. For a table with an auto-embedding column the rows
  are committed before the column is looked at. Without an embedder, without a token to read the
  vectors that are already there, or on an encrypted database, whose companion table is written outside
  the encrypted scheme and so never, the insert returns an error and the rows are on disk.\<close>

theorem failed_insert_is_stored:
  assumes scope: "require_scope E st Write table = Inr ()" and role: "st_write_lock st \<noteq> None" and log: "st_audit st = None"
    and stored: "l_write (sv_lance E) (b_schema b) [b] (store_uri E st table) Append (st_session st) (w_disk w) = (Inr (), d)"
    and dataset: "l_load (sv_lance E) (store_uri E st table) (st_session st) d = Inr dataset"
    and column: "auto_embedding_columns (l_schema (sv_lance E) dataset) = column # rest"
  shows "(st_embedder st = None \<longrightarrow>
      append_batch E st table b w
        = (Inl (backend ''embed the auto-embedding column of'' table
             ''this handle has no embedder: open it with `embedding(..)`''), w\<lparr>w_disk := d\<rparr>)) \<and>
    (st_embedder st \<noteq> None \<and> require_scope E st Read table = Inl e \<and>
      l_load (sv_lance E) (store_uri E st (vector_table table column)) (st_session st) d = Inr companion \<longrightarrow>
      append_batch E st table b w = (Inl e, w\<lparr>w_disk := d\<rparr>)) \<and>
    (st_embedder st = Some em \<and> st_session st \<noteq> None \<and>
      (\<forall>s bs uri mode d. take 9 uri = ''euledb://'' \<longrightarrow> l_write (sv_lance E) s bs uri mode None d = (Inl cause, d)) \<and>
      existing_vectors E st table column (w\<lparr>w_disk := d\<rparr>) = (Inr existing, w\<lparr>w_disk := d\<rparr>) \<and>
      present_rows E st table column (w\<lparr>w_disk := d\<rparr>) = (Inr present, w\<lparr>w_disk := d\<rparr>) \<and>
      set (map fst present) \<noteq> set (map (row_get \<circ> rv_row) existing) \<longrightarrow>
      (\<exists>e. append_batch E st table b w = (Inl e, w\<lparr>w_disk := d\<rparr>)))"
proof -
  let ?w = "w\<lparr>w_disk := d\<rparr>"
  have append: "append_batch E st table b w = act_bind (reconcile E st table column) (\<lambda>_. act_each (reconcile E st table) rest) ?w"
    using append_reconciles [OF scope role log stored dataset] column by simp
  have first: "append_batch E st table b w = (Inl e, ?w)" if "reconcile E st table column ?w = (Inl e, ?w)" for e
    unfolding append using that by (rule act_bind_fail)
  have noscope: "reconcile E st table column ?w = (Inl e, ?w)"
    if "st_embedder st = Some em" "require_scope E st Read table = Inl e"
      "l_load (sv_lance E) (store_uri E st (vector_table table column)) (st_session st) d = Inr companion" for e em
    using that by (simp add: reconcile_def existing_vectors_def vectors_of_def act_bind_def act_run reading_defs)
  have sealed: "\<exists>e. reconcile E st table column ?w = (Inl e, ?w)"
    if em: "st_embedder st = Some em" and session: "st_session st \<noteq> None"
      and refused: "\<forall>s bs uri mode d. take 9 uri = ''euledb://'' \<longrightarrow> l_write (sv_lance E) s bs uri mode None d = (Inl cause, d)"
      and rows: "existing_vectors E st table column ?w = (Inr existing, ?w)" "present_rows E st table column ?w = (Inr present, ?w)"
      and differ: "set (map fst present) \<noteq> set (map (row_get \<circ> rv_row) existing)"
  proof -
    have unknown: "l_write (sv_lance E) s bs (store_uri E st t) mode None d' = (Inl cause, d')" for s bs mode d' t
      using refused encrypted_scheme [OF session, of E t] by blast
    have "\<exists>e. write_vectors E st table column vs ?w = (Inl e, ?w)" for vs
      by (cases "l_fixed_list (sv_lance E) VECTOR_WIDTH (concat (map rv_embedding vs))";
          cases "l_batch (sv_lance E) vector_schema [U64Column (map (row_get \<circ> rv_row) vs), U32Column (map rv_chunk vs),
            projr (l_fixed_list (sv_lance E) VECTOR_WIDTH (concat (map rv_embedding vs)))]")
        (simp_all add: write_vectors_def act_bind_def act_run on_disk_def unknown)
    then show ?thesis
      using differ em by (cases "rebuild em table existing present")
        (simp_all add: reconcile_def act_simps rows)
  qed
  show ?thesis
  proof (intro conjI impI; (elim conjE)?)
    assume "st_embedder st = None"
    then show "append_batch E st table b w
        = (Inl (backend ''embed the auto-embedding column of'' table
             ''this handle has no embedder: open it with `embedding(..)`''), ?w)"
      by (intro first) (simp add: reconcile_def act_run)
  next
    assume "st_embedder st \<noteq> None" "require_scope E st Read table = Inl e"
      "l_load (sv_lance E) (store_uri E st (vector_table table column)) (st_session st) d = Inr companion"
    then show "append_batch E st table b w = (Inl e, ?w)" using noscope first by blast
  qed (use sealed first in blast)
qed

definition demo_marked :: demo_disk where
  "demo_marked = [''/db/notes.lance'' \<mapsto> (auto_embedding ''body'' demo_notes, [])]"

definition demo_sealing :: store where
  "demo_sealing = demo_embedding\<lparr>st_session := Some demo_frame\<rparr>"

definition demo_sealed_disk :: demo_disk where
  "demo_sealed_disk = [''euledb:///db/notes.lance'' \<mapsto> (auto_embedding ''body'' demo_notes, [])]"

lemma demo_marked_columns [simp]: "auto_embedding_columns (auto_embedding ''body'' demo_notes) = [''body'']"
  by (simp add: auto_embedding_columns_def auto_embedding_def mark_auto_embedding_def demo_notes_def)

lemma demo_sealing_simps [simp]:
  "st_root demo_sealing = ''/db''" "st_write_lock demo_sealing = Some \<lparr>wl_handle = 0\<rparr>" "st_session demo_sealing = Some demo_frame"
  "st_embedder demo_sealing = Some demo_embedder" "st_audit demo_sealing = None" "st_gate demo_sealing = None"
  by (simp_all add: demo_sealing_def)

lemma demo_sealing_paths [simp]:
  "store_uri demo_services demo_sealing ''notes'' = ''euledb:///db/notes.lance''"
  "store_uri demo_services demo_sealing (vector_table ''notes'' ''body'') = ''euledb:///db/notes.body.vectors.lance''"
  "store_uri demo_services demo_writer ''notes'' = ''/db/notes.lance''"
  by (simp_all add: store_uri_def provider_uri_def SCHEME_def dataset_path_def path_join_def is_absolute_def vector_table_def
      demo_services_def)

theorem failed_insert_is_stored_witness:
  "(\<exists>e w'. append_batch demo_services demo_writer ''notes'' (demo_rows_of [''a'']) (demo_world demo_marked) = (Inl e, w') \<and>
     w_disk w' ''/db/notes.lance'' = Some (auto_embedding ''body'' demo_notes, [demo_rows_of [''a'']])) \<and>
   (\<exists>e w'. append_batch demo_services demo_sealing ''notes'' (demo_rows_of [''a'']) (demo_world demo_sealed_disk) = (Inl e, w') \<and>
     w_disk w' ''euledb:///db/notes.lance'' = Some (auto_embedding ''body'' demo_notes, [demo_rows_of [''a'']]))"
proof
  let ?rows = "(auto_embedding ''body'' demo_notes, [demo_rows_of [''a'']])"
  let ?d = "demo_marked(''/db/notes.lance'' \<mapsto> ?rows)"
  have "append_batch demo_services demo_writer ''notes'' (demo_rows_of [''a'']) (demo_world demo_marked)
      = (Inl (backend ''embed the auto-embedding column of'' ''notes''
          ''this handle has no embedder: open it with `embedding(..)`''), (demo_world demo_marked)\<lparr>w_disk := ?d\<rparr>)"
    using failed_insert_is_stored [of demo_services demo_writer "''notes''" "demo_rows_of [''a'']" "demo_world demo_marked" ?d
        "(''/db/notes.lance'', ?rows)" "''body''" "[]"]
    by (simp add: require_scope_def demo_write_def demo_reach_def demo_marked_def)
  then show "\<exists>e w'. append_batch demo_services demo_writer ''notes'' (demo_rows_of [''a'']) (demo_world demo_marked) = (Inl e, w') \<and>
     w_disk w' ''/db/notes.lance'' = Some ?rows" by simp
next
  let ?rows = "(auto_embedding ''body'' demo_notes, [demo_rows_of [''a'']])"
  let ?d = "demo_sealed_disk(''euledb:///db/notes.lance'' \<mapsto> ?rows)"
  let ?w = "(demo_world demo_sealed_disk)\<lparr>w_disk := ?d\<rparr>"
  have load: "demo_load u (Some f) d = (case d u of None \<Rightarrow> Inl ''no such table'' | Some (s, bs) \<Rightarrow> Inr (u, s, bs))" for u f d
    by (simp add: demo_load_def demo_reach_def)
  have "existing_vectors demo_services demo_sealing ''notes'' ''body'' ?w = (Inr [], ?w)"
    by (simp add: existing_vectors_def act_simps reading_defs load demo_sealed_disk_def)
  moreover have "present_rows demo_services demo_sealing ''notes'' ''body'' ?w = (Inr [(0, ''a'')], ?w)"
    by (simp add: present_rows_def act_simps reading_defs load demo_rows_of_def demo_batch_def demo_row_field_def
        present_of_batch_def u64_column_def text_column_def column_by_name_def demo_notes_def Let_def upt_rec)
  moreover have "\<forall>s bs uri mode d. take 9 uri = ''euledb://'' \<longrightarrow> l_write (sv_lance demo_services) s bs uri mode None d
      = (Inl ''no provider for the scheme'', d)" by (simp add: demo_write_def demo_reach_def)
  ultimately show "\<exists>e w'. append_batch demo_services demo_sealing ''notes'' (demo_rows_of [''a'']) (demo_world demo_sealed_disk) = (Inl e, w') \<and>
     w_disk w' ''euledb:///db/notes.lance'' = Some ?rows"
    using failed_insert_is_stored [of demo_services demo_sealing "''notes''" "demo_rows_of [''a'']" "demo_world demo_sealed_disk" ?d
        "(''euledb:///db/notes.lance'', ?rows)" "''body''" "[]"]
    by (fastforce simp: require_scope_def demo_write_def demo_reach_def demo_sealed_disk_def load)
qed

section \<open>Vectors of a table that is gone\<close>

text \<open>What is at one address reads the same on two disks; and what is done at one address leaves another alone.\<close>

definition reads_alike :: "('w, 'ds, 'sc, 'ub) lance \<Rightarrow> string \<Rightarrow> 'w \<Rightarrow> 'w \<Rightarrow> bool" where
  "reads_alike L uri d d' \<longleftrightarrow>
     (\<forall>session. l_load L uri session d' = l_load L uri session d \<and>
        (\<forall>dataset. l_load L uri session d = Inr dataset \<longrightarrow>
           l_start L (l_scan L dataset) d' = l_start L (l_scan L dataset) d \<and>
           l_read L (l_scan L dataset) d' = l_read L (l_scan L dataset) d))"

definition apart :: "('w, 'ds, 'sc, 'ub) lance \<Rightarrow> string \<Rightarrow> string \<Rightarrow> bool" where
  "apart L uri other \<longleftrightarrow>
     (\<forall>s bs mode session d. reads_alike L uri d (snd (l_write L s bs other mode session d))) \<and>
     (\<forall>d. reads_alike L uri d (snd (l_remove_dir L other d)))"

lemma reads_alike_trans: "reads_alike L uri d d' \<Longrightarrow> reads_alike L uri d' d'' \<Longrightarrow> reads_alike L uri d d''"
  by (simp add: reads_alike_def)

lemma vectors_alike:
  assumes "reads_alike (sv_lance E) (store_uri E st (vector_table table column)) (w_disk w) (w_disk w')"
    and "vectors_of E st table column w = (Inr vs, w)"
  shows "vectors_of E st table column w' = (Inr vs, w')" and "existing_vectors E st table column w' = (Inr vs, w')"
proof -
  let ?L = "sv_lance E" and ?uri = "store_uri E st (vector_table table column)"
  from assms(2) obtain dataset where load: "l_load ?L ?uri (st_session st) (w_disk w) = Inr dataset"
    by (auto simp: vectors_of_def act_bind_Inr store_open_def from_disk_def act_run)
  with assms(1) have same: "l_load ?L ?uri (st_session st) (w_disk w') = Inr dataset"
    "l_start ?L (l_scan ?L dataset) (w_disk w') = l_start ?L (l_scan ?L dataset) (w_disk w)"
    "l_read ?L (l_scan ?L dataset) (w_disk w') = l_read ?L (l_scan ?L dataset) (w_disk w)"
    unfolding reads_alike_def by simp_all
  have "fst (vectors_of E st table column w') = fst (vectors_of E st table column w)"
    using load same by (simp add: vectors_of_def act_simps reading_defs split: sum.split)
  moreover have "snd (vectors_of E st table column w') = w'"
    using keepsD [OF keeps_vectors_of [of "\<lambda>w. w" E st table column], of w'] by simp
  ultimately show "vectors_of E st table column w' = (Inr vs, w')" using assms(2) by (simp add: prod_eq_iff)
  then show "existing_vectors E st table column w' = (Inr vs, w')"
    using same by (simp add: existing_vectors_def act_simps reading_defs)
qed

text \<open>C22: a table that is dropped and created again searches the old rows' vectors. Dropping removes the table
  and not the companion of its auto-embedding column, and reconciling compares row numbers alone. When
  the rows of the new table have the numbers the old ones had, the insert succeeds, embeds nothing
  and leaves the old vectors in place, whatever the new texts are.\<close>

theorem recreated_table_keeps_old_vectors:
  assumes st: "st_gate st = None" "st_write_lock st \<noteq> None" "st_session st = None" "st_audit st = None" "st_embedder st = Some e"
    and apart: "apart (sv_lance E) (store_uri E st (vector_table table column)) (store_uri E st table)"
    and old: "vectors_of E st table column w = (Inr existing, w)"
    and drop: "drop_table E st table w = (Inr (), w1)" and create: "create_table E st table def w1 = (Inr (), w2)"
    and stored: "l_write (sv_lance E) (b_schema b) [b] (store_uri E st table) Append None (w_disk w2) = (Inr (), d)"
    and dataset: "l_load (sv_lance E) (store_uri E st table) None d = Inr dataset"
    and columns: "auto_embedding_columns (l_schema (sv_lance E) dataset) = [column]"
    and present: "present_rows E st table column (w2\<lparr>w_disk := d\<rparr>) = (Inr present, w2\<lparr>w_disk := d\<rparr>)"
    and numbers: "set (map fst present) = set (map (row_get \<circ> rv_row) existing)"
  shows "append_batch E st table b w2 = (Inr (), w2\<lparr>w_disk := d\<rparr>) \<and>
    vectors_of E st table column (w2\<lparr>w_disk := d\<rparr>) = (Inr existing, w2\<lparr>w_disk := d\<rparr>)"
proof -
  let ?L = "sv_lance E" and ?c = "store_uri E st (vector_table table column)" and ?w = "w2\<lparr>w_disk := d\<rparr>"
  have scope: "require_scope E st s table = Inr ()" for s by (simp add: require_scope_def st)
  have here: "dataset_path st table = store_uri E st table" by (simp add: store_uri_def st)
  note run = act_simps scope require_write_role_def st on_disk_def record_op_def here
  have "w_disk w1 = snd (l_remove_dir ?L (store_uri E st table) (w_disk w))"
    using drop st(2) by (auto simp: drop_table_def run split: prod.splits)
  then have "reads_alike ?L ?c (w_disk w) (w_disk w1)" using apart by (simp add: apart_def)
  moreover have "w_disk w2 = snd (l_write ?L (applied_to (td_compression def) (td_schema def)) [] (store_uri E st table) Create None (w_disk w1))"
    using create st(2) by (auto simp: create_table_def run split: prod.splits sum.splits)
  then have "reads_alike ?L ?c (w_disk w1) (w_disk w2)" using apart by (simp add: apart_def)
  moreover have "d = snd (l_write ?L (b_schema b) [b] (store_uri E st table) Append None (w_disk w2))" by (simp add: stored)
  then have "reads_alike ?L ?c (w_disk w2) d" using apart by (simp add: apart_def)
  ultimately have alike: "reads_alike ?L ?c (w_disk w) (w_disk ?w)" by (auto intro: reads_alike_trans)
  have "reconcile E st table column ?w = (Inr (), ?w)"
    using numbers by (simp add: reconcile_def st act_simps vectors_alike(2) [OF alike old] present)
  moreover have "append_batch E st table b w2 = act_each (reconcile E st table) [column] ?w"
    using append_reconciles [OF scope st(2,4), of b w2 d dataset] stored dataset columns by (simp add: st)
  ultimately show ?thesis using vectors_alike(1) [OF alike old] by (simp add: act_simps)
qed

text \<open>A table whose only row has a vector, and the definition it is created from again.\<close>

definition demo_old :: row_vector where
  "demo_old = \<lparr>rv_row = RowId 0, rv_chunk = 0, rv_embedding = demo_vector ''a''\<rparr>"

definition demo_vectored :: demo_disk where
  "demo_vectored = [''/db/notes.lance'' \<mapsto> (auto_embedding ''body'' demo_notes, [demo_rows_of [''a'']]),
     ''/db/notes.body.vectors.lance'' \<mapsto> (vector_schema, [vector_batch [demo_old]])]"

definition demo_definition :: "data_type table_definition" where
  "demo_definition = \<lparr>td_schema = auto_embedding ''body'' demo_notes, td_compression = Uncompressed\<rparr>"

lemma demo_apart: "u \<noteq> v \<Longrightarrow> apart demo_lance u v"
  by (auto simp: apart_def reads_alike_def demo_write_def demo_load_def demo_lance_def split: option.split write_mode.split)

lemma demo_definition_columns [simp]:
  "auto_embedding_columns (applied_to Uncompressed (auto_embedding ''body'' demo_notes)) = [''body'']"
  by (simp add: auto_embedding_columns_def applied_to_def auto_embedding_def mark_auto_embedding_def demo_notes_def
      AUTO_EMBEDDING_KEY_def COMPRESSION_KEY_def map_add_def)

theorem recreated_table_keeps_old_vectors_witness:
  "\<exists>w1 w2 w3. drop_table demo_services demo_embedding ''notes'' (demo_world demo_vectored) = (Inr (), w1) \<and>
     create_table demo_services demo_embedding ''notes'' demo_definition w1 = (Inr (), w2) \<and>
     append_batch demo_services demo_embedding ''notes'' (demo_rows_of [''zebra'']) w2 = (Inr (), w3) \<and>
     vectors_of demo_services demo_embedding ''notes'' ''body'' w3 = (Inr [demo_old], w3) \<and>
     em_passage demo_embedder ''zebra'' \<noteq> Inr [rv_embedding demo_old]"
proof -
  let ?s = "applied_to Uncompressed (auto_embedding ''body'' demo_notes)"
  let ?d1 = "demo_vectored(''/db/notes.lance'' := None)"
  let ?d2 = "?d1(''/db/notes.lance'' \<mapsto> (?s, []))"
  let ?d3 = "?d2(''/db/notes.lance'' \<mapsto> (?s, [demo_rows_of [''zebra'']]))"
  have old: "vectors_of demo_services demo_embedding ''notes'' ''body'' (demo_world demo_vectored) = (Inr [demo_old], demo_world demo_vectored)"
    by (simp add: vectors_of_def act_simps reading_defs demo_vectored_def demo_batch_def vector_batch_schema stripped_vector_schema
        vectors_of_batch_back [of _ _ _ "[demo_old]", unfolded vector_batch_def, simplified] vector_batch_def column_length_def)
  have drop: "drop_table demo_services demo_embedding ''notes'' (demo_world demo_vectored) = (Inr (), demo_world ?d1)"
    by (simp add: drop_table_def act_simps require_write_role_def record_op_def on_disk_def dataset_path_def path_join_def
        is_absolute_def demo_world_def)
  have create: "create_table demo_services demo_embedding ''notes'' demo_definition (demo_world ?d1) = (Inr (), demo_world ?d2)"
    by (simp add: create_table_def act_simps require_write_role_def record_op_def on_disk_def demo_write_def demo_reach_def
        demo_definition_def demo_world_def)
  have present: "present_rows demo_services demo_embedding ''notes'' ''body'' (demo_world ?d2\<lparr>w_disk := ?d3\<rparr>)
      = (Inr [(0, ''zebra'')], demo_world ?d2\<lparr>w_disk := ?d3\<rparr>)"
    by (simp add: present_rows_def act_simps reading_defs demo_rows_of_def demo_batch_def demo_row_field_def
        present_of_batch_def u64_column_def text_column_def column_by_name_def demo_notes_def Let_def upt_rec)
  have apart: "apart (sv_lance demo_services) (store_uri demo_services demo_embedding (vector_table ''notes'' ''body''))
      (store_uri demo_services demo_embedding ''notes'')" by (simp add: demo_apart)
  have "em_passage demo_embedder ''zebra'' \<noteq> Inr [rv_embedding demo_old]"
    by (simp add: demo_old_def demo_vector_def VECTOR_WIDTH_def)
  moreover note recreated_table_keeps_old_vectors [OF _ _ _ _ _ apart old drop create _ _ _ present, of demo_embedder "demo_rows_of [''zebra'']"
      "(''/db/notes.lance'', ?s, [demo_rows_of [''zebra'']])"]
  ultimately show ?thesis
    using drop create by (fastforce simp: demo_write_def demo_reach_def demo_old_def)
qed

end
