(* ===== verification/Database.thy ===== *)
theory Database
  imports Store_Vectors
begin

text \<open>
  \<open>config.rs\<close> and \<open>database.rs\<close> of the published crate: the handle a caller holds, its settings, and every
  method of it. Each method is a call of the store below; the two searches by meaning embed the query
  first.
\<close>

section \<open>Configuration\<close>

record config =
  cfg_compression :: compression
  cfg_auditing :: bool

definition config_default :: config where
  "config_default = \<lparr>cfg_compression = compression_default, cfg_auditing = True\<rparr>"

definition config_with_compression :: "compression \<Rightarrow> config \<Rightarrow> config" where
  "config_with_compression c cfg = cfg\<lparr>cfg_compression := c\<rparr>"

definition config_with_auditing :: "bool \<Rightarrow> config \<Rightarrow> config" where
  "config_with_auditing b cfg = cfg\<lparr>cfg_auditing := b\<rparr>"

section \<open>The handle\<close>

record database =
  db_store :: store
  db_config :: config

definition database_open_with :: "os_path \<Rightarrow> config \<Rightarrow> database" where
  "database_open_with dir cfg =
     (let st = store_new dir in
      \<lparr>db_store = (if cfg_auditing cfg then audited st else st), db_config = cfg\<rparr>)"

definition database_open :: "os_path \<Rightarrow> database" where
  "database_open dir = database_open_with dir config_default"

definition database_open_for_writing_with ::
  "'i lock_env \<Rightarrow> os_path \<Rightarrow> config \<Rightarrow> ('i os_locks, db_error, database) act" where
  "database_open_for_writing_with env dir cfg =
     act_bind (open_for_writing env dir)
       (\<lambda>st. act_ok \<lparr>db_store = (if cfg_auditing cfg then audited st else st), db_config = cfg\<rparr>)"

definition database_open_for_writing :: "'i lock_env \<Rightarrow> os_path \<Rightarrow> ('i os_locks, db_error, database) act" where
  "database_open_for_writing env dir = database_open_for_writing_with env dir config_default"

definition database_encrypted :: "keyring \<Rightarrow> database \<Rightarrow> database" where
  "database_encrypted k db = \<lparr>db_store = encrypted k (db_store db), db_config = db_config db\<rparr>"

definition database_embedding :: "embedder \<Rightarrow> database \<Rightarrow> database" where
  "database_embedding e db = \<lparr>db_store = embedding e (db_store db), db_config = db_config db\<rparr>"

section \<open>The methods\<close>

definition database_index_vectors ::
  "('w, 'ds, 'sc, 'ub, 't) services \<Rightarrow> database \<Rightarrow> string \<Rightarrow> string \<Rightarrow> vector_index_kind \<Rightarrow> ('w world, db_error, unit) act" where
  "database_index_vectors E db table column kind = create_vector_index E (db_store db) table column kind"

definition database_index_text ::
  "('w, 'ds, 'sc, 'ub, 't) services \<Rightarrow> database \<Rightarrow> string \<Rightarrow> string \<Rightarrow> stemming_language \<Rightarrow> ('w world, db_error, unit) act" where
  "database_index_text E db table column language = create_text_index E (db_store db) table column language"

definition database_semantic_search ::
  "('w, 'ds, 'sc, 'ub, 't) services \<Rightarrow> database \<Rightarrow> string \<Rightarrow> string \<Rightarrow> string \<Rightarrow> nat \<Rightarrow> ('w world, db_error, row_id list) act" where
  "database_semantic_search E db table column query limit =
     act_bind (act_of (store_embed_query (db_store db) query)) (\<lambda>vector.
     act_bind (nearest E (db_store db) table column vector limit) (\<lambda>hits.
     act_ok (map rv_row hits)))"

definition database_text_search ::
  "('w, 'ds, 'sc, 'ub, 't) services \<Rightarrow> database \<Rightarrow> string \<Rightarrow> string \<Rightarrow> string \<Rightarrow> nat \<Rightarrow> ('w world, db_error, row_id list) act" where
  "database_text_search E db table column query limit = search_text E (db_store db) table column query limit"

definition database_hybrid_search ::
  "('w, 'ds, 'sc, 'ub, 't) services \<Rightarrow> database \<Rightarrow> string \<Rightarrow> string \<Rightarrow> string \<Rightarrow> nat \<Rightarrow> ('w world, db_error, fused) act" where
  "database_hybrid_search E db table column query limit =
     act_bind (act_of (store_embed_query (db_store db) query)) (\<lambda>vector.
     hybrid_search E (db_store db) table column query vector limit)"

definition database_create_table ::
  "('w, 'ds, 'sc, 'ub, 't) services \<Rightarrow> database \<Rightarrow> string \<Rightarrow> data_type schema \<Rightarrow> ('w world, db_error, unit) act" where
  "database_create_table E db table s =
     (let def = with_compression (cfg_compression (db_config db)) (table_definition_new s) in
      create_table E (db_store db) table def)"

definition database_insert ::
  "('w, 'ds, 'sc, 'ub, 't) services \<Rightarrow> database \<Rightarrow> string \<Rightarrow> batch \<Rightarrow> ('w world, db_error, unit) act" where
  "database_insert E db table rows = append_batch E (db_store db) table rows"

definition database_scan ::
  "('w, 'ds, 'sc, 'ub, 't) services \<Rightarrow> database \<Rightarrow> string \<Rightarrow> ('w world, db_error, batch list) act" where
  "database_scan E db table = scan E (db_store db) table"

definition database_update ::
  "('w, 'ds, 'sc, 'ub, 't) services \<Rightarrow> database \<Rightarrow> string \<Rightarrow> predicate \<Rightarrow> assignment list \<Rightarrow> ('w world, db_error, updated) act" where
  "database_update E db table matching assignments = update_rows E (db_store db) table matching assignments"

definition database_delete ::
  "('w, 'ds, 'sc, 'ub, 't) services \<Rightarrow> database \<Rightarrow> string \<Rightarrow> predicate \<Rightarrow> ('w world, db_error, deleted) act" where
  "database_delete E db table matching = delete_rows E (db_store db) table matching"

definition database_drop_table ::
  "('w, 'ds, 'sc, 'ub, 't) services \<Rightarrow> database \<Rightarrow> string \<Rightarrow> ('w world, db_error, unit) act" where
  "database_drop_table E db table = drop_table E (db_store db) table"

section \<open>Requests\<close>

text \<open>A call of one of the methods.\<close>

datatype request =
    RequestCreate string "data_type schema"
  | RequestInsert string batch
  | RequestScan string
  | RequestUpdate string predicate "assignment list"
  | RequestDelete string predicate
  | RequestDrop string
  | RequestIndexVectors string string vector_index_kind
  | RequestIndexText string string stemming_language
  | RequestSemantic string string string nat
  | RequestText string string string nat
  | RequestHybrid string string string nat

fun run_request :: "('w, 'ds, 'sc, 'ub, 't) services \<Rightarrow> database \<Rightarrow> request \<Rightarrow> ('w world, db_error, unit) act" where
  "run_request E db (RequestCreate t s) = database_create_table E db t s"
| "run_request E db (RequestInsert t b) = database_insert E db t b"
| "run_request E db (RequestScan t) = discard (database_scan E db t)"
| "run_request E db (RequestUpdate t p as) = discard (database_update E db t p as)"
| "run_request E db (RequestDelete t p) = discard (database_delete E db t p)"
| "run_request E db (RequestDrop t) = database_drop_table E db t"
| "run_request E db (RequestIndexVectors t c k) = database_index_vectors E db t c k"
| "run_request E db (RequestIndexText t c l) = database_index_text E db t c l"
| "run_request E db (RequestSemantic t c q n) = discard (database_semantic_search E db t c q n)"
| "run_request E db (RequestText t c q n) = discard (database_text_search E db t c q n)"
| "run_request E db (RequestHybrid t c q n) = discard (database_hybrid_search E db t c q n)"

text \<open>The command of the store a request comes down to, when its query can be embedded.\<close>

fun as_command :: "database \<Rightarrow> request \<Rightarrow> db_error + command" where
  "as_command db (RequestCreate t s) = Inr (CreateTable t \<lparr>td_schema = s, td_compression = cfg_compression (db_config db)\<rparr>)"
| "as_command db (RequestInsert t b) = Inr (AppendBatch t b)"
| "as_command db (RequestScan t) = Inr (Scan t)"
| "as_command db (RequestUpdate t p as) = Inr (UpdateRows t p as)"
| "as_command db (RequestDelete t p) = Inr (DeleteRows t p)"
| "as_command db (RequestDrop t) = Inr (DropTable t)"
| "as_command db (RequestIndexVectors t c k) = Inr (CreateVectorIndex t c k)"
| "as_command db (RequestIndexText t c l) = Inr (CreateTextIndex t c l)"
| "as_command db (RequestSemantic t c q n) = rbind (store_embed_query (db_store db) q) (\<lambda>v. Inr (Nearest t c v n))"
| "as_command db (RequestText t c q n) = Inr (SearchText t c q n)"
| "as_command db (RequestHybrid t c q n) = rbind (store_embed_query (db_store db) q) (\<lambda>v. Inr (HybridSearch t c q v n))"

text \<open>
  The strings of a request that the log gets, and the one that is a plan there: a request is plain when its
  strings are strings and that one does not end in a carriage return.
\<close>

fun request_texts :: "request \<Rightarrow> string list" where
  "request_texts (RequestCreate t _) = [t]"
| "request_texts (RequestInsert t _) = [t]"
| "request_texts (RequestScan t) = [t]"
| "request_texts (RequestUpdate t p as) = [t, predicate_str p, join_str '', '' (map as_column as)]"
| "request_texts (RequestDelete t p) = [t, predicate_str p]"
| "request_texts (RequestDrop t) = [t]"
| "request_texts (RequestIndexVectors t c _) = [t, c]"
| "request_texts (RequestIndexText t c _) = [t, c]"
| "request_texts (RequestSemantic t c _ _) = [t, c]"
| "request_texts (RequestText t c q _) = [t, c, q]"
| "request_texts (RequestHybrid t c q _) = [t, c, q]"

fun request_plan :: "request \<Rightarrow> string" where
  "request_plan (RequestUpdate _ _ as) = join_str '', '' (map as_column as)"
| "request_plan (RequestText _ _ q _) = q"
| "request_plan (RequestHybrid _ _ q _) = q"
| "request_plan _ = []"

definition plain_request :: "request \<Rightarrow> bool" where
  "plain_request r \<longleftrightarrow> list_all utf8 (request_texts r) \<and> ends_plain (request_plan r)"

lemmas database_defs = database_create_table_def database_insert_def database_scan_def database_update_def database_delete_def
  database_drop_table_def database_index_vectors_def database_index_text_def database_semantic_search_def
  database_text_search_def database_hybrid_search_def

lemma request_is_command:
  "run_request E db r = (case as_command db r of Inl e \<Rightarrow> act_of (Inl e) | Inr cmd \<Rightarrow> run_command E (db_store db) cmd)"
proof (cases r)
  case (RequestSemantic t c q n)
  then show ?thesis
    by (cases "store_embed_query (db_store db) q") (simp_all add: database_defs discard_def act_bind_assoc)
next
  case (RequestHybrid t c q n)
  then show ?thesis
    by (cases "store_embed_query (db_store db) q") (simp_all add: database_defs discard_def)
qed (simp_all add: database_defs table_definition_new_def with_compression_def Let_def)

lemma request_recorded:
  "as_command db r = Inr cmd \<Longrightarrow> command_log x cmd \<noteq> [] \<and> (plain_request r \<longrightarrow> plain_command cmd)"
  by (cases r) (auto simp: rbind_Inr_iff plain_request_def plain_command_def)

section \<open>Opening\<close>

text \<open>The handles that opening and the two builders make.\<close>

inductive opened_as :: "'i lock_env \<Rightarrow> os_path \<Rightarrow> config \<Rightarrow> database \<Rightarrow> bool" for env dir cfg where
  reading: "opened_as env dir cfg (database_open_with dir cfg)"
| writing: "database_open_for_writing_with env dir cfg locks = (Inr db, locks') \<Longrightarrow> opened_as env dir cfg db"
| sealing: "opened_as env dir cfg db \<Longrightarrow> opened_as env dir cfg (database_encrypted k db)"
| embedded: "opened_as env dir cfg db \<Longrightarrow> opened_as env dir cfg (database_embedding e db)"

lemma opened_writing:
  assumes "open_for_writing env dir locks = (Inr st, locks')"
  shows "\<exists>l. st = (store_new dir)\<lparr>st_write_lock := Some l\<rparr>"
  using assms by (auto simp: open_for_writing_def split: prod.splits sum.splits lock_error.splits)

lemma opened_handle:
  assumes "opened_as env dir cfg db"
  shows "st_root (db_store db) = dir \<and> db_config db = cfg \<and> st_gate (db_store db) = None \<and>
    st_audit (db_store db) = (if cfg_auditing cfg then Some (path_join dir LOG_FILE) else None)"
  using assms
proof (induction rule: opened_as.induct)
  case (writing locks db locks')
  then obtain st locks1 where "open_for_writing env dir locks = (Inr st, locks1)"
    and db: "db = \<lparr>db_store = (if cfg_auditing cfg then audited st else st), db_config = cfg\<rparr>"
    by (auto simp: database_open_for_writing_with_def act_bind_Inr act_pure_iff)
  from opened_writing [OF this(1)] show ?case by (auto simp: db audited_def store_new_def)
qed (auto simp: database_open_with_def store_new_def audited_def database_encrypted_def encrypted_def database_embedding_def
    embedding_def Let_def)

lemma unaudited_quiet:
  assumes "st_audit st = None"
  shows "keeps w_audit (run_command E st cmd)"
proof -
  have quiet: "keeps w_audit (record_op E st q p n)" for q p n by (auto simp: keeps_def record_op_def assms)
  have "keeps w_audit (nearest E st t c q n)" "keeps w_audit (search_text E st t c s n)" for t c q s n
    unfolding nearest_def search_text_def using quiet by (auto intro!: keeps_bind keeps_if)
  then show ?thesis
    using quiet by (cases cmd)
      (auto simp: create_table_def append_batch_def update_rows_def delete_rows_def drop_table_def scan_def
         create_vector_index_def create_text_index_def hybrid_search_def Let_def
         intro!: keeps_bind keeps_discard keeps_if quiet_commands split: prod.split)
qed


definition demo_lock_env :: "os_path lock_env" where
  "demo_lock_env = \<lparr>le_file = (\<lambda>p. p), le_create_dir = (\<lambda>_. None), le_open = (\<lambda>_. None), le_lock = (\<lambda>_. None)\<rparr>"

definition demo_database :: "bool \<Rightarrow> database" where
  "demo_database b = database_open_with ''/db'' (config_with_auditing b config_default)"

lemma demo_database_simps [simp]:
  "st_audit (db_store (demo_database b)) = (if b then Some demo_log else None)" "st_root (db_store (demo_database b)) = ''/db''"
  "st_gate (db_store (demo_database b)) = None" "st_session (db_store (demo_database b)) = None"
  by (simp_all add: demo_database_def database_open_with_def config_with_auditing_def audited_def store_new_def demo_log_def
      LOG_FILE_def path_join_def is_absolute_def Let_def)

lemma demo_database_scan: "fst (run_request demo_services (demo_database True) (RequestScan ''notes'') (demo_world demo_disk_notes)) = Inr ()"
  using append_writes [OF demo_env_sound, of None "[]" demo_digest]
  by (simp add: database_scan_def scan_def discard_def act_simps reading_defs require_scope_def store_uri_def dataset_path_def
      path_join_def is_absolute_def record_op_def opened_def parse_def first_break_def)


end
