(* ===== verification/Embed.thy ===== *)
theory Embed
  imports Store_Services
begin

text \<open>
  \<open>euledb-embed/src/lib.rs\<close>: text to vectors. The tokenizer and the runtime that compiles and evaluates
  the graph are parameters; splitting a text into chunks, choosing a bucket, padding, pooling, normalising
  and the cache of compiled plans are the code's own.
\<close>

section \<open>Constants and errors\<close>

definition DIMENSIONS :: nat where "DIMENSIONS = 384"
definition TOKEN_LIMIT :: nat where "TOKEN_LIMIT = 512"
definition BUCKETS :: "nat list" where "BUCKETS = [16, 32, 64, 128, 256, TOKEN_LIMIT]"
definition PASSAGE_PREFIX :: string where "PASSAGE_PREFIX = ''passage: ''"
definition QUERY_PREFIX :: string where "QUERY_PREFIX = ''query: ''"
definition PAD_TOKEN :: "64 word" where "PAD_TOKEN = 1"

datatype embed_error =
    ModelMissing os_path
  | ModelUnreadable os_path string
  | TokenizerError string
  | Inference string

fun embed_error_str :: "embed_error \<Rightarrow> string" where
  "embed_error_str (ModelMissing path) = ''the model file '' @ path @ '' is missing: run `just model` to fetch it''"
| "embed_error_str (ModelUnreadable path cause) = ''the model file '' @ path @ '' could not be read: '' @ cause"
| "embed_error_str (TokenizerError cause) = ''the text could not be tokenised: '' @ cause"
| "embed_error_str (Inference cause) = ''the model could not be evaluated: '' @ cause"

section \<open>The tokenizer and the runtime\<close>

text \<open>A token with its id and the byte offsets of the text it stands for.\<close>

record token =
  tok_id :: u32
  tok_span :: "nat \<times> nat"

text \<open>\<open>encode\<close> of a tokenizer: the text, and whether the special tokens are added.\<close>

type_synonym tokenizer = "string \<Rightarrow> bool \<Rightarrow> string + token list"

text \<open>
  What is outside: whether a file exists, the tokenizer a file holds, compiling the graph of a file for a
  length, and evaluating a plan on the ids, the attention mask and the token types; an output is the flat
  list of its components, or what the conversion said.
\<close>

record 'p runtime =
  rt_exists :: "os_path \<Rightarrow> bool"
  rt_from_file :: "os_path \<Rightarrow> string + tokenizer"
  rt_build :: "os_path \<Rightarrow> nat \<Rightarrow> string + 'p"
  rt_run :: "'p \<Rightarrow> 64 word list \<Rightarrow> 64 word list \<Rightarrow> 64 word list \<Rightarrow> string + (string + f32 list) list"

record model =
  md_graph :: os_path
  md_tokenizer :: tokenizer

text \<open>The cache of plans behind its mutex: nothing when an earlier panic poisoned it.\<close>

type_synonym 'p plans = "(nat \<Rightarrow> 'p option) option"

definition load :: "'p runtime \<Rightarrow> os_path \<Rightarrow> embed_error + (model \<times> 'p plans)" where
  "load rt directory =
     (let graph = path_join directory ''model.onnx''; vocabulary = path_join directory ''tokenizer.json'' in
      if \<not> rt_exists rt graph then Inl (ModelMissing graph)
      else if \<not> rt_exists rt vocabulary then Inl (ModelMissing vocabulary)
      else
        (case rt_from_file rt vocabulary of
           Inl cause \<Rightarrow> Inl (ModelUnreadable vocabulary cause)
         | Inr t \<Rightarrow> Inr (\<lparr>md_graph = graph, md_tokenizer = t\<rparr>, Some (\<lambda>_. None))))"

section \<open>Chunks\<close>

definition encode :: "model \<Rightarrow> string \<Rightarrow> embed_error + token list" where
  "encode md text = (case md_tokenizer md text False of Inl cause \<Rightarrow> Inl (TokenizerError cause) | Inr ts \<Rightarrow> Inr ts)"

definition token_count :: "model \<Rightarrow> string \<Rightarrow> embed_error + nat" where
  "token_count md text = rbind (encode md text) (\<lambda>ts. Inr (length ts))"

text \<open>\<open>str::get\<close> of a range: both ends in the text, in order, and not inside a character.\<close>

definition is_char_boundary :: "string \<Rightarrow> nat \<Rightarrow> bool" where
  "is_char_boundary s i \<longleftrightarrow>
     i = 0 \<or> i = length s \<or> i < length s \<and> (let b = of_char (s ! i) :: nat in b < 128 \<or> 192 \<le> b)"

definition str_get :: "string \<Rightarrow> nat \<Rightarrow> nat \<Rightarrow> string option" where
  "str_get s a b =
     (if a \<le> b \<and> b \<le> length s \<and> is_char_boundary s a \<and> is_char_boundary s b then Some (take (b - a) (drop a s)) else None)"

text \<open>\<open>trim().is_empty()\<close>: nothing but characters with the property \<open>White_Space\<close>, by their UTF-8 bytes.\<close>

definition white_2 :: "nat \<Rightarrow> nat \<Rightarrow> bool" where
  "white_2 a b \<longleftrightarrow> a = 0xC2 \<and> (b = 0x85 \<or> b = 0xA0)"

definition white_3 :: "nat \<Rightarrow> nat \<Rightarrow> nat \<Rightarrow> bool" where
  "white_3 a b c \<longleftrightarrow>
     a = 0xE1 \<and> b = 0x9A \<and> c = 0x80 \<or>
     a = 0xE2 \<and> b = 0x80 \<and> (0x80 \<le> c \<and> c \<le> 0x8A \<or> c = 0xA8 \<or> c = 0xA9 \<or> c = 0xAF) \<or>
     a = 0xE2 \<and> b = 0x81 \<and> c = 0x9F \<or>
     a = 0xE3 \<and> b = 0x80 \<and> c = 0x80"

fun blank_bytes :: "nat list \<Rightarrow> bool" where
  "blank_bytes [] = True"
| "blank_bytes (a # s) =
     (if 9 \<le> a \<and> a \<le> 13 \<or> a = 32 then blank_bytes s
      else
        (case s of
           [] \<Rightarrow> False
         | b # s' \<Rightarrow>
             if white_2 a b then blank_bytes s'
             else (case s' of [] \<Rightarrow> False | c # s'' \<Rightarrow> white_3 a b c \<and> blank_bytes s'')))"

definition blank :: "string \<Rightarrow> bool" where
  "blank s = blank_bytes (map of_char s)"

definition piece_at :: "string \<Rightarrow> nat \<Rightarrow> nat \<Rightarrow> string list" where
  "piece_at text start end_at =
     (case str_get text start end_at of Some piece \<Rightarrow> if blank piece then [] else [piece] | None \<Rightarrow> [])"

text \<open>The walk over the token offsets: a piece is cut when the budget is used up and at the last token.\<close>

fun chunk_walk :: "string \<Rightarrow> nat \<Rightarrow> nat \<Rightarrow> nat \<Rightarrow> (nat \<times> nat) list \<Rightarrow> string list" where
  "chunk_walk text budget start taken [] = []"
| "chunk_walk text budget start taken ((_, end_at) # offsets) =
     (if budget \<le> Suc taken \<or> offsets = []
      then piece_at text start end_at @ chunk_walk text budget end_at 0 offsets
      else chunk_walk text budget start (Suc taken) offsets)"

definition embed_chunks :: "model \<Rightarrow> string \<Rightarrow> embed_error + string list" where
  "embed_chunks md text =
     rbind (token_count md PASSAGE_PREFIX) (\<lambda>prefix.
     let budget = TOKEN_LIMIT - (prefix + 2) in
     rbind (encode md text) (\<lambda>encoded.
     if length encoded \<le> budget then Inr [text]
     else Inr (chunk_walk text budget 0 0 (map tok_span encoded))))"

section \<open>One forward pass\<close>

definition embed_plan :: "'p runtime \<Rightarrow> model \<Rightarrow> nat \<Rightarrow> ('p plans, embed_error, 'p) act" where
  "embed_plan rt md len plans =
     (case plans of
        None \<Rightarrow> (Inl (Inference ''the plan cache was poisoned by an earlier panic''), None)
      | Some cache \<Rightarrow>
          (case cache len of
             Some p \<Rightarrow> (Inr p, Some cache)
           | None \<Rightarrow>
               (case rt_build rt (md_graph md) len of
                  Inl cause \<Rightarrow> (Inl (Inference cause), Some cache)
                | Inr p \<Rightarrow> (Inr p, Some (cache(len \<mapsto> p))))))"

definition bucket_for :: "nat \<Rightarrow> nat" where
  "bucket_for real_len = (case find (\<lambda>candidate. real_len \<le> candidate) BUCKETS of Some b \<Rightarrow> b | None \<Rightarrow> TOKEN_LIMIT)"

definition padded_ids :: "nat \<Rightarrow> u32 list \<Rightarrow> 64 word list" where
  "padded_ids bucket ids = take bucket (map ucast ids) @ replicate (bucket - length ids) PAD_TOKEN"

definition mask_for :: "nat \<Rightarrow> nat \<Rightarrow> 64 word list" where
  "mask_for bucket real_len = replicate (min real_len bucket) 1 @ replicate (bucket - real_len) 0"

text \<open>The rows an attention mask keeps, added up component by component, and how many there were.\<close>

fun pool_rows :: "f32 list list \<Rightarrow> 64 word list \<Rightarrow> f32 list \<Rightarrow> f32 \<Rightarrow> f32 list \<times> f32" where
  "pool_rows (row # rows) (keep # attention) summed counted =
     (if keep = 0 then pool_rows rows attention summed counted
      else pool_rows rows attention (map2 fadd summed row) (fadd counted F32_ONE))"
| "pool_rows _ _ summed counted = (summed, counted)"

text \<open>\<open>as_chunks\<close>: the whole rows; what is left over is no row.\<close>

definition whole_rows :: "nat \<Rightarrow> 'a list \<Rightarrow> 'a list list" where
  "whole_rows n xs = chunks n (take (length xs div n * n) xs)"

text \<open>
  The assertion at the head of \<open>mean_pool\<close>, a \<open>debug_assert\<close>: a build with debug assertions panics on values for
  which \<open>pool_assertion\<close> is false. \<open>mean_pool\<close> itself is the release build, which passes over what
  is left of such values; \<open>whole_rows_lose_nothing\<close> says that where the assertion holds nothing is left.
\<close>

definition pool_assertion :: "f32 list \<Rightarrow> bool" where
  "pool_assertion values \<longleftrightarrow> drop (length values div DIMENSIONS * DIMENSIONS) values = []"

definition mean_pool :: "f32 list \<Rightarrow> 64 word list \<Rightarrow> f32 list" where
  "mean_pool values attention =
     (let (summed, counted) = pool_rows (whole_rows DIMENSIONS values) attention (replicate DIMENSIONS 0) 0
      in if fpositive counted then map (\<lambda>slot. fdiv slot counted) summed else summed)"

definition normalise :: "f32 list \<Rightarrow> f32 list" where
  "normalise vector =
     (let norm = fsqrt (foldl fadd F32_NEG_ZERO (map (\<lambda>value. fmul value value) vector))
      in if fpositive norm then map (\<lambda>value. fdiv value norm) vector else vector)"

text \<open>The outputs of an evaluated plan: the first one is the hidden state.\<close>

definition pooled :: "64 word list \<Rightarrow> (string + f32 list) list \<Rightarrow> embed_error + f32 list" where
  "pooled attention outputs =
     (case outputs of
        [] \<Rightarrow> Inl (Inference ''the graph produced no output'')
      | Inl cause # _ \<Rightarrow> Inl (Inference cause)
      | Inr values # _ \<Rightarrow> Inr (normalise (mean_pool values attention)))"

definition model_run :: "'p runtime \<Rightarrow> model \<Rightarrow> string \<Rightarrow> ('p plans, embed_error, f32 list) act" where
  "model_run rt md text =
     (case md_tokenizer md text True of
        Inl cause \<Rightarrow> act_of (Inl (TokenizerError cause))
      | Inr encoded \<Rightarrow>
          (let real_len = length encoded; bucket = bucket_for real_len;
               ids = padded_ids bucket (map tok_id encoded); attention = mask_for bucket real_len
           in act_bind (embed_plan rt md bucket) (\<lambda>p.
              case rt_run rt p ids attention (replicate bucket 0) of
                Inl cause \<Rightarrow> act_of (Inl (Inference cause))
              | Inr outputs \<Rightarrow> act_of (pooled attention outputs))))"

definition embed_passage :: "'p runtime \<Rightarrow> model \<Rightarrow> string \<Rightarrow> ('p plans, embed_error, f32 list list) act" where
  "embed_passage rt md text =
     act_bind (act_of (embed_chunks md text)) (act_map (\<lambda>chunk. model_run rt md (PASSAGE_PREFIX @ chunk)))"

definition embed_query :: "'p runtime \<Rightarrow> model \<Rightarrow> string \<Rightarrow> ('p plans, embed_error, f32 list) act" where
  "embed_query rt md text = model_run rt md (QUERY_PREFIX @ text)"

section \<open>The storage crate's port\<close>

definition in_words :: "embed_error + 'a \<Rightarrow> string + 'a" where
  "in_words r = (case r of Inl e \<Rightarrow> Inl (embed_error_str e) | Inr x \<Rightarrow> Inr x)"

text \<open>What the port answers with a given cache.\<close>

definition port :: "'p runtime \<Rightarrow> model \<Rightarrow> 'p plans \<Rightarrow> embedder" where
  "port rt md plans =
     \<lparr>em_passage = (\<lambda>text. in_words (fst (embed_passage rt md text plans))),
      em_query = (\<lambda>text. in_words (fst (embed_query rt md text plans)))\<rparr>"

end
