(* ===== verification/Messages.thy ===== *)
theory Messages
  imports Store_Commands Keyring
begin

text \<open>
  What errors say: the \<open>Display\<close> texts of the error types of the storage crate. A message that shows a value
  of another package (an Arrow type) has its text as a parameter. The texts of the embedding adapter's errors
  are in \<open>Embed\<close>.
\<close>

definition quoted :: "string \<Rightarrow> string" where
  "quoted s = tick @ s @ tick"

fun storage_error_str :: "storage_error \<Rightarrow> string" where
  "storage_error_str (AlreadyOpenForWriting dir) = ''another writer already holds the database at '' @ dir"
| "storage_error_str (ReadOnly operation table) =
     ''cannot '' @ operation @ '' '' @ quoted table @ '': this database was opened for reading''"
| "storage_error_str NoEmbedder = ''this database has no embedder: open it with '' @ quoted ''embedding(..)'' @ '' to run a semantic query''"
| "storage_error_str (QueryNotEmbeddable cause) = ''the query could not be embedded: '' @ cause"
| "storage_error_str (WrongVectorWidth given wanted) =
     ''a query vector of '' @ show_nat given @ '' components cannot be compared to vectors of '' @ show_nat wanted"
| "storage_error_str (NotPermitted scope table) = ''this handle has no '' @ scope_as_str scope @ '' capability for '' @ quoted table"
| "storage_error_str (NothingToCombine table operation) = ''no predicates were given to '' @ operation @ '' for '' @ quoted table"
| "storage_error_str (NothingToSet table) = ''an update of '' @ quoted table @ '' was asked for with nothing to set''"
| "storage_error_str (Backend operation table cause) = ''could not '' @ operation @ '' '' @ quoted table"

fun schema_mismatch_str :: "('d \<Rightarrow> string) \<Rightarrow> 'd schema_mismatch \<Rightarrow> string" where
  "schema_mismatch_str show_type (MissingColumn column) =
     ''the batch has no column '' @ quoted column @ '', which the schema declares''"
| "schema_mismatch_str show_type (UndeclaredColumn column) =
     ''the batch carries column '' @ quoted column @ '', which the schema does not declare''"
| "schema_mismatch_str show_type (TypeMismatch column declared present) =
     ''column '' @ quoted column @ '' is declared '' @ show_type declared @ '' but the batch carries '' @ show_type present"
| "schema_mismatch_str show_type (NullabilityMismatch column declared) =
     ''column '' @ quoted column @ '' is declared non-nullable, but the batch permits null in it''"

text \<open>\<open>AddOverflow\<close> has the text of its panic. The path of the log file is not a part of the model's error; it is the one of the log at hand.\<close>

fun audit_error_str :: "os_path \<Rightarrow> audit_error \<Rightarrow> string" where
  "audit_error_str path (Unavailable cause) = ''the audit log at '' @ path @ '' is unavailable: '' @ cause"
| "audit_error_str path (BrokenChain link) = ''the audit log'' @ [CHR 0x27] @ ''s chain breaks at link '' @ show_nat (unat link)"
| "audit_error_str path NothingToReanchor = ''the audit log verifies, so there is nothing to re-anchor''"
| "audit_error_str path (Malformed reason) = ''the audit log holds a line that is not a record: '' @ reason"
| "audit_error_str path AddOverflow = ''attempt to add with overflow''"

fun keyring_error_str :: "keyring_error \<Rightarrow> string" where
  "keyring_error_str WrongPassphrase = ''the passphrase does not open this database''"
| "keyring_error_str (MalformedKeyfile reason) = ''this is not a keyfile: '' @ reason"
| "keyring_error_str (UnsupportedKeyfile found) =
     ''keyfile format version '' @ show_nat (unat found) @ '' is not supported by this build''"
| "keyring_error_str KeySpaceExhausted = ''the data-key id space is exhausted''"
| "keyring_error_str Random =
     ''the operating system'' @ [CHR 0x27] @ ''s random source failed, so no key could be generated''"
| "keyring_error_str Derivation = ''deriving a key from the passphrase failed''"
| "keyring_error_str Wrapping = ''the key set could not be wrapped''"

fun frame_error_str :: "frame_error \<Rightarrow> string" where
  "frame_error_str (Authentication block) =
     ''block '' @ show_nat (unat block) @ '' did not authenticate, so no plaintext is returned for this read''"
| "frame_error_str Truncated = ''the object is truncated''"
| "frame_error_str NotFramed = ''this object is not encrypted by EuleDB''"
| "frame_error_str (UnsupportedVersion found) = ''framing version '' @ show_nat (unat found) @ '' is not supported by this build''"
| "frame_error_str (BlockSizeMismatch declared configured) =
     ''the object declares a block size of '' @ show_nat declared @ '' but this database is configured for '' @ show_nat configured"
| "frame_error_str (UnknownKey key) =
     ''this object was sealed with data key '' @ show_nat (unat (key_id_get key)) @ '', which this keyring does not hold''"
| "frame_error_str (UnsupportedBlockSize given) =
     ''a block size must be a power of two between 64 and 1048576, and '' @ show_nat given @ '' is not''"
| "frame_error_str RangeOutsideObject = ''the requested range is not inside this object''"
| "frame_error_str RandomFailure =
     ''the operating system'' @ [CHR 0x27] @ ''s random source failed, so no nonce could be generated''"
| "frame_error_str CipherFailure = ''the cipher could not be used''"

fun lock_error_str :: "lock_error \<Rightarrow> string" where
  "lock_error_str (Busy dir) = ''another writer already holds the database at '' @ dir"
| "lock_error_str (LockUnavailable dir cause) = ''the write lock for '' @ dir @ '' could not be taken: '' @ cause"

definition zstd_error_str :: "byte \<Rightarrow> string" where
  "zstd_error_str given = ''zstd levels run from 1 to 22, and '' @ show_nat (unat given) @ '' is outside that''"

text \<open>The one error type passes the text of its part through.\<close>

fun db_error_str :: "(data_type \<Rightarrow> string) \<Rightarrow> os_path \<Rightarrow> db_error \<Rightarrow> string" where
  "db_error_str show_type path (SchemaError e) = schema_mismatch_str show_type e"
| "db_error_str show_type path (StorageError e) = storage_error_str e"
| "db_error_str show_type path (KeyringError e) = keyring_error_str e"
| "db_error_str show_type path (AuditError e) = audit_error_str path e"
| "db_error_str show_type path (CompressionError given) = zstd_error_str given"

section \<open>What a message shows\<close>

lemma contains_append: "contains_str p y \<Longrightarrow> contains_str p (x @ y)"
  by (induction x) simp_all

lemma contains_prefix: "contains_str p (p @ y)"
proof (cases "p @ y")
  case (Cons c cs)
  moreover have "take (length p) (p @ y) = p" by simp
  ultimately show ?thesis by simp
qed simp

lemma contains_iff: "contains_str p s \<longleftrightarrow> (\<exists>x y. s = x @ p @ y)"
proof
  show "contains_str p s \<Longrightarrow> \<exists>x y. s = x @ p @ y"
  proof (induction s)
    case (Cons c s)
    show ?case
    proof (cases "take (length p) (c # s) = p")
      case True
      then have "c # s = [] @ p @ drop (length p) (c # s)" by (metis append_Nil append_take_drop_id)
      then show ?thesis by blast
    next
      case False
      with Cons obtain x y where "s = x @ p @ y" by auto
      then have "c # s = (c # x) @ p @ y" by simp
      then show ?thesis by blast
    qed
  qed simp
qed (auto intro: contains_append contains_prefix)

lemma contains_cons: "contains_str p y \<Longrightarrow> contains_str p (c # y)"
  by simp

lemma contains_quoted:
  "contains_str t (quoted t @ y)" "contains_str t (quoted t)" "contains_str t (quoted (vector_table t c))"
  by (auto simp: quoted_def tick_def vector_table_def simp del: contains_str.simps intro!: contains_cons contains_prefix)

end
