(* ===== verification/Store_Errors.thy ===== *)
theory Store_Errors
  imports Demo_Store Messages
begin

text \<open>
  The errors an operation of the store can end in: which variant, with which values in it, and under which
  handle. The model has no clause for what the outside may answer; the clauses follow the operations.
\<close>

section \<open>Errors of results and of operations\<close>

definition fails_in :: "('e \<Rightarrow> bool) \<Rightarrow> 'e + 'a \<Rightarrow> bool" where
  "fails_in P r \<longleftrightarrow> (\<forall>e. r = Inl e \<longrightarrow> P e)"

definition ends_in :: "('e \<Rightarrow> bool) \<Rightarrow> ('s, 'e, 'a) act \<Rightarrow> bool" where
  "ends_in P m \<longleftrightarrow> (\<forall>s. fails_in P (fst (m s)))"

named_theorems errors "what a step can fail with"

lemma fails_in_basic [simp, errors]: "fails_in P (Inr x)" "fails_in P (Inl e) = P e" "fails_in P (ok_or e m) = (m = None \<longrightarrow> P e)"
  by (auto simp: fails_in_def)

lemma fails_in_rbind [errors]: "fails_in P m \<Longrightarrow> (\<And>x. fails_in P (k x)) \<Longrightarrow> fails_in P (rbind m k)"
  by (cases m) (auto simp: fails_in_def)

lemma fails_in_rmap [errors]: "(\<And>x. fails_in P (f x)) \<Longrightarrow> fails_in P (rmap f xs)"
  by (induction xs) (auto intro!: fails_in_rbind)

lemma ends_in_pure [errors]: "ends_in P (act_ok x)" "fails_in P r \<Longrightarrow> ends_in P (act_of r)"
  "(\<And>s. fails_in P (f s)) \<Longrightarrow> ends_in P (act_read f)"
  by (simp_all add: ends_in_def act_simps)

lemma ends_in_bind [errors]: "ends_in P m \<Longrightarrow> (\<And>x. ends_in P (k x)) \<Longrightarrow> ends_in P (act_bind m k)"
  by (auto simp: ends_in_def fails_in_def act_simps split: sum.splits)

lemma ends_in_if [errors]: "(b \<Longrightarrow> ends_in P m) \<Longrightarrow> (\<not> b \<Longrightarrow> ends_in P n) \<Longrightarrow> ends_in P (if b then m else n)"
  by simp

lemma ends_in_each [errors]: "(\<And>x. ends_in P (f x)) \<Longrightarrow> ends_in P (act_each f xs)"
  by (induction xs) (auto intro: errors)

lemma ends_in_map [errors]: "(\<And>x. ends_in P (f x)) \<Longrightarrow> ends_in P (act_map f xs)"
  by (induction xs) (auto intro!: errors)

lemma ends_in_discard [errors]: "ends_in P m \<Longrightarrow> ends_in P (discard m)"
  unfolding discard_def by (auto intro: errors)

section \<open>The errors of a command\<close>

text \<open>
  What a command may end in. A refusal names the scope or the write role the command needs and comes only
  from a handle with a gate or without the lock; a command that reconciles the vectors afterwards may also
  miss the scope to read them; a backend error names the table the caller named, except
  that a companion table of vectors that cannot be opened is named itself; an audit error needs an audited handle. Nothing else: in particular no schema error.
\<close>

fun reconciles :: "command \<Rightarrow> bool" where
  "reconciles (AppendBatch _ _) = True"
| "reconciles (UpdateRows _ _ _) = True"
| "reconciles (DeleteRows _ _) = True"
| "reconciles _ = False"

fun error_of :: "store \<Rightarrow> command \<Rightarrow> db_error \<Rightarrow> bool" where
  "error_of st cmd (StorageError (NotPermitted scope t)) \<longleftrightarrow>
     st_gate st \<noteq> None \<and> t = command_table cmd \<and> (scope = command_scope cmd \<or> scope = Read \<and> reconciles cmd)"
| "error_of st cmd (StorageError (ReadOnly operation t)) \<longleftrightarrow>
     st_write_lock st = None \<and> writing_name cmd = Some operation \<and> t = command_table cmd"
| "error_of st cmd (StorageError (NothingToSet t)) \<longleftrightarrow> (case cmd of UpdateRows t' _ as \<Rightarrow> t' = t \<and> as = [] | _ \<Rightarrow> False)"
| "error_of st cmd (StorageError (WrongVectorWidth got wanted)) \<longleftrightarrow> wanted = VECTOR_WIDTH \<and> got \<noteq> VECTOR_WIDTH \<and>
     (case cmd of Nearest _ _ q _ \<Rightarrow> length q = got | HybridSearch _ _ _ q _ \<Rightarrow> length q = got | _ \<Rightarrow> False)"
| "error_of st cmd (StorageError (Backend operation t cause)) \<longleftrightarrow> t = command_table cmd \<or>
     operation = ''open the table'' \<and> (\<exists>column. t = vector_table (command_table cmd) column)"
| "error_of st cmd (AuditError e) \<longleftrightarrow> st_audit st \<noteq> None"
| "error_of st cmd _ \<longleftrightarrow> False"

section \<open>The steps\<close>

text \<open>A set of errors that has the backend errors on a table, and the audit errors if the handle is audited.\<close>

definition covers :: "store \<Rightarrow> string \<Rightarrow> (db_error \<Rightarrow> bool) \<Rightarrow> bool" where
  "covers st t P \<longleftrightarrow> (\<forall>operation cause. P (backend operation t cause)) \<and>
     (\<forall>column cause. P (backend ''open the table'' (vector_table t column) cause)) \<and> (\<forall>e. st_audit st \<noteq> None \<longrightarrow> P (AuditError e))"

lemma covers_error_of [simp]: "covers st (command_table cmd) (error_of st cmd)"
  by (simp add: covers_def backend_def) blast

lemma covers_backend: "covers st t P \<Longrightarrow> fails_in P (or_backend operation t r)" "covers st t P \<Longrightarrow> P (backend operation t cause)"
  by (cases r; simp add: covers_def) (simp add: covers_def)

lemma covers_disk: 
  assumes "covers st t P"
  shows "ends_in P (from_disk operation t call)" "ends_in P (on_disk operation t call')"
  using covers_backend [OF assms] by (auto simp: ends_in_def from_disk_def on_disk_def act_simps split: prod.split)

lemma covers_record: "covers st t P \<Longrightarrow> ends_in P (record_op E st q p n)"
  by (auto simp: covers_def ends_in_def fails_in_def record_op_def split: option.split prod.split sum.split)

lemma ends_in_warn [errors]: "ends_in P (warn x)"
  by (simp add: ends_in_def warn_def)

lemmas covers_steps = covers_backend covers_disk covers_record

lemma covers_reading:
  assumes "covers st t P"
  shows "ends_in P (store_open E st' t)" "ends_in P (store_open E st' (vector_table t column))"
    "ends_in P (fetch E s r t sc)" "ends_in P (store_collect E t sc)"
  using covers_steps [OF assms] assms
  by (auto simp: reading_defs covers_def fails_in_def elim!: or_backend.elims intro!: errors)

lemma covers_batches:
  assumes "covers st t P"
  shows "fails_in P (ids_of_batch E t b)" "fails_in P (text_ids_of_batch E t b)" "fails_in P (present_of_batch E t c b)"
    "fails_in P (zip_vectors (backend operation t msg) rows chunk_ids embeddings)"
    "fails_in P (vectors_of_batch operation msg t b)"
proof -
  note bad = covers_backend(2) [OF assms]
  show "fails_in P (ids_of_batch E t b)" "fails_in P (text_ids_of_batch E t b)"
    using bad by (auto simp: ids_of_batch_def text_ids_of_batch_def split: option.split)
  show "fails_in P (present_of_batch E t c b)" using bad unfolding present_of_batch_def by (auto intro!: errors)
  show vs: "fails_in P (zip_vectors (backend operation t msg) rows chunk_ids embeddings)" for rows chunk_ids embeddings
    using bad by (induction "backend operation t msg" rows chunk_ids embeddings rule: zip_vectors.induct)
      (auto split: column.split intro!: errors)
  show "fails_in P (vectors_of_batch operation msg t b)" using bad vs unfolding vectors_of_batch_def by (auto intro!: errors)
qed

lemma covers_select:
  assumes "covers st t P"
  shows "fails_in P (select_ordered E t p by order sc)" "fails_in P (select_row_ids E t p sc)" "fails_in P (set_all E t as ub)"
proof -
  note outside = covers_backend(1) [OF assms]
  show "fails_in P (select_ordered E t p by order sc)" "fails_in P (select_row_ids E t p sc)"
    using outside by (auto simp: select_ordered_def select_row_ids_def intro!: errors)
  show "fails_in P (set_all E t as ub)" by (induction as arbitrary: ub) (auto intro!: errors outside)
qed

lemma covers_rebuild:
  assumes "covers st t P"
  shows "fails_in P (rebuild e t existing present)"
proof -
  note bad = covers_backend [OF assms]
  have "fails_in P (number_chunks t row n vs)" for row n vs
    by (induction vs arbitrary: n) (auto intro!: errors bad)
  moreover have "fails_in P (embeddings_for e t existing row t0)" for row t0
    by (auto simp: embeddings_for_def Let_def intro!: bad)
  ultimately show ?thesis by (induction present) (auto intro!: errors)
qed

lemmas covered = covers_backend(1) covers_disk covers_record covers_reading covers_batches covers_select covers_rebuild

section \<open>The operations\<close>

lemma covers_reconcile:
  assumes "covers st t P" and "fails_in P (require_scope E st Read t)"
  shows "ends_in P (reconcile_all E st t)"
proof -
  note steps = covered [OF assms(1)] assms(2)
  have vectors: "ends_in P (vectors_of E st t c)" for c unfolding vectors_of_def by (intro errors steps)
  have "ends_in P (existing_vectors E st t c)" for c
    using vectors by (auto simp: ends_in_def existing_vectors_def split: sum.split)
  moreover have "ends_in P (present_rows E st t c)" for c unfolding present_rows_def by (intro errors steps)
  moreover have "ends_in P (write_vectors E st t c vs)" for c vs unfolding write_vectors_def by (intro errors steps)
  ultimately have "ends_in P (reconcile E st t c)" for c
    using covers_backend(2) [OF assms(1)] unfolding reconcile_def
    by (cases "st_embedder st") (auto intro!: errors steps)
  moreover have "ends_in P (embedding_columns E st t)" unfolding embedding_columns_def by (intro errors steps)
  ultimately show ?thesis unfolding reconcile_all_def by (intro errors)
qed

lemma covers_searches:
  assumes "covers st t P" and "fails_in P (require_scope E st Read t)"
  shows "ends_in P (row_ids E st t p)" "ends_in P (scan_ordered E st t p by order)" "ends_in P (vectors_of E st t c)"
    "ends_in P (search_text E st t c text n)" "ends_in P (scan E st t)"
    "(length q \<noteq> VECTOR_WIDTH \<longrightarrow> P (StorageError (WrongVectorWidth (length q) VECTOR_WIDTH))) \<Longrightarrow> ends_in P (nearest E st t c q n)"
proof -
  note steps = covered [OF assms(1)] assms(2)
  show "ends_in P (row_ids E st t p)" unfolding row_ids_def by (intro errors steps)
  show "ends_in P (scan_ordered E st t p by order)" unfolding scan_ordered_def by (intro errors steps)
  show "ends_in P (vectors_of E st t c)" unfolding vectors_of_def by (intro errors steps)
  show "ends_in P (search_text E st t c text n)" unfolding search_text_def by (intro errors steps)
  show "ends_in P (scan E st t)" unfolding scan_def by (intro errors steps)
  show "ends_in P (nearest E st t c q n)"
    if "length q \<noteq> VECTOR_WIDTH \<longrightarrow> P (StorageError (WrongVectorWidth (length q) VECTOR_WIDTH))"
    unfolding nearest_def using that by (intro errors steps) auto
qed

lemma covers_sets:
  assumes "\<And>p. ends_in P (row_ids E st t p)"
  shows "ends_in P (row_ids_all E st t (p # ps))" "ends_in P (row_ids_any E st t (p # ps))"
proof -
  have "ends_in P (each_set E st t (p # ps) op)" for op unfolding each_set_def list.case by (intro errors assms)
  then show "ends_in P (row_ids_all E st t (p # ps))" "ends_in P (row_ids_any E st t (p # ps))"
    unfolding row_ids_all_def row_ids_any_def by (auto intro!: errors)
qed

text \<open>The operations that need the write role, given what the checks may be refused with.\<close>

lemma covers_schema:
  assumes "covers st t P" and "fails_in P (require_scope E st Schema t)" and "fails_in P (require_write_role st op t)"
  shows "op = ''create the table'' \<Longrightarrow> ends_in P (create_table E st t d)"
    "op = ''drop the table'' \<Longrightarrow> ends_in P (drop_table E st t)"
    "op = ''index a column of'' \<Longrightarrow> ends_in P (create_index E st t c)"
    "op = ''index the vectors of'' \<Longrightarrow> ends_in P (create_vector_index E st t c kind)"
    "op = ''index the text of'' \<Longrightarrow> ends_in P (create_text_index E st t c language)"
proof -
  note steps = covered [OF assms(1)] assms(2,3)
  show "op = ''create the table'' \<Longrightarrow> ends_in P (create_table E st t d)"
    unfolding create_table_def using assms(3) by (intro errors steps) simp
  show "op = ''drop the table'' \<Longrightarrow> ends_in P (drop_table E st t)"
    unfolding drop_table_def using assms(3) by (intro errors steps) simp
  show "op = ''index a column of'' \<Longrightarrow> ends_in P (create_index E st t c)"
    unfolding create_index_def using assms(3) by (intro errors steps) simp
  show "op = ''index the vectors of'' \<Longrightarrow> ends_in P (create_vector_index E st t c kind)"
    unfolding create_vector_index_def using assms(3) by (intro errors steps) simp
  show "op = ''index the text of'' \<Longrightarrow> ends_in P (create_text_index E st t c language)"
    unfolding create_text_index_def using assms(3) by (cases "as_parts language") (simp, intro errors steps, simp)
qed

lemma covers_rows:
  assumes cov: "covers st t P" and "fails_in P (require_scope E st Write t)" and "fails_in P (require_write_role st op t)"
    and "fails_in P (require_scope E st Read t)"
  shows "op = ''append to'' \<Longrightarrow> ends_in P (append_batch E st t b)"
    "op = ''delete from'' \<Longrightarrow> ends_in P (delete_rows E st t p)"
    "op = ''update'' \<Longrightarrow> (as = [] \<longrightarrow> P (StorageError (NothingToSet t))) \<Longrightarrow> ends_in P (update_rows E st t p as)"
proof -
  note steps = covered [OF cov] assms(2,3) covers_reconcile [OF cov assms(4)]
  show "op = ''append to'' \<Longrightarrow> ends_in P (append_batch E st t b)"
    unfolding append_batch_def using assms(3) by (intro errors steps) simp
  show "op = ''delete from'' \<Longrightarrow> ends_in P (delete_rows E st t p)"
    unfolding delete_rows_def using assms(3) by (intro errors steps) simp
  show "op = ''update'' \<Longrightarrow> (as = [] \<longrightarrow> P (StorageError (NothingToSet t))) \<Longrightarrow> ends_in P (update_rows E st t p as)"
    unfolding update_rows_def using assms(3) by (intro errors steps) simp_all
qed

text \<open>The operations composed of others.\<close>

lemma covers_composed:
  assumes cov: "covers st t P" and "fails_in P (require_scope E st Read t)"
  shows "ends_in P (row_ids_measured E st t p)" "ends_in P (scan_ordered_measured E st t p by order)"
    "ends_in P (vector_index_kind_of E st t c)" "ends_in P (nearest_uses_the_index E st t c q n)"
    "(length q \<noteq> VECTOR_WIDTH \<longrightarrow> P (StorageError (WrongVectorWidth (length q) VECTOR_WIDTH))) \<Longrightarrow> ends_in P (hybrid_search E st t c text q n)"
proof -
  note steps = covered [OF cov] assms(2) covers_searches [OF assms]
  show "ends_in P (row_ids_measured E st t p)" unfolding row_ids_measured_def by (intro errors steps)
  show "ends_in P (scan_ordered_measured E st t p by order)" unfolding scan_ordered_measured_def by (intro errors steps)
  show "ends_in P (vector_index_kind_of E st t c)"
    unfolding vector_index_kind_of_def by (intro errors steps) (simp split: sum.split)
  show "ends_in P (nearest_uses_the_index E st t c q n)" unfolding nearest_uses_the_index_def by (intro errors steps)
  show "ends_in P (hybrid_search E st t c text q n)"
    if "length q \<noteq> VECTOR_WIDTH \<longrightarrow> P (StorageError (WrongVectorWidth (length q) VECTOR_WIDTH))"
    unfolding hybrid_search_def Let_def using that by (intro errors steps)
qed

section \<open>Every error of every command\<close>

lemma scope_of:
  "scope = command_scope cmd \<or> scope = Read \<and> reconciles cmd \<Longrightarrow> t = command_table cmd \<Longrightarrow>
     fails_in (error_of st cmd) (require_scope E st scope t)"
  by (auto simp: fails_in_def require_scope_def split: option.splits if_splits)

lemma role_of:
  "writing_name cmd = Some op \<Longrightarrow> t = command_table cmd \<Longrightarrow> fails_in (error_of st cmd) (require_write_role st op t)"
  by (auto simp: fails_in_def require_write_role_def split: if_splits)

lemma covers_of: "t = command_table cmd \<Longrightarrow> covers st t (error_of st cmd)"
  by simp

lemma command_ends_in: "ends_in (error_of st cmd) (run_command E st cmd)"
proof -
  note checks = covers_of scope_of role_of
  note parts = ends_in_discard covers_schema covers_rows covers_searches covers_sets covers_composed
  show ?thesis by (cases cmd; simp only: run_command.simps; intro parts checks; (rule refl)?; simp)
qed

text \<open>An error of a command names its table in its message, apart from two kinds.\<close>

lemma error_names_table:
  assumes "error_of st cmd e"
  shows "contains_str (command_table cmd) (db_error_str show_type path e) \<or>
    (\<exists>given wanted. e = StorageError (WrongVectorWidth given wanted)) \<or> (\<exists>a. e = AuditError a)"
proof (cases e)
  case (StorageError x)
  show ?thesis
    using assms unfolding StorageError
    by (cases x)
      (auto simp del: contains_str.simps split: command.splits, ((rule contains_quoted | rule contains_cons | rule contains_append)+)?)
qed (use assms in simp_all)

section \<open>The operations that are no commands\<close>

text \<open>Opening for writing, embedding a query, combining no predicates, and a filtered search.\<close>

definition opening_error :: "os_path \<Rightarrow> db_error \<Rightarrow> bool" where
  "opening_error dir e \<longleftrightarrow>
     e = StorageError (AlreadyOpenForWriting dir) \<or> (\<exists>cause. e = backend ''take the write lock for'' dir cause)"

definition embedding_error :: "store \<Rightarrow> string \<Rightarrow> db_error \<Rightarrow> bool" where
  "embedding_error st query e \<longleftrightarrow>
     (case st_embedder st of
        None \<Rightarrow> e = StorageError NoEmbedder
      | Some em \<Rightarrow> \<exists>cause. em_query em query = Inl cause \<and> e = StorageError (QueryNotEmbeddable cause))"

definition combining_error :: "store \<Rightarrow> string \<Rightarrow> predicate list \<Rightarrow> string \<Rightarrow> db_error \<Rightarrow> bool" where
  "combining_error st t ps operation e \<longleftrightarrow>
     (case ps of
        [] \<Rightarrow> e = StorageError (NothingToCombine t operation)
      | p # rest \<Rightarrow> error_of st (RowIdsAll t p rest) e)"

lemma combining_some: "combining_error st t (p # rest) operation = error_of st (RowIdsAll t p rest)"
  by (rule ext) (simp add: combining_error_def)

lemma lock_errors: "lock_acquire env dir os = (Inl e, os') \<Longrightarrow> e = Busy dir \<or> (\<exists>cause. e = LockUnavailable dir cause)"
  by (auto simp: lock_acquire_def Let_def split: option.splits if_splits)

lemma opening_errors:
  assumes "open_for_writing env dir os = (Inl e, os')"
  shows "opening_error dir e"
  using assms by (auto simp: open_for_writing_def opening_error_def split: prod.splits sum.splits lock_error.splits dest!: lock_errors)

lemma opening_message: "opening_error dir e \<Longrightarrow> contains_str dir (db_error_str show_type path e)"
proof (unfold opening_error_def, elim disjE exE)
  show "contains_str dir (db_error_str show_type path e)" if "e = StorageError (AlreadyOpenForWriting dir)"
    using that contains_append [OF contains_prefix [of dir "[]"], of "''another writer already holds the database at ''"] by simp
  show "contains_str dir (db_error_str show_type path e)" if "e = backend ''take the write lock for'' dir cause" for cause
    unfolding that backend_def db_error_str.simps storage_error_str.simps by (intro contains_append contains_quoted)
qed

lemma embedding_errors: "store_embed_query st query = Inl e \<longleftrightarrow> embedding_error st query e"
  by (auto simp: store_embed_query_def embedding_error_def split: option.split sum.split)

lemma row_ids_ends_in: "ends_in (error_of st (RowIdsAll t p rest)) (row_ids E st t q)"
  by (rule covers_searches(1) [OF covers_of scope_of]) simp_all

lemma combining_ends_in:
  "ends_in (combining_error st t ps ''intersect'') (row_ids_all E st t ps)"
  "ends_in (combining_error st t ps ''unite'') (row_ids_any E st t ps)"
proof -
  show "ends_in (combining_error st t ps ''intersect'') (row_ids_all E st t ps)"
  proof (cases ps)
    case Nil
    then show ?thesis by (simp add: row_ids_all_def each_set_def combining_error_def ends_in_def act_run)
  next
    case (Cons p rest)
    then show ?thesis using covers_sets(1) [OF row_ids_ends_in] by (simp add: combining_some)
  qed
  show "ends_in (combining_error st t ps ''unite'') (row_ids_any E st t ps)"
  proof (cases ps)
    case Nil
    then show ?thesis by (simp add: row_ids_any_def each_set_def combining_error_def ends_in_def act_run)
  next
    case (Cons p rest)
    then show ?thesis using covers_sets(2) [OF row_ids_ends_in] by (simp add: combining_some)
  qed
qed

lemma combining_message:
  assumes "combining_error st t ps operation e"
  shows "contains_str t (db_error_str show_type path e) \<or> (\<exists>a. e = AuditError a)"
proof (cases ps)
  case Nil
  then have "e = StorageError (NothingToCombine t operation)" using assms by (simp add: combining_error_def)
  then show ?thesis by (simp del: contains_str.simps) (intro disjI1 contains_append contains_cons contains_quoted)
next
  case (Cons p rest)
  then have "error_of st (RowIdsAll t p rest) e" using assms by (simp add: combining_error_def)
  then show ?thesis using error_names_table [of st "RowIdsAll t p rest" e show_type path] by auto
qed

lemma filtered_errors:
  assumes "filtered_search E st t ps candidates n w = (Inl e, w')"
  shows "combining_error st t ps ''intersect'' e \<or> (\<exists>kept w0. candidates kept n w0 = (Inl e, w'))"
  using assms combining_ends_in(1) [of st t ps E]
  by (auto simp: filtered_search_def ends_in_def fails_in_def elim!: act_bindE) (metis fst_conv)



end
