(* ===== verification/Embedder_Port.thy ===== *)
theory Embedder_Port
  imports Database Store_Errors
begin

text \<open>
  The port through which the store turns text into vectors (\<open>embedding.rs\<close>, the trait \<open>Embedder\<close>), as an
  interface: every vector it returns has the width of the companion tables. What the store and the database
  make of an embedder that keeps this: they never refuse one of its vectors.
\<close>

lemma number_chunks_total:
  "\<forall>v \<in> set vs. length v = VECTOR_WIDTH \<Longrightarrow> \<exists>ns. number_chunks table row n vs = Inr ns"
proof (induction vs arbitrary: n)
  case (Cons v vs)
  then obtain ns where "number_chunks table row (Suc n) vs = Inr ns" by fastforce
  then show ?case using Cons.prems by simp
qed simp

text \<open>The error of a search by a vector of a width the companion tables do not have.\<close>

definition width_error :: "db_error \<Rightarrow> bool" where
  "width_error e \<longleftrightarrow> (\<exists>given wanted. e = StorageError (WrongVectorWidth given wanted))"

lemma nearest_width:
  assumes "length q = VECTOR_WIDTH"
  shows "ends_in (\<lambda>e. \<not> width_error e) (nearest E st t c q n)"
  using assms
  by (intro covers_searches(6))
    (auto simp: covers_def width_error_def backend_def fails_in_def require_scope_def split: option.splits if_splits)

locale embedder_port =
  fixes e :: embedder
  assumes passage_width: "em_passage e s = Inr vs \<Longrightarrow> v \<in> set vs \<Longrightarrow> length v = VECTOR_WIDTH"
    and query_width: "em_query e s = Inr q \<Longrightarrow> length q = VECTOR_WIDTH"
begin

lemma chunks_numbered: "em_passage e s = Inr vs \<Longrightarrow> \<exists>ns. number_chunks table row n vs = Inr ns"
  using passage_width by (intro number_chunks_total) blast

text \<open>Rebuilding a companion table whose vectors have the width fails only if the embedder fails on a row's text.\<close>

lemma rebuild_fails:
  assumes "\<forall>v \<in> set existing. length (rv_embedding v) = VECTOR_WIDTH" and "rebuild e table existing present = Inl err"
  shows "\<exists>row s cause. (row, s) \<in> set present \<and> em_passage e s = Inl cause \<and> err = backend ''embed the text of'' table cause"
  using assms(2)
proof (induction present)
  case (Cons p present)
  obtain row s where p: "p = (row, s)" by fastforce
  show ?case
  proof (cases "embeddings_for e table existing row s")
    case (Inl err')
    then obtain cause where "em_passage e s = Inl cause" "err' = backend ''embed the text of'' table cause"
      by (cases "em_passage e s") (auto simp: embeddings_for_def Let_def split: if_splits)
    then show ?thesis using Cons.prems Inl by (auto simp: p)
  next
    case (Inr vs)
    have "\<forall>v \<in> set vs. length v = VECTOR_WIDTH"
    proof (cases "map rv_embedding (filter (\<lambda>v. row_get (rv_row v) = row) existing) = []")
      case True
      then have "em_passage e s = Inr vs" using Inr by (cases "em_passage e s") (auto simp: embeddings_for_def)
      then show ?thesis using passage_width by blast
    next
      case False
      then have "vs = map rv_embedding (filter (\<lambda>v. row_get (rv_row v) = row) existing)"
        using Inr by (auto simp: embeddings_for_def Let_def split: if_splits)
      then show ?thesis using assms(1) by auto
    qed
    then obtain ns where "number_chunks table row 0 vs = Inr ns" using number_chunks_total by blast
    then have "rebuild e table existing present = Inl err"
      using Cons.prems Inr by (cases "rebuild e table existing present") (simp_all add: p)
    from Cons.IH [OF this] show ?thesis by auto
  qed
qed simp

text \<open>A search by meaning through this embedder is never refused for the width of its vector.\<close>

lemma search_fits:
  assumes "st_embedder (db_store db) = Some e"
  shows "ends_in (\<lambda>e. \<not> width_error e) (database_semantic_search E db table column query limit)"
proof (cases "em_query e query")
  case (Inl cause)
  then show ?thesis
    using assms by (simp add: database_semantic_search_def store_embed_query_def ends_in_def act_simps width_error_def)
next
  case (Inr q)
  then have "length q = VECTOR_WIDTH" by (rule query_width)
  then have "ends_in (\<lambda>e. \<not> width_error e) (nearest E (db_store db) table column q limit)" by (rule nearest_width)
  then show ?thesis
    using assms Inr unfolding database_semantic_search_def by (simp add: store_embed_query_def) (auto intro!: errors)
qed

end

end
