(* ===== verification/Embed_Claims.thy ===== *)
theory Embed_Claims
  imports Embed Embedder_Port
begin

text \<open>
  The properties of the embedding adapter: which parts of a text its chunks are, what padding to a bucket
  does to a vector, what the cache of plans changes, and that its vectors are the ones the store takes.
\<close>

section \<open>Chunks cover the text\<close>

text \<open>
  What the code relies on of a tokenizer's offsets: the ends come in order, lie inside the text and not
  inside a character.
\<close>

definition offsets_ok :: "string \<Rightarrow> (nat \<times> nat) list \<Rightarrow> bool" where
  "offsets_ok text offsets \<longleftrightarrow>
     sorted (map snd offsets) \<and> (\<forall>e \<in> set (map snd offsets). e \<le> length text \<and> is_char_boundary text e)"

definition slice_of :: "string \<Rightarrow> nat \<times> nat \<Rightarrow> string" where
  "slice_of text = (\<lambda>(a, b). take (b - a) (drop a text))"

fun cuts :: "nat \<Rightarrow> (nat \<times> nat) list list \<Rightarrow> (nat \<times> nat) list" where
  "cuts start [] = []"
| "cuts start (g # gs) = (start, snd (last g)) # cuts (snd (last g)) gs"

lemma chunk_walk_groups:
  assumes "offsets \<noteq> [] \<or> pending = []" and "length pending < max 1 budget"
  shows "\<exists>groups. concat groups = pending @ offsets \<and> (\<forall>g \<in> set groups. g \<noteq> [] \<and> length g \<le> max 1 budget) \<and>
    chunk_walk text budget start (length pending) offsets = concat (map (\<lambda>(a, b). piece_at text a b) (cuts start groups))"
  using assms
proof (induction offsets arbitrary: pending start)
  case Nil
  then show ?case by (intro exI [of _ "[]"]) simp
next
  case (Cons span offsets)
  obtain a e where span: "span = (a, e)" by (cases span)
  show ?case
  proof (cases "budget \<le> Suc (length pending) \<or> offsets = []")
    case True
    have "0 < max 1 budget" by simp
    with Cons.IH [of "[]" e] obtain groups where groups: "concat groups = offsets"
      "\<forall>g \<in> set groups. g \<noteq> [] \<and> length g \<le> max 1 budget"
      "chunk_walk text budget e 0 offsets = concat (map (\<lambda>(a, b). piece_at text a b) (cuts e groups))" by auto
    show ?thesis
      using groups True Cons.prems(2) by (intro exI [of _ "(pending @ [span]) # groups"]) (auto simp: span)
  next
    case False
    then have "length (pending @ [span]) < max 1 budget" "offsets \<noteq> []" by auto
    from Cons.IH [of "pending @ [span]" start] this show ?thesis using False by (auto simp: span)
  qed
qed

text \<open>The first group of well-formed offsets and what is left.\<close>

lemma cuts_step:
  assumes "g \<noteq> []" and "offsets_ok text (g @ rest)" and "\<forall>e \<in> set (map snd (g @ rest)). start \<le> e"
  shows "start \<le> snd (last g)" and "snd (last g) \<le> length text" and "is_char_boundary text (snd (last g))"
    and "offsets_ok text rest" and "\<forall>e \<in> set (map snd rest). snd (last g) \<le> e"
proof -
  have e: "snd (last g) \<in> set (map snd g)" using assms(1) by simp
  then show "start \<le> snd (last g)" "snd (last g) \<le> length text" "is_char_boundary text (snd (last g))"
    using assms(2,3) by (auto simp: offsets_ok_def)
  show "offsets_ok text rest" "\<forall>e \<in> set (map snd rest). snd (last g) \<le> e"
    using assms(1,2) by (auto simp: offsets_ok_def sorted_append)
qed

lemma take_between:
  assumes "a \<le> b" and "b \<le> c"
  shows "take (b - a) (drop a xs) @ take (c - b) (drop b xs) = take (c - a) (drop a xs)"
proof -
  have "c - a = (b - a) + (c - b)" "drop b xs = drop (b - a) (drop a xs)" using assms by simp_all
  then show ?thesis by (simp only: take_add)
qed

lemma cuts_cover:
  assumes "\<forall>g \<in> set groups. g \<noteq> []" and "offsets_ok text (concat groups)"
    and "\<forall>e \<in> set (map snd (concat groups)). start \<le> e" and "groups \<noteq> []"
  shows "concat (map (slice_of text) (cuts start groups)) = take (snd (last (concat groups)) - start) (drop start text)"
  using assms
proof (induction groups arbitrary: start)
  case (Cons g groups)
  have g: "g \<noteq> []" using Cons.prems(1) by simp
  note step = cuts_step [OF g, of "text" "concat groups" start]
  have step: "start \<le> snd (last g)" "offsets_ok text (concat groups)" "\<forall>e \<in> set (map snd (concat groups)). snd (last g) \<le> e"
    using step(1,4,5) Cons.prems(2,3) by simp_all
  show ?case
  proof (cases "groups = []")
    case True
    then show ?thesis by (simp add: slice_of_def)
  next
    case False
    then have rest: "concat groups \<noteq> []" using Cons.prems(1) by (cases groups) auto
    then have "snd (last (concat groups)) \<in> set (map snd (concat groups))" by (metis image_eqI last_in_set list.set_map)
    then have "snd (last g) \<le> snd (last (concat groups))" using step(3) by blast
    then show ?thesis
      using Cons.IH [of "snd (last g)"] step False Cons.prems(1) rest take_between [OF step(1)] by (simp add: slice_of_def)
  qed
qed simp

lemma cuts_pieces:
  assumes "\<forall>g \<in> set groups. g \<noteq> []" and "offsets_ok text (concat groups)"
    and "\<forall>e \<in> set (map snd (concat groups)). start \<le> e" and "start \<le> length text" "is_char_boundary text start"
  shows "concat (map (\<lambda>(a, b). piece_at text a b) (cuts start groups))
      = filter (\<lambda>p. \<not> blank p) (map (slice_of text) (cuts start groups))"
  using assms
proof (induction groups arbitrary: start)
  case (Cons g groups)
  have g: "g \<noteq> []" using Cons.prems(1) by simp
  note step = cuts_step [OF g, of "text" "concat groups" start]
  have step: "start \<le> snd (last g)" "snd (last g) \<le> length text" "is_char_boundary text (snd (last g))"
    "offsets_ok text (concat groups)" "\<forall>e \<in> set (map snd (concat groups)). snd (last g) \<le> e"
    using step Cons.prems(2,3) by simp_all
  have "piece_at text start (snd (last g)) = filter (\<lambda>p. \<not> blank p) [slice_of text (start, snd (last g))]"
    using step Cons.prems(4,5) by (simp add: piece_at_def str_get_def slice_of_def)
  then show ?case using Cons.IH [of "snd (last g)"] Cons.prems(1) step by simp
qed simp

text \<open>C25: chunking loses nothing but blanks. When the tokenizer answers, chunking does. A text within the budget is
  its own only chunk. Of a longer one the tokens are grouped in order, at most a budget's worth in each
  group, and the text is cut where the groups end: the pieces put together are the text up to its last
  token, and the chunks are exactly the pieces that are not blank.\<close>

theorem chunks_cover:
  assumes prefix: "token_count md PASSAGE_PREFIX = Inr n" and tokens: "encode md text = Inr ts"
    and offsets: "offsets_ok text (map tok_span ts)"
  shows "(length ts \<le> TOKEN_LIMIT - (n + 2) \<longrightarrow> embed_chunks md text = Inr [text]) \<and>
    (TOKEN_LIMIT - (n + 2) < length ts \<longrightarrow>
      (\<exists>groups pieces. concat groups = map tok_span ts \<and>
        (\<forall>g \<in> set groups. g \<noteq> [] \<and> length g \<le> max 1 (TOKEN_LIMIT - (n + 2))) \<and>
        pieces = map (slice_of text) (cuts 0 groups) \<and>
        concat pieces = take (snd (tok_span (last ts))) text \<and>
        embed_chunks md text = Inr (filter (\<lambda>p. \<not> blank p) pieces)))"
proof (intro conjI impI)
  show "embed_chunks md text = Inr [text]" if "length ts \<le> TOKEN_LIMIT - (n + 2)"
    using that by (simp add: embed_chunks_def prefix tokens)
next
  let ?budget = "TOKEN_LIMIT - (n + 2)"
  assume long: "?budget < length ts"
  then have ts: "ts \<noteq> []" by auto
  obtain groups where groups: "concat groups = map tok_span ts"
    "\<forall>g \<in> set groups. g \<noteq> [] \<and> length g \<le> max 1 ?budget"
    "chunk_walk text ?budget 0 0 (map tok_span ts) = concat (map (\<lambda>(a, b). piece_at text a b) (cuts 0 groups))"
    using chunk_walk_groups [of "map tok_span ts" "[]" ?budget "text" 0] by (auto simp: less_max_iff_disj)
  moreover have "groups \<noteq> []" using groups(1) ts by auto
  moreover have "offsets_ok text (concat groups)" using groups(1) offsets by simp
  moreover have "is_char_boundary text 0" by (simp add: is_char_boundary_def)
  ultimately have "concat (map (slice_of text) (cuts 0 groups)) = take (snd (last (map tok_span ts))) text"
    "chunk_walk text ?budget 0 0 (map tok_span ts) = filter (\<lambda>p. \<not> blank p) (map (slice_of text) (cuts 0 groups))"
    using cuts_cover [of groups "text" 0] cuts_pieces [of groups "text" 0] by simp_all
  then show "\<exists>groups pieces. concat groups = map tok_span ts \<and> (\<forall>g \<in> set groups. g \<noteq> [] \<and> length g \<le> max 1 ?budget) \<and>
      pieces = map (slice_of text) (cuts 0 groups) \<and> concat pieces = take (snd (tok_span (last ts))) text \<and>
      embed_chunks md text = Inr (filter (\<lambda>p. \<not> blank p) pieces)"
    using groups long ts by (intro exI conjI) (auto simp: embed_chunks_def prefix tokens last_map)
qed

section \<open>Padding\<close>

lemma bucket_for_member: "bucket_for n \<in> set BUCKETS"
  by (auto simp: bucket_for_def BUCKETS_def)

lemma bucket_for_bounds: "n \<le> TOKEN_LIMIT \<Longrightarrow> n \<le> bucket_for n \<and> (16 < n \<longrightarrow> bucket_for n < 2 * n)"
  by (auto simp: bucket_for_def BUCKETS_def TOKEN_LIMIT_def)

lemma bucket_for_long: "TOKEN_LIMIT \<le> n \<Longrightarrow> bucket_for n = TOKEN_LIMIT"
  by (auto simp: bucket_for_def BUCKETS_def TOKEN_LIMIT_def)

lemma pool_rows_masked:
  "pool_rows rows (replicate a 1 @ replicate b 0) summed counted = pool_rows (take a rows) (replicate a 1) summed counted"
proof (induction a arbitrary: rows summed counted)
  case 0
  have "pool_rows rows (replicate b 0) summed counted = (summed, counted)"
    by (induction b arbitrary: rows) (auto split: list.split, metis neq_Nil_conv pool_rows.simps(1) pool_rows.simps(2))
  then show ?case by simp
next
  case (Suc a)
  then show ?case by (cases rows) simp_all
qed

lemma take_chunks: "0 < n \<Longrightarrow> take a (chunks n xs) = chunks n (take (a * n) xs)"
proof (induction a arbitrary: xs)
  case (Suc a)
  show ?case
  proof (cases "xs = []")
    case False
    then show ?thesis
      using Suc.IH [OF Suc.prems, of "drop n xs"] Suc.prems
      by (simp add: chunks_step [of n xs] chunks_step [of n "take (n + a * n) xs"] take_drop min_def add.commute)
  qed simp
qed simp

lemma take_whole_rows:
  assumes n: "0 < n"
  shows "take a (whole_rows n xs) = whole_rows n (take (a * n) xs)"
proof -
  have "min (length xs) (a * n) div n * n = min (length xs div n * n) (a * n)"
  proof (cases "length xs \<le> a * n")
    case True
    then have "length xs div n * n \<le> a * n" using div_times_less_eq_dividend [of "length xs" n] by (rule order_trans [rotated])
    then show ?thesis unfolding min_absorb1 [OF True] by (rule min_absorb1 [symmetric])
  next
    case False
    then have "a \<le> length xs div n" using n by (simp add: less_eq_div_iff_mult_less_eq)
    then show ?thesis using False n by (simp add: min_def)
  qed
  then show ?thesis by (simp add: whole_rows_def take_chunks [OF n] min.commute)
qed

text \<open>C28: what a text is padded with does not reach its vector. For a text of the window's size or less the bucket
  is one of the compiled lengths, holds every token and is less than twice as long, or is the shortest one;
  the token ids come first and in order; and pooling the graph's output under the mask is pooling
  the rows of the real tokens alone, whatever the graph computed for the padding.\<close>

theorem padding_is_ignored:
  assumes "length ids \<le> TOKEN_LIMIT"
  defines "bucket \<equiv> bucket_for (length ids)"
  shows "bucket \<in> set BUCKETS \<and> length ids \<le> bucket \<and> (bucket = 16 \<or> bucket < 2 * length ids) \<and>
    length (padded_ids bucket ids) = bucket \<and> take (length ids) (padded_ids bucket ids) = map ucast ids \<and>
    length (mask_for bucket (length ids)) = bucket \<and>
    mean_pool values (mask_for bucket (length ids))
      = mean_pool (take (length ids * DIMENSIONS) values) (replicate (length ids) 1)"
proof (intro conjI)
  have fits: "length ids \<le> bucket" and "16 < length ids \<longrightarrow> bucket < 2 * length ids"
    using bucket_for_bounds [OF assms(1)] by (simp_all add: bucket_def)
  moreover have "length ids \<le> 16 \<Longrightarrow> bucket = 16" by (simp add: bucket_def bucket_for_def BUCKETS_def)
  ultimately show "bucket = 16 \<or> bucket < 2 * length ids" by linarith
  show "bucket \<in> set BUCKETS" unfolding bucket_def by (rule bucket_for_member)
  show "length ids \<le> bucket" by (rule fits)
  show "length (padded_ids bucket ids) = bucket" "length (mask_for bucket (length ids)) = bucket"
    "take (length ids) (padded_ids bucket ids) = map ucast ids"
    using fits by (simp_all add: padded_ids_def mask_for_def)
  have "0 < DIMENSIONS" by (simp add: DIMENSIONS_def)
  then show "mean_pool values (mask_for bucket (length ids))
      = mean_pool (take (length ids * DIMENSIONS) values) (replicate (length ids) 1)"
    using fits by (simp add: mean_pool_def mask_for_def pool_rows_masked take_whole_rows)
qed

text \<open>A query beyond the window is cut without a word. Two queries whose first 512 tokens agree have the same
  vector, whatever comes after.\<close>

theorem long_query_truncated:
  assumes "md_tokenizer md (QUERY_PREFIX @ q) True = Inr ts" "md_tokenizer md (QUERY_PREFIX @ q') True = Inr ts'"
    and "TOKEN_LIMIT \<le> length ts" "TOKEN_LIMIT \<le> length ts'"
    and "take TOKEN_LIMIT (map tok_id ts) = take TOKEN_LIMIT (map tok_id ts')"
  shows "embed_query rt md q = embed_query rt md q'"
proof -
  have "padded_ids TOKEN_LIMIT (map tok_id ts) = padded_ids TOKEN_LIMIT (map tok_id ts')"
    using assms(3,4) arg_cong [OF assms(5), of "map ucast"] by (simp add: padded_ids_def take_map)
  moreover have "mask_for TOKEN_LIMIT (length ts) = mask_for TOKEN_LIMIT (length ts')"
    using assms(3,4) by (simp add: mask_for_def)
  ultimately show ?thesis
    using assms(3,4) by (simp add: embed_query_def model_run_def assms(1,2) bucket_for_long)
qed

section \<open>The cache of plans\<close>

text \<open>Every plan in the cache is what the runtime builds for its length, and the length is a bucket.\<close>

definition plans_sound :: "'p runtime \<Rightarrow> model \<Rightarrow> 'p plans \<Rightarrow> bool" where
  "plans_sound rt md plans \<longleftrightarrow>
     (\<exists>cache. plans = Some cache \<and>
        (\<forall>len p. cache len = Some p \<longrightarrow> len \<in> set BUCKETS \<and> rt_build rt (md_graph md) len = Inr p))"

text \<open>The cache shows neither in what an operation returns nor in whether the cache stays sound.\<close>

definition transparent :: "'p runtime \<Rightarrow> model \<Rightarrow> ('p plans, 'e, 'a) act \<Rightarrow> bool" where
  "transparent rt md m \<longleftrightarrow> (\<exists>r. \<forall>plans. plans_sound rt md plans \<longrightarrow> fst (m plans) = r \<and> plans_sound rt md (snd (m plans)))"

lemma transparentI:
  "(\<And>plans. plans_sound rt md plans \<Longrightarrow> fst (m plans) = r \<and> plans_sound rt md (snd (m plans))) \<Longrightarrow> transparent rt md m"
  by (auto simp: transparent_def)

lemma transparent_of [intro]: "transparent rt md (act_of r)" "transparent rt md (act_ok x)"
  by (auto intro: transparentI simp: act_run)

lemma transparent_bind [intro]:
  assumes "transparent rt md m" and "\<And>x. transparent rt md (k x)"
  shows "transparent rt md (act_bind m k)"
proof -
  obtain r where r: "\<forall>plans. plans_sound rt md plans \<longrightarrow> fst (m plans) = r \<and> plans_sound rt md (snd (m plans))"
    using assms(1) unfolding transparent_def by blast
  obtain r' where r': "\<forall>x plans. plans_sound rt md plans \<longrightarrow> fst (k x plans) = r' x \<and> plans_sound rt md (snd (k x plans))"
    using assms(2) unfolding transparent_def by metis
  show ?thesis
    by (rule transparentI [of _ _ _ "case r of Inl e \<Rightarrow> Inl e | Inr x \<Rightarrow> r' x"])
      (use r r' in \<open>simp add: act_simps split: sum.split\<close>)
qed

lemma transparent_map [intro]: "(\<And>x. transparent rt md (f x)) \<Longrightarrow> transparent rt md (act_map f xs)"
  by (induction xs) auto

lemma transparent_plan: "len \<in> set BUCKETS \<Longrightarrow> transparent rt md (embed_plan rt md len)"
  by (rule transparentI [of _ _ _ "case rt_build rt (md_graph md) len of Inl cause \<Rightarrow> Inl (Inference cause) | Inr p \<Rightarrow> Inr p"])
    (auto simp: plans_sound_def embed_plan_def split: option.split sum.split)

lemma transparent_run [intro]: "transparent rt md (model_run rt md s)"
  unfolding model_run_def Let_def
  by (auto intro!: transparent_bind transparent_plan bucket_for_member split: sum.split)

text \<open>C27: the plan cache is invisible and bounded. A loaded model starts with a sound cache; from any sound cache both
  kinds of embedding return what they return from an empty one, and leave a sound cache with
  a plan for at most six lengths.\<close>

theorem plan_cache_transparent:
  assumes "plans_sound rt md plans"
  shows "fst (embed_passage rt md s plans) = fst (embed_passage rt md s (Some (\<lambda>_. None))) \<and>
    fst (embed_query rt md s plans) = fst (embed_query rt md s (Some (\<lambda>_. None))) \<and>
    plans_sound rt md (snd (embed_passage rt md s plans)) \<and> plans_sound rt md (snd (embed_query rt md s plans)) \<and>
    card (dom (the plans)) \<le> 6 \<and>
    (\<forall>dir md' plans'. load rt dir = Inr (md', plans') \<longrightarrow> plans_sound rt md' plans')"
proof (intro conjI allI impI)
  have empty: "plans_sound rt md' (Some (\<lambda>_. None))" for md' by (simp add: plans_sound_def)
  have "transparent rt md (embed_passage rt md s)" "transparent rt md (embed_query rt md s)"
    unfolding embed_passage_def embed_query_def by blast+
  then show "fst (embed_passage rt md s plans) = fst (embed_passage rt md s (Some (\<lambda>_. None)))"
    "fst (embed_query rt md s plans) = fst (embed_query rt md s (Some (\<lambda>_. None)))"
    "plans_sound rt md (snd (embed_passage rt md s plans))" "plans_sound rt md (snd (embed_query rt md s plans))"
    using assms empty unfolding transparent_def by metis+
  have "dom (the plans) \<subseteq> set BUCKETS" using assms by (auto simp: plans_sound_def)
  then have "card (dom (the plans)) \<le> card (set BUCKETS)" by (intro card_mono) simp_all
  also have "\<dots> \<le> 6" using card_length [of BUCKETS] by (simp add: BUCKETS_def)
  finally show "card (dom (the plans)) \<le> 6" .
  show "plans_sound rt md' plans'" if "load rt dir = Inr (md', plans')" for dir md' plans'
    using that empty by (auto simp: load_def Let_def split: if_splits sum.splits)
qed

section \<open>The vectors fit the store\<close>

lemma pool_rows_length:
  "\<forall>row \<in> set rows. length row = length summed \<Longrightarrow> length (fst (pool_rows rows attention summed counted)) = length summed"
  by (induction rows attention summed counted rule: pool_rows.induct) simp_all

lemma whole_rows_lose_nothing:
  assumes "pool_assertion values"
  shows "concat (whole_rows DIMENSIONS values) = values"
  using assms by (simp add: pool_assertion_def whole_rows_def DIMENSIONS_def)

lemma whole_rows_length:
  assumes n: "0 < n" and "row \<in> set (whole_rows n xs)"
  shows "length row = n"
proof -
  have pieces: "\<forall>row \<in> set (chunks n ys). length row = n" if "length ys = k * n" for k and ys :: "'a list"
    using that
  proof (induction k arbitrary: ys)
    case (Suc k)
    then have "ys \<noteq> []" using n by auto
    then show ?case using Suc.IH [of "drop n ys"] Suc.prems n by (simp add: chunks_step [of n ys])
  qed simp
  have "length (take (length xs div n * n) xs) = length xs div n * n"
    unfolding length_take by (rule min_absorb2 [OF div_times_less_eq_dividend])
  from bspec [OF pieces [OF this] assms(2) [unfolded whole_rows_def]] show ?thesis .
qed

lemma mean_pool_length: "length (mean_pool values attention) = DIMENSIONS"
proof -
  have "length (fst (pool_rows (whole_rows DIMENSIONS values) attention (replicate DIMENSIONS 0) 0)) = DIMENSIONS"
    by (subst pool_rows_length) (auto simp: DIMENSIONS_def dest: whole_rows_length [rotated])
  then show ?thesis
    by (cases "pool_rows (whole_rows DIMENSIONS values) attention (replicate DIMENSIONS 0) 0") (simp add: mean_pool_def)
qed

lemma pooled_length: "pooled attention outputs = Inr v \<Longrightarrow> length v = DIMENSIONS"
  by (auto simp: pooled_def normalise_def Let_def mean_pool_length split: list.splits sum.splits)

lemma model_run_length:
  assumes "model_run rt md s plans = (Inr v, plans')"
  shows "length v = DIMENSIONS"
proof (cases "md_tokenizer md s True")
  case (Inr ts)
  let ?b = "bucket_for (length ts)"
  let ?out = "\<lambda>p. rt_run rt p (padded_ids ?b (map tok_id ts)) (mask_for ?b (length ts)) (replicate ?b 0)"
  from assms Inr obtain p plans1 where
    "(case ?out p of Inl cause \<Rightarrow> act_of (Inl (Inference cause)) | Inr outputs \<Rightarrow> act_of (pooled (mask_for ?b (length ts)) outputs)) plans1
      = (Inr v, plans')"
    by (auto simp: model_run_def Let_def act_bind_Inr)
  then show ?thesis by (cases "?out p") (auto simp: act_pure_iff dest: pooled_length [OF sym])
qed (use assms in \<open>simp add: model_run_def act_run\<close>)

lemma act_map_all:
  assumes "act_map f xs s = (Inr ys, s')" and "\<And>x s y s'. f x s = (Inr y, s') \<Longrightarrow> P y"
  shows "\<forall>y \<in> set ys. P y"
  using assms(1) by (induction xs arbitrary: s ys) (auto simp: act_bind_Inr act_pure_iff dest: assms(2))

lemma same_width: "VECTOR_WIDTH = DIMENSIONS"
  by (simp add: VECTOR_WIDTH_def DIMENSIONS_def)

text \<open>What a passage and a query return through the port, and that the port keeps the contract of the store.\<close>

lemma port_passage:
  assumes "em_passage (port rt md plans) s = Inr vs"
  shows "\<exists>cs. embed_chunks md s = Inr cs \<and> length vs = length cs" and "\<forall>v \<in> set vs. length v = VECTOR_WIDTH"
proof -
  obtain plans' where "embed_passage rt md s plans = (Inr vs, plans')"
    using assms by (cases "embed_passage rt md s plans") (auto simp: port_def in_words_def split: sum.splits)
  then obtain cs where cs: "embed_chunks md s = Inr cs"
    and run: "act_map (\<lambda>chunk. model_run rt md (PASSAGE_PREFIX @ chunk)) cs plans = (Inr vs, plans')"
    by (cases "embed_chunks md s") (auto simp: embed_passage_def act_run)
  then show "\<exists>cs. embed_chunks md s = Inr cs \<and> length vs = length cs" using act_map_Inr [OF run] by auto
  show "\<forall>v \<in> set vs. length v = VECTOR_WIDTH"
    by (rule act_map_all [OF run]) (simp only: model_run_length same_width)
qed

lemma port_query: "em_query (port rt md plans) s = Inr q \<Longrightarrow> length q = VECTOR_WIDTH"
proof -
  assume "em_query (port rt md plans) s = Inr q"
  then obtain plans' where "embed_query rt md s plans = (Inr q, plans')"
    by (cases "embed_query rt md s plans") (auto simp: port_def in_words_def split: sum.splits)
  then show "length q = VECTOR_WIDTH"
    unfolding embed_query_def same_width by (rule model_run_length)
qed

interpretation adapter: embedder_port "port rt md plans" for rt md plans
  by unfold_locales (use port_passage(2) port_query in blast)+

text \<open>C26: the adapter's vectors are the ones the store takes. A passage has one vector for each chunk of its
  text, and every vector the width of the companion tables. So the store numbers them without a refusal, a
  reconciliation that rebuilds a companion table of such vectors fails only where the adapter fails on the
  text of a row, and with that error, and a search by meaning is never refused for the width of its vector.\<close>

theorem embeddings_fit_store:
  shows "(em_passage (port rt md plans) s = Inr vs \<longrightarrow>
      (\<exists>cs. embed_chunks md s = Inr cs \<and> length vs = length cs) \<and> (\<forall>v \<in> set vs. length v = VECTOR_WIDTH) \<and>
      (\<exists>ns. number_chunks table row 0 vs = Inr ns)) \<and>
    ((\<forall>v \<in> set existing. length (rv_embedding v) = VECTOR_WIDTH) \<and> rebuild (port rt md plans) table existing present = Inl err \<longrightarrow>
      (\<exists>row s cause. (row, s) \<in> set present \<and> em_passage (port rt md plans) s = Inl cause \<and>
        err = backend ''embed the text of'' table cause)) \<and>
    (st_embedder (db_store db) = Some (port rt md plans) \<longrightarrow>
      database_semantic_search E db table column query limit w \<noteq> (Inl (StorageError (WrongVectorWidth given wanted)), w'))"
proof (intro conjI impI)
  assume embedder: "st_embedder (db_store db) = Some (port rt md plans)"
  show "database_semantic_search E db table column query limit w \<noteq> (Inl (StorageError (WrongVectorWidth given wanted)), w')"
    using adapter.search_fits [OF embedder, of E table column query limit]
    unfolding ends_in_def fails_in_def width_error_def by (metis fst_conv)
qed (use port_passage adapter.chunks_numbered in blast, use port_passage adapter.chunks_numbered in blast,
    use adapter.chunks_numbered in blast, elim conjE, rule adapter.rebuild_fails)

section \<open>A tokenizer and a runtime for the witnesses\<close>

text \<open>One token for each byte; a graph whose hidden state is zero everywhere.\<close>

definition demo_tokenizer :: tokenizer where
  "demo_tokenizer s special = Inr (map (\<lambda>i. \<lparr>tok_id = 7, tok_span = (i, Suc i)\<rparr>) [0..<length s])"

definition demo_model :: model where
  "demo_model = \<lparr>md_graph = ''/model/model.onnx'', md_tokenizer = demo_tokenizer\<rparr>"

definition demo_runtime :: "unit runtime" where
  "demo_runtime =
     \<lparr>rt_exists = (\<lambda>_. True), rt_from_file = (\<lambda>_. Inr demo_tokenizer), rt_build = (\<lambda>_ _. Inr ()),
      rt_run = (\<lambda>_ ids _ _. Inr [Inr (replicate (length ids * DIMENSIONS) 0)])\<rparr>"

lemma demo_model_simps [simp]: "md_tokenizer demo_model = demo_tokenizer" "md_graph demo_model = ''/model/model.onnx''"
  by (simp_all add: demo_model_def)

lemma demo_encode: "encode demo_model s = Inr (map (\<lambda>i. \<lparr>tok_id = 7, tok_span = (i, Suc i)\<rparr>) [0..<length s])"
  by (simp add: encode_def demo_model_def demo_tokenizer_def)

lemma demo_prefix: "token_count demo_model PASSAGE_PREFIX = Inr 9"
  by (simp add: token_count_def demo_encode PASSAGE_PREFIX_def)

lemma demo_offsets: "offsets_ok (replicate n CHR ''a'') (map tok_span (map (\<lambda>i. \<lparr>tok_id = 7, tok_span = (i, Suc i)\<rparr>) [0..<n]))"
proof -
  have "sorted (map Suc [0..<n])" by (simp add: sorted_map)
  then show ?thesis by (auto simp: offsets_ok_def comp_def is_char_boundary_def Let_def)
qed

theorem chunks_cover_witness:
  "\<exists>pieces. embed_chunks demo_model (replicate 600 CHR ''a'') = Inr (filter (\<lambda>p. \<not> blank p) pieces) \<and>
     concat pieces = replicate 600 CHR ''a''"
proof -
  let ?ts = "map (\<lambda>i. \<lparr>tok_id = 7, tok_span = (i, Suc i)\<rparr>) [0..<length (replicate 600 CHR ''a'')]"
  have "offsets_ok (replicate 600 CHR ''a'') (map tok_span ?ts)" using demo_offsets [of 600] by simp
  from chunks_cover [OF demo_prefix demo_encode this, THEN conjunct2, rule_format]
  obtain pieces where "embed_chunks demo_model (replicate 600 CHR ''a'') = Inr (filter (\<lambda>p. \<not> blank p) pieces)"
    "concat pieces = take (snd (tok_span (last ?ts))) (replicate 600 CHR ''a'')"
    by (auto simp: TOKEN_LIMIT_def)
  moreover have "snd (tok_span (last ?ts)) = 600" by (simp add: last_map)
  ultimately show ?thesis by (intro exI [of _ pieces]) simp
qed

theorem padding_is_ignored_witness:
  "bucket_for 3 = 16 \<and>
   mean_pool (replicate 6144 F32_ONE) (mask_for 16 3) = mean_pool (take 1152 (replicate 6144 F32_ONE)) (replicate 3 1)"
proof -
  have "bucket_for 3 = 16" by (simp add: bucket_for_def BUCKETS_def)
  then show ?thesis
    using padding_is_ignored [of "replicate 3 5" "replicate 6144 F32_ONE"] by (simp add: TOKEN_LIMIT_def DIMENSIONS_def)
qed

theorem long_query_truncated_witness:
  "embed_query demo_runtime demo_model (replicate 600 CHR ''a'') = embed_query demo_runtime demo_model (replicate 700 CHR ''b'')"
proof -
  have tokens: "md_tokenizer demo_model s True = Inr (map (\<lambda>i. \<lparr>tok_id = 7, tok_span = (i, Suc i)\<rparr>) [0..<length s])" for s
    by (simp add: demo_model_def demo_tokenizer_def)
  show ?thesis
    by (rule long_query_truncated [OF tokens tokens])
      (simp_all add: TOKEN_LIMIT_def QUERY_PREFIX_def comp_def map_replicate_const take_map del: upt_Suc)
qed

theorem plan_cache_transparent_witness:
  "fst (embed_query demo_runtime demo_model ''a'' (Some [16 \<mapsto> ()])) = fst (embed_query demo_runtime demo_model ''a'' (Some (\<lambda>_. None)))"
proof -
  have "plans_sound demo_runtime demo_model (Some [16 \<mapsto> ()])"
    by (simp add: plans_sound_def BUCKETS_def demo_runtime_def)
  from plan_cache_transparent [OF this] show ?thesis by blast
qed

theorem embeddings_fit_store_witness:
  "\<exists>vs. em_passage (port demo_runtime demo_model (Some (\<lambda>_. None))) ''a'' = Inr vs \<and> length vs = 1 \<and>
     (\<forall>v \<in> set vs. length v = VECTOR_WIDTH)"
proof -
  have chunks: "embed_chunks demo_model ''a'' = Inr [''a'']"
    by (simp add: embed_chunks_def demo_prefix demo_encode TOKEN_LIMIT_def)
  have "\<exists>vs. em_passage (port demo_runtime demo_model (Some (\<lambda>_. None))) ''a'' = Inr vs"
    by (simp add: port_def in_words_def embed_passage_def chunks act_simps model_run_def demo_tokenizer_def
        demo_runtime_def embed_plan_def pooled_def Let_def PASSAGE_PREFIX_def)
  then obtain vs where "em_passage (port demo_runtime demo_model (Some (\<lambda>_. None))) ''a'' = Inr vs" by blast
  with embeddings_fit_store [THEN conjunct1, rule_format, OF this] chunks show ?thesis by auto
qed

end
