(* ===== verification/Corpus.thy ===== *)
theory Corpus
  imports Store_Path
begin

text \<open>
  \<open>euledb-corpus/src/lib.rs\<close>: the loader of the reference corpus, and the writer of its line format in
  \<open>scripts/fetch-corpus.py\<close>. The digest of the fetched file is a parameter, and so is reading it.
\<close>

section \<open>Documents\<close>

record document =
  doc_id :: string
  doc_language :: string
  doc_title :: string
  doc_text :: string

fun corpus_unescape :: "string \<Rightarrow> string" where
  "corpus_unescape [] = []"
| "corpus_unescape [c] = (if c \<noteq> backslash then [c] else [])"
| "corpus_unescape (c # d # cs) =
     (if c \<noteq> backslash then c # corpus_unescape (d # cs)
      else (if d = backslash then [backslash]
            else if d = CHR ''t'' then [tab]
            else if d = CHR ''n'' then [newline]
            else if d = CHR ''r'' then [carriage]
            else [backslash, d]) @ corpus_unescape cs)"

definition document_from_line :: "string \<Rightarrow> document option" where
  "document_from_line line =
     (case split_on tab line of
        [a, b, c, d] \<Rightarrow> Some \<lparr>doc_id = a, doc_language = b, doc_title = corpus_unescape c, doc_text = corpus_unescape d\<rparr>
      | _ \<Rightarrow> None)"

definition corpus_parse :: "string \<Rightarrow> document list" where
  "corpus_parse raw = List.map_filter document_from_line (filter (\<lambda>line. line \<noteq> []) (lines_of raw))"

datatype corpus_error = CorpusMissing os_path | CorpusChanged os_path string

definition REFERENCE_FILE :: string where "REFERENCE_FILE = ''corpus/reference.tsv''"

definition REFERENCE_DIGEST :: string where
  "REFERENCE_DIGEST = ''f85e3748907f2a7b9873e317d3d325d1ab8757e521d473f41c3cc618ce14b196''"

text \<open>\<open>include_str!\<close> of the vendored file is its content.\<close>

definition smoke :: "string \<Rightarrow> document list" where
  "smoke vendored = corpus_parse vendored"

definition reference :: "(bytes \<Rightarrow> bytes) \<Rightarrow> (os_path \<Rightarrow> string option) \<Rightarrow> os_path \<Rightarrow> corpus_error + document list" where
  "reference sha read_to_string repository =
     (let path = path_join repository REFERENCE_FILE in
      case read_to_string path of
        None \<Rightarrow> Inl (CorpusMissing path)
      | Some raw \<Rightarrow>
          (let found = hex (sha (ascii raw)) in
           if found \<noteq> REFERENCE_DIGEST then Inl (CorpusChanged path found)
           else Inr (corpus_parse raw)))"

section \<open>The fetcher's side of the format\<close>

text \<open>The four replacements of \<open>escape\<close>, the backslash first, are one pass over the characters.\<close>

fun corpus_escape :: "string \<Rightarrow> string" where
  "corpus_escape [] = []"
| "corpus_escape (c # cs) =
     (if c = backslash then [backslash, backslash]
      else if c = tab then backslash # ''t''
      else if c = newline then backslash # ''n''
      else if c = carriage then backslash # ''r''
      else [c]) @ corpus_escape cs"

definition document_line :: "document \<Rightarrow> string" where
  "document_line d =
     doc_id d @ tab # doc_language d @ tab # corpus_escape (doc_title d) @ tab # corpus_escape (doc_text d)"

text \<open>The lines joined by line feeds, and one more at the end.\<close>

fun joined_lines :: "string list \<Rightarrow> string" where
  "joined_lines [] = [newline]"
| "joined_lines [l] = l @ [newline]"
| "joined_lines (l # m # ls) = l @ newline # joined_lines (m # ls)"

definition corpus_body :: "document list \<Rightarrow> string" where
  "corpus_body ds = joined_lines (map document_line ds)"

section \<open>Round trip\<close>

lemma corpus_unescape_escape: "corpus_unescape (corpus_escape s) = s"
proof (induction s)
  case (Cons c s)
  have "corpus_unescape (c # xs) = c # corpus_unescape xs" if "c \<noteq> backslash" for xs
    using that by (cases xs) simp_all
  then show ?case using Cons.IH by simp
qed simp

lemma corpus_escape_clean: "c = tab \<or> c = newline \<or> c = carriage \<Longrightarrow> c \<notin> set (corpus_escape s)"
  by (induction s) auto

interpretation corpus_field: field_codec corpus_escape corpus_unescape "{tab, newline, carriage}"
  by unfold_locales (auto simp: corpus_unescape_escape corpus_escape_clean)

text \<open>Identifiers and language codes that hold none of the separators.\<close>

definition plain_document :: "document \<Rightarrow> bool" where
  "plain_document d \<longleftrightarrow> {tab, newline} \<inter> (set (doc_id d) \<union> set (doc_language d)) = {}"

lemma document_line_back:
  assumes "plain_document d"
  shows "document_from_line (document_line d) = Some d" and "newline \<notin> set (document_line d)"
    and "document_line d \<noteq> [] \<and> last (document_line d) \<noteq> carriage"
proof -
  have id: "tab \<notin> set (doc_id d)" "tab \<notin> set (doc_language d)" using assms by (auto simp: plain_document_def)
  have "split_on tab (document_line d)
      = [doc_id d, doc_language d, corpus_escape (doc_title d), corpus_escape (doc_text d)]"
    using id by (simp add: document_line_def split_on_append corpus_field.enc_field corpus_field.enc_last_field)
  then show "document_from_line (document_line d) = Some d"
    by (simp add: document_from_line_def corpus_unescape_escape)
  show "newline \<notin> set (document_line d)"
    using assms corpus_escape_clean [of newline] by (auto simp: document_line_def plain_document_def)
  have "carriage \<notin> set (corpus_escape (doc_text d))" by (simp add: corpus_escape_clean)
  then show "document_line d \<noteq> [] \<and> last (document_line d) \<noteq> carriage"
    by (auto simp: document_line_def) (metis last_in_set)
qed

lemma lines_of_joined:
  assumes "\<forall>l \<in> set ls. newline \<notin> set l \<and> l \<noteq> [] \<and> last l \<noteq> carriage"
  shows "filter (\<lambda>l. l \<noteq> []) (lines_of (joined_lines ls)) = ls"
  using assms
proof (induction ls rule: joined_lines.induct)
  case 1
  then show ?case using lines_of_line [of "[]" "[]"] by (simp add: strip_carriage_def)
next
  case (2 l)
  then show ?case using lines_of_line [of l "[]"] by (simp add: strip_carriage_id)
next
  case (3 l m ls)
  then show ?case by (simp add: lines_of_line strip_carriage_id)
qed

text \<open>C39: the corpus that was fetched is the corpus that is read. For documents whose identifiers hold no
  separator, whatever their titles and texts hold, the loader returns exactly the documents the fetcher
  wrote, in order, when the file's digest is the pinned one, names the digest it found when it is not,
  and the path when there is no file.\<close>

theorem corpus_round_trip:
  assumes "\<forall>d \<in> set ds. plain_document d"
  shows "(read_to_string (path_join root' REFERENCE_FILE) = Some (corpus_body ds) \<longrightarrow>
      reference sha read_to_string root'
        = (if hex (sha (ascii (corpus_body ds))) = REFERENCE_DIGEST then Inr ds
           else Inl (CorpusChanged (path_join root' REFERENCE_FILE) (hex (sha (ascii (corpus_body ds))))))) \<and>
    (read_to_string (path_join root' REFERENCE_FILE) = None \<longrightarrow>
      reference sha read_to_string root' = Inl (CorpusMissing (path_join root' REFERENCE_FILE))) \<and>
    smoke (corpus_body ds) = ds"
proof -
  have "filter (\<lambda>l. l \<noteq> []) (lines_of (corpus_body ds)) = map document_line ds"
    unfolding corpus_body_def using assms document_line_back by (intro lines_of_joined) auto
  moreover have "List.map_filter document_from_line (map document_line ds) = ds"
    using assms by (induction ds) (simp_all add: map_filter_simps document_line_back(1))
  ultimately have "corpus_parse (corpus_body ds) = ds" by (simp add: corpus_parse_def)
  then show ?thesis by (simp add: reference_def smoke_def Let_def)
qed

theorem corpus_round_trip_witness:
  "smoke (corpus_body [\<lparr>doc_id = ''de-1'', doc_language = ''de'', doc_title = [tab, backslash], doc_text = [newline, carriage]\<rparr>])
     = [\<lparr>doc_id = ''de-1'', doc_language = ''de'', doc_title = [tab, backslash], doc_text = [newline, carriage]\<rparr>]"
  by (rule corpus_round_trip [THEN conjunct2, THEN conjunct2]) (simp add: plain_document_def)

end
