(* ===== verification/Store_Roundtrip.thy ===== *)
theory Store_Roundtrip
  imports Store_Vectors
begin

text \<open>
  A table from its creation to a scan: what is inserted is what is read back, by any handle on the same
  directory and under the same session.
\<close>

section \<open>Operations that leave a table alone\<close>

text \<open>Operations that leave what is at an address as it was.\<close>

definition spares ::
  "('w, 'ds, 'sc, 'ub) lance \<Rightarrow> string \<Rightarrow> ('w world, 'e, 'a) act \<Rightarrow> bool" where
  "spares L uri m \<longleftrightarrow> (\<forall>w. reads_alike L uri (w_disk w) (w_disk (snd (m w))))"

lemma reads_alike_refl [simp]: "reads_alike L uri d d"
  by (simp add: reads_alike_def)

lemma spares_keeps: "keeps w_disk m \<Longrightarrow> spares L uri m"
  by (simp add: spares_def keepsD)

lemma spares_bind:
  assumes "spares L uri m" and "\<And>x. spares L uri (k x)"
  shows "spares L uri (act_bind m k)"
  using assms by (auto simp: spares_def act_simps split: sum.split intro: reads_alike_trans)

lemma spares_pure: "spares L uri (act_ok x)" "spares L uri (act_of r)"
  by (simp_all add: spares_keeps)

lemma spares_each: "(\<And>x. x \<in> set xs \<Longrightarrow> spares L uri (f x)) \<Longrightarrow> spares L uri (act_each f xs)"
  by (induction xs) (auto intro: spares_keeps spares_bind)

lemma spares_write:
  "apart L uri other \<Longrightarrow> spares L uri (on_disk op table (l_write L s bs other mode session))"
  by (simp add: spares_def on_disk_def apart_def split: prod.split) (metis snd_conv)

lemma spares_reconcile:
  assumes "apart (sv_lance E) uri (store_uri E st (vector_table table column))"
  shows "spares (sv_lance E) uri (reconcile E st table column)"
proof -
  have "keeps w_disk (existing_vectors E st table column)"
    using keeps_vectors_of [of w_disk E st table column] by (auto simp: keeps_def existing_vectors_def split: sum.split)
  moreover have "keeps w_disk (present_rows E st table column)" unfolding present_rows_def by auto
  moreover have "spares (sv_lance E) uri (write_vectors E st table column vs)" for vs
    unfolding write_vectors_def using assms by (intro spares_bind spares_write) (auto intro!: spares_keeps)
  ultimately have sparing: "spares (sv_lance E) uri (existing_vectors E st table column)"
    "spares (sv_lance E) uri (present_rows E st table column)" "spares (sv_lance E) uri (write_vectors E st table column vs)" for vs
    by (auto intro: spares_keeps)
  show ?thesis
  proof (cases "st_embedder st")
    case (Some e)
    have "spares (sv_lance E) uri (if b then act_ok () else act_bind (act_of r) (write_vectors E st table column))" for b r
      using sparing by (cases b) (simp_all add: spares_pure spares_bind)
    with sparing show ?thesis unfolding reconcile_def Some option.case by (intro spares_bind)
  qed (simp add: reconcile_def spares_pure)
qed

lemma holds_alike: "table_holds L uri session d s rows \<Longrightarrow> reads_alike L uri d d' \<Longrightarrow> table_holds L uri session d' s rows"
  unfolding table_holds_def reads_alike_def by metis

section \<open>Creating, inserting and scanning\<close>

lemma created_holds:
  assumes "format_keeps_rows (sv_lance E)" and "create_table E st table def w = (Inr (), w')"
  shows "table_holds (sv_lance E) (store_uri E st table) (st_session st) (w_disk w') (applied_to (td_compression def) (td_schema def)) []"
proof -
  let ?made = "l_write (sv_lance E) (applied_to (td_compression def) (td_schema def)) [] (store_uri E st table) Create (st_session st)"
  obtain w1 where w1: "on_disk ''create the table'' table ?made w = (Inr (), w1)"
    and rec: "record_op E st (''create table '' @ tick @ table @ tick) [] 0 w1 = (Inr (), w')"
    using assms(2) by (auto simp: create_table_def act_bind_Inr act_pure_iff)
  have "w_disk w' = w_disk w1" using keepsD [OF keeps_record(1), of E st _ _ _ w1] rec by (metis snd_conv)
  moreover have "?made (w_disk w) = (Inr (), w_disk w1)" using w1 by (auto simp: on_disk_def split: prod.splits)
  ultimately show ?thesis using assms(1) unfolding format_keeps_rows_def by metis
qed

lemma append_holds:
  assumes fmt: "format_keeps_rows (sv_lance E)"
    and before: "table_holds (sv_lance E) (store_uri E st table) (st_session st) (w_disk w) s rows"
    and batch: "typed_batch b" "same_shape (b_schema b) s"
    and apart: "\<forall>c \<in> set (auto_embedding_columns s). apart (sv_lance E) (store_uri E st table) (store_uri E st (vector_table table c))"
    and run: "append_batch E st table b w = (Inr (), w')"
  shows "table_holds (sv_lance E) (store_uri E st table) (st_session st) (w_disk w') s (rows @ batch_rows b)"
proof -
  let ?made = "l_write (sv_lance E) (b_schema b) [b] (store_uri E st table) Append (st_session st)"
  obtain w1 w2 where w1: "on_disk ''append to the table'' table ?made w = (Inr (), w1)"
    and rec: "record_op E st (''insert into '' @ tick @ table @ tick) [] (count_u64 (b_rows b)) w1 = (Inr (), w2)"
    and rest: "reconcile_all E st table w2 = (Inr (), w')"
    using run by (auto simp: append_batch_def act_bind_Inr act_pure_iff)
  have "?made (w_disk w) = (Inr (), w_disk w1)" using w1 by (auto simp: on_disk_def split: prod.splits)
  then have "table_holds (sv_lance E) (store_uri E st table) (st_session st) (w_disk w1) s (rows @ batch_rows b)"
    using fmt before batch unfolding format_keeps_rows_def by metis
  moreover have "w_disk w2 = w_disk w1" using keepsD [OF keeps_record(1), of E st _ _ _ w1] rec by (metis snd_conv)
  ultimately have now: "table_holds (sv_lance E) (store_uri E st table) (st_session st) (w_disk w2) s (rows @ batch_rows b)" by simp
  then have "reconcile_all E st table w2 = act_each (reconcile E st table) (auto_embedding_columns s) w2"
    by (auto simp: reconcile_all_def embedding_columns_def table_holds_def act_simps reading_defs)
  moreover have "spares (sv_lance E) (store_uri E st table) (act_each (reconcile E st table) (auto_embedding_columns s))"
    using apart by (intro spares_each spares_reconcile) blast
  ultimately have "reads_alike (sv_lance E) (store_uri E st table) (w_disk w2) (w_disk w')"
    using rest unfolding spares_def by (metis snd_conv)
  with now show ?thesis by (rule holds_alike)
qed

lemma appends_hold:
  assumes fmt: "format_keeps_rows (sv_lance E)"
    and apart: "\<forall>c \<in> set (auto_embedding_columns s). apart (sv_lance E) (store_uri E st table) (store_uri E st (vector_table table c))"
    and "table_holds (sv_lance E) (store_uri E st table) (st_session st) (w_disk w) s rows"
    and "\<forall>b \<in> set new. typed_batch b \<and> same_shape (b_schema b) s"
    and "act_each (append_batch E st table) new w = (Inr (), w')"
  shows "table_holds (sv_lance E) (store_uri E st table) (st_session st) (w_disk w') s (rows @ concat (map batch_rows new))"
  using assms(3-5)
proof (induction new arbitrary: rows w)
  case (Cons b new)
  from Cons.prems(3) obtain w1 where first: "append_batch E st table b w = (Inr (), w1)"
    and rest: "act_each (append_batch E st table) new w1 = (Inr (), w')"
    by (auto simp: act_bind_Inr)
  have "typed_batch b" "same_shape (b_schema b) s" using Cons.prems(2) by simp_all
  from Cons.IH [OF append_holds [OF fmt Cons.prems(1) this apart first] _ rest] Cons.prems(2) show ?case by simp
qed (simp add: act_pure_iff)

text \<open>
  What a scan gets of a table that holds certain rows, by any handle on the directory that may read it: these
  rows, in well-typed batches under the schema without the settings it is stored with.
\<close>

definition scans_rows ::
  "('w, 'ds, 'sc, 'ub, 't) services \<Rightarrow> store \<Rightarrow> string \<Rightarrow> 'w world \<Rightarrow> data_type schema \<Rightarrow> cell list list \<Rightarrow> bool" where
  "scans_rows E st table w s rows \<longleftrightarrow>
     (\<exists>batches. scan E st table w = (Inr batches, w) \<and> (\<forall>b \<in> set batches. b_schema b = s \<and> typed_batch b) \<and>
        concat (map batch_rows batches) = rows)"

lemma applied_shape: "same_shape (applied_to c s) s"
  by (cases c) (simp_all add: same_shape_def applied_to_def o_def)

lemma scan_holds:
  assumes holds: "table_holds (sv_lance E) (store_uri E st table) (st_session st) (w_disk w) (applied_to c s) rows"
    and keys: "\<forall>f \<in> set (s_fields s). f_metadata f COMPRESSION_KEY = None \<and> f_metadata f LEVEL_KEY = None"
    and arrow: "rebuilds_batches (sv_lance E)"
    and reader: "st_root st' = st_root st" "st_session st' = st_session st" "require_scope E st' Read table = Inr ()" "st_audit st' = None"
  shows "scans_rows E st' table w s rows"
proof -
  have "store_uri E st' table = store_uri E st table" by (simp add: store_uri_def dataset_path_def reader)
  with holds obtain dataset batches where load: "l_load (sv_lance E) (store_uri E st' table) (st_session st') (w_disk w) = Inr dataset"
    "l_start (sv_lance E) (l_scan (sv_lance E) dataset) (w_disk w) = Inr ()"
    "l_read (sv_lance E) (l_scan (sv_lance E) dataset) (w_disk w) = Inr batches"
    and batches: "\<forall>b \<in> set batches. b_schema b = applied_to c s \<and> typed_batch b" and rows: "concat (map batch_rows batches) = rows"
    by (auto simp: table_holds_def reader)
  let ?bare = "\<lambda>b. b\<lparr>b_schema := s\<rparr>"
  have "or_backend ''read the table'' table (l_batch (sv_lance E) (stripped_from (b_schema b)) (b_columns b)) = Inr (?bare b)"
    if "b \<in> set batches" for b
    using batches that arrow applied_shape [of c s] compression_is_invisible [OF keys, of c] by (simp add: rebuilds_batches_def)
  then have "rmap (\<lambda>b. or_backend ''read the table'' table (l_batch (sv_lance E) (stripped_from (b_schema b)) (b_columns b))) batches
      = Inr (map ?bare batches)" by (rule rmap_map)
  then have "scan E st' table w = (Inr (map ?bare batches), w)"
    using load by (simp add: scan_def act_simps reading_defs reader record_op_def)
  moreover have "\<forall>b \<in> set (map ?bare batches). b_schema b = s \<and> typed_batch b"
    using batches applied_shape [of c s] by (auto intro: typed_restamped)
  moreover have "concat (map batch_rows (map ?bare batches)) = rows" using rows by (simp add: o_def)
  ultimately show ?thesis unfolding scans_rows_def by blast
qed


text \<open>
  The format of \<open>Demo_Store\<close> with a scan read under the table's schema, as the format's own scans are,
  and a table without settings of its own.
\<close>

definition demo_typed :: "(demo_disk, demo_dataset, demo_scan, demo_dataset) lance" where
  "demo_typed = demo_lance\<lparr>l_scan := (\<lambda>(_, s, bs). (map (\<lambda>b. b\<lparr>b_schema := s\<rparr>) bs, False, None))\<rparr>"

definition demo_typed_services :: "(demo_disk, demo_dataset, demo_scan, demo_dataset, u64 list) services" where
  "demo_typed_services = demo_services\<lparr>sv_lance := demo_typed\<rparr>"

definition demo_definition :: "data_type table_definition" where
  "demo_definition = \<lparr>td_schema = demo_notes, td_compression = Zstd 3\<rparr>"

lemma demo_typed_simps [simp]:
  "l_load demo_typed = demo_load" "l_schema demo_typed (u, s, bs) = s" "l_start demo_typed sc d = Inr ()"
  "l_scan demo_typed (u, s, bs) = (map (\<lambda>b. b\<lparr>b_schema := s\<rparr>) bs, False, None)"
  "l_read demo_typed (bs, r, ns) d = Inr (demo_read 0 r ns bs)" "l_write demo_typed = demo_write"
  "l_batch demo_typed s columns = Inr \<lparr>b_schema = s, b_columns = columns, b_rows = (case columns of [] \<Rightarrow> 0 | c # _ \<Rightarrow> column_length c)\<rparr>"
  "sv_lance demo_typed_services = demo_typed"
  by (simp_all add: demo_typed_def demo_typed_services_def demo_lance_def)

lemma demo_read_plain [simp]: "demo_read n False None bs = bs"
  by (induction bs arbitrary: n) (simp_all add: demo_batch_def)

lemma demo_holds: "table_holds demo_typed uri session d s rows \<longleftrightarrow>
    demo_reach uri session \<and>
    (\<exists>bs. d uri = Some (s, bs) \<and> (\<forall>b \<in> set bs. typed_batch (b\<lparr>b_schema := s\<rparr>)) \<and> concat (map batch_rows bs) = rows)"
  by (auto simp: table_holds_def demo_load_def o_def split: option.split if_splits)

lemma demo_keeps_rows: "format_keeps_rows demo_typed"
  by (auto simp: format_keeps_rows_def demo_holds demo_write_def typed_restamped split: if_splits option.splits)

lemma demo_rebuilds: "rebuilds_batches demo_typed"
  by (auto simp: rebuilds_batches_def typed_batch_def list_all2_Cons2 split: list.split)

text \<open>Creating and appending in the demonstration format, without automatic columns.\<close>

definition demo_address :: "string \<Rightarrow> string" where
  "demo_address table = ''/db/'' @ table @ ''.lance''"

definition demo_handle :: "nat \<Rightarrow> store" where
  "demo_handle h = (store_new ''/db'')\<lparr>st_write_lock := Some \<lparr>wl_handle = h\<rparr>\<rparr>"

lemma demo_handle_simps [simp]:
  "st_root (demo_handle h) = ''/db''" "st_write_lock (demo_handle h) = Some \<lparr>wl_handle = h\<rparr>" "st_session (demo_handle h) = None"
  "st_embedder (demo_handle h) = None" "st_audit (demo_handle h) = None" "st_gate (demo_handle h) = None"
  by (simp_all add: demo_handle_def store_new_def)

lemma demo_uri [simp]: "\<not> is_absolute table \<Longrightarrow> table \<noteq> [] \<Longrightarrow> store_uri E (demo_handle h) table = demo_address table"
  "\<not> is_absolute table \<Longrightarrow> table \<noteq> [] \<Longrightarrow> store_uri E (store_new ''/db'') table = demo_address table"
  by (cases table; auto simp: store_uri_def dataset_path_def path_join_def is_absolute_def demo_address_def store_new_def)+

lemma demo_free [simp]:
  "require_scope E (demo_handle h) scope table = Inr ()" "require_write_role (demo_handle h) op table = Inr ()"
  "record_op E (demo_handle h) q p n w = (Inr (), w)"
  by (simp_all add: require_scope_def require_write_role_def record_op_def)

lemma demo_on_disk:
  "on_disk op table f (demo_world d) = (or_backend op table (fst (f d)), demo_world (snd (f d)))"
  by (simp add: on_disk_def demo_world_def split: prod.split)

lemma demo_reach_address [simp]: "demo_reach (demo_address table) session"
  by (simp add: demo_reach_def demo_address_def)

lemma demo_create:
  assumes "\<not> is_absolute table" and "table \<noteq> []" and "d (demo_address table) = None"
  shows "create_table demo_typed_services (demo_handle h) table def (demo_world d)
    = (Inr (), demo_world (d(demo_address table \<mapsto> (applied_to (td_compression def) (td_schema def), []))))"
  using assms by (simp add: create_table_def act_simps demo_on_disk demo_write_def)

lemma demo_append:
  assumes "\<not> is_absolute table" and "table \<noteq> []" and "d (demo_address table) = Some (s, bs)" and "auto_embedding_columns s = []"
  shows "append_batch demo_typed_services (demo_handle h) table b (demo_world d)
    = (Inr (), demo_world (d(demo_address table \<mapsto> (s, bs @ [b]))))"
proof -
  have "reconcile_all demo_typed_services (demo_handle h) table (demo_world d') = (Inr (), demo_world d')"
    if "d' (demo_address table) = Some (s, bs')" for d' bs'
    using assms that by (simp add: reconcile_all_def embedding_columns_def act_simps reading_defs demo_load_def)
  then show ?thesis using assms by (simp add: append_batch_def act_simps demo_on_disk demo_write_def)
qed


end
