(* ===== verification/Store_Refinement.thy ===== *)
theory Store_Refinement
  imports Store_Roundtrip
begin

text \<open>
  The table store against its abstract specification: a map from table names to a schema and batches, and what
  each command does to it. Every command does exactly that or nothing, to the table it names and to no other;
  only a drop whose removal of the directory fails may leave something in between.
\<close>

section \<open>The specification\<close>

type_synonym contents = "data_type schema \<times> batch list"
type_synonym tables = "string \<rightharpoonup> contents"

text \<open>
  What deleting and updating do to the contents of a table is the query engine's: two functions of the
  predicate, the assignments and the contents.
\<close>

record row_changes =
  rc_delete :: "string \<Rightarrow> contents \<Rightarrow> contents"
  rc_update :: "string \<Rightarrow> assignment list \<Rightarrow> contents \<Rightarrow> contents"

fun effect :: "row_changes \<Rightarrow> command \<Rightarrow> tables \<Rightarrow> tables" where
  "effect C (CreateTable t def) T = T(t \<mapsto> (applied_to (td_compression def) (td_schema def), []))"
| "effect C (AppendBatch t b) T = T(t := map_option (\<lambda>(s, bs). (s, bs @ [b])) (T t))"
| "effect C (UpdateRows t p as) T = T(t := map_option (rc_update C (predicate_str p) as) (T t))"
| "effect C (DeleteRows t p) T = T(t := map_option (rc_delete C (predicate_str p)) (T t))"
| "effect C (DropTable t) T = T(t := None)"
| "effect C _ T = T"

text \<open>What must have been the case when a command succeeds.\<close>

fun accepted :: "command \<Rightarrow> tables \<Rightarrow> bool" where
  "accepted (CreateTable t _) T \<longleftrightarrow> T t = None"
| "accepted (AppendBatch t _) T \<longleftrightarrow> T t \<noteq> None"
| "accepted (UpdateRows t _ _) T \<longleftrightarrow> T t \<noteq> None"
| "accepted (DeleteRows t _) T \<longleftrightarrow> T t \<noteq> None"
| "accepted _ T \<longleftrightarrow> True"

section \<open>What is relied on of the format\<close>

text \<open>
  A name without a separator names a table of its own. A write, a delete and an update are commits of the
  format: they either fail and leave the tables as they are, or do what they are called for to the one
  table; creating refuses a table that is there, every other change one that is not; an index is not part
  of the contents. Removing a directory is no commit: when it fails, part of the table may be gone.
\<close>

definition plain_name :: "string \<Rightarrow> bool" where
  "plain_name t \<longleftrightarrow> CHR ''/'' \<notin> set t \<and> t \<noteq> []"

text \<open>A step of the format: what it leaves when it reports an error, and when it does not.\<close>

definition moves :: "('w \<Rightarrow> tables) \<Rightarrow> 'w \<Rightarrow> (string + 'a) \<times> 'w \<Rightarrow> tables \<Rightarrow> bool" where
  "moves tables d rd T \<longleftrightarrow> tables (snd rd) = (case fst rd of Inl _ \<Rightarrow> tables d | Inr _ \<Rightarrow> T)"

definition loads_tables :: 
  "('w, 'ds, 'sc, 'ub, 't) services \<Rightarrow> store \<Rightarrow> ('w \<Rightarrow> tables) \<Rightarrow> row_changes \<Rightarrow> bool" where
  "loads_tables E st tables C \<longleftrightarrow>
     (\<forall>t d ds. plain_name t \<longrightarrow> l_load (sv_lance E) (store_uri E st t) (st_session st) d = Inr ds \<longrightarrow>
        (\<exists>bs. tables d t = Some (l_schema (sv_lance E) ds, bs)))"

definition writes_tables :: 
  "('w, 'ds, 'sc, 'ub, 't) services \<Rightarrow> store \<Rightarrow> ('w \<Rightarrow> tables) \<Rightarrow> row_changes \<Rightarrow> bool" where
  "writes_tables E st tables C \<longleftrightarrow>
     (\<forall>t d s bs. plain_name t \<longrightarrow>
        (let rd = l_write (sv_lance E) s bs (store_uri E st t) Create (st_session st) d in
         moves tables d rd ((tables d)(t \<mapsto> (s, bs))) \<and> (fst rd = Inr () \<longrightarrow> tables d t = None))) \<and>
     (\<forall>t d s b. plain_name t \<longrightarrow>
        (let rd = l_write (sv_lance E) s [b] (store_uri E st t) Append (st_session st) d in
         moves tables d rd ((tables d)(t := map_option (\<lambda>(s0, bs). (s0, bs @ [b])) (tables d t))) \<and>
         (fst rd = Inr () \<longrightarrow> tables d t \<noteq> None)))"

definition changes_rows :: 
  "('w, 'ds, 'sc, 'ub, 't) services \<Rightarrow> store \<Rightarrow> ('w \<Rightarrow> tables) \<Rightarrow> row_changes \<Rightarrow> bool" where
  "changes_rows E st tables C \<longleftrightarrow>
     (\<forall>t d ds p. plain_name t \<longrightarrow> l_load (sv_lance E) (store_uri E st t) (st_session st) d = Inr ds \<longrightarrow>
        moves tables d (l_delete (sv_lance E) ds p d) ((tables d)(t := map_option (rc_delete C p) (tables d t)))) \<and>
     (\<forall>t d ds p as ub ub' job. plain_name t \<longrightarrow> l_load (sv_lance E) (store_uri E st t) (st_session st) d = Inr ds \<longrightarrow>
        l_update_where (sv_lance E) ds p = Inr ub \<longrightarrow> set_all E t as ub = Inr ub' \<longrightarrow> l_build (sv_lance E) ub' = Inr job \<longrightarrow>
        moves tables d (l_execute (sv_lance E) job d) ((tables d)(t := map_option (rc_update C p as) (tables d t)))) \<and>
     (\<forall>p as c. fst (rc_delete C p c) = fst c \<and> fst (rc_update C p as c) = fst c)"

text \<open>
  What a removal that failed leaves: the other tables as they were, and of the table itself nothing that can
  be loaded, or a version of it, whole or not, under the schema it has.
\<close>

definition partly_removed :: "string \<Rightarrow> tables \<Rightarrow> tables \<Rightarrow> bool" where
  "partly_removed t T T' \<longleftrightarrow>
     (\<forall>u. u \<noteq> t \<longrightarrow> T' u = T u) \<and> (\<forall>c'. T' t = Some c' \<longrightarrow> (\<exists>c. T t = Some c \<and> fst c' = fst c))"

definition removes_tables :: 
  "('w, 'ds, 'sc, 'ub, 't) services \<Rightarrow> store \<Rightarrow> ('w \<Rightarrow> tables) \<Rightarrow> row_changes \<Rightarrow> bool" where
  "removes_tables E st tables C \<longleftrightarrow>
     (\<forall>t d. plain_name t \<longrightarrow>
        (let rd = l_remove_dir (sv_lance E) (dataset_path st t) d in
         case fst rd of
           Inl _ \<Rightarrow> partly_removed t (tables d) (tables (snd rd))
         | Inr _ \<Rightarrow> tables (snd rd) = (tables d)(t := None))) \<and>
     (\<forall>ds c i d. tables (snd (l_create_index (sv_lance E) ds c i d)) = tables d)"

definition format_tables :: 
  "('w, 'ds, 'sc, 'ub, 't) services \<Rightarrow> store \<Rightarrow> ('w \<Rightarrow> tables) \<Rightarrow> row_changes \<Rightarrow> bool" where
  "format_tables E st tables C \<longleftrightarrow>
     loads_tables E st tables C \<and> writes_tables E st tables C \<and> changes_rows E st tables C \<and> removes_tables E st tables C"

text \<open>The tables the specification speaks about have no auto-embedding column, now or by a later command.\<close>

definition no_columns :: "tables \<Rightarrow> bool" where
  "no_columns T \<longleftrightarrow> (\<forall>t s bs. T t = Some (s, bs) \<longrightarrow> auto_embedding_columns s = [])"

fun plain_command :: "command \<Rightarrow> bool" where
  "plain_command (CreateTable t def) \<longleftrightarrow> plain_name t \<and> auto_embedding_columns (applied_to (td_compression def) (td_schema def)) = []"
| "plain_command cmd \<longleftrightarrow> plain_name (command_table cmd)"

lemma effect_no_columns:
  assumes "no_columns T" and "plain_command cmd" and "\<And>p as c. fst (rc_delete C p c) = fst c \<and> fst (rc_update C p as c) = fst c"
  shows "no_columns (effect C cmd T)"
proof -
  have kept: "auto_embedding_columns (fst (f c)) = []" if "T t = Some c" "\<And>c. fst (f c) = fst c" for t c and f :: "contents \<Rightarrow> contents"
    using assms(1) that unfolding no_columns_def by (metis prod.collapse)
  show ?thesis
  proof (cases cmd)
    case (UpdateRows t p as)
    then show ?thesis using assms kept [of t _ "rc_update C (predicate_str p) as"] by (auto simp: no_columns_def) (metis fst_conv)
  next
    case (DeleteRows t p)
    then show ?thesis using assms kept [of t _ "rc_delete C (predicate_str p)"] by (auto simp: no_columns_def) (metis fst_conv)
  qed (use assms in \<open>auto simp: no_columns_def split: if_splits\<close>)
qed

section \<open>One command\<close>

text \<open>
  A step that did what it is for, or nothing; and if it reports success, it did. Only a drop that reports an
  error may have removed part of its table.
\<close>

definition all_or_nothing :: "row_changes \<Rightarrow> command \<Rightarrow> db_error + unit \<Rightarrow> tables \<Rightarrow> tables \<Rightarrow> bool" where
  "all_or_nothing C cmd r T T' \<longleftrightarrow>
     (\<exists>took_effect. (r = Inr () \<longrightarrow> took_effect) \<and> (if took_effect then accepted cmd T \<and> T' = effect C cmd T else T' = T)) \<or>
     (\<exists>t e. cmd = DropTable t \<and> r = Inl e \<and> partly_removed t T T')"

lemma nothing_changed: "all_or_nothing C cmd (Inl e) T T"
  by (auto simp: all_or_nothing_def)

lemma everything: "accepted cmd T \<Longrightarrow> all_or_nothing C cmd r T (effect C cmd T)"
  by (auto simp: all_or_nothing_def)

lemma loaded:
  assumes "format_tables E st tables C" and "plain_name t" and "l_load (sv_lance E) (store_uri E st t) (st_session st) d = Inr ds"
  shows "\<exists>bs. tables d t = Some (l_schema (sv_lance E) ds, bs)"
  using assms unfolding format_tables_def loads_tables_def by blast

lemma format_changes: "format_tables E st tables C \<Longrightarrow> fst (rc_delete C p c) = fst c \<and> fst (rc_update C p as c) = fst c"
  unfolding format_tables_def changes_rows_def by blast

lemma reconciles_nothing:
  assumes "format_tables E st tables C" and "plain_name t" and "no_columns (tables (w_disk w))" and "reconcile_all E st t w = (r, w')"
  shows "w' = w"
proof (cases "l_load (sv_lance E) (store_uri E st t) (st_session st) (w_disk w)")
  case (Inr ds)
  then have "auto_embedding_columns (l_schema (sv_lance E) ds) = []"
    using loaded [OF assms(1,2) Inr] assms(3) unfolding no_columns_def by blast
  then show ?thesis using assms(4) Inr by (simp add: reconcile_all_def embedding_columns_def act_simps reading_defs)
qed (use assms(4) in \<open>simp add: reconcile_all_def embedding_columns_def act_simps reading_defs\<close>)

text \<open>
  An operation as a chain of steps: the checks and readings before the changing step leave the disk alone,
  and so does everything after it.
\<close>

definition outcome_ok ::
  "('w \<Rightarrow> tables) \<Rightarrow> row_changes \<Rightarrow> command \<Rightarrow> 'w \<Rightarrow> (db_error + unit) \<times> 'w world \<Rightarrow> bool" where
  "outcome_ok tables C cmd d rw \<longleftrightarrow> all_or_nothing C cmd (fst rw) (tables d) (tables (w_disk (snd rw)))"

lemma outcome_error: "w_disk w = d \<Longrightarrow> outcome_ok tables C cmd d (Inl e, w)"
  using nothing_changed [of C cmd e "tables d"] by (simp add: outcome_ok_def)

lemma outcome_if:
  "(b \<Longrightarrow> outcome_ok tables C cmd d (m w)) \<Longrightarrow> (\<not> b \<Longrightarrow> outcome_ok tables C cmd d (n w)) \<Longrightarrow>
     outcome_ok tables C cmd d ((if b then m else n) w)"
  by simp

lemma outcome_refused: "w_disk w = d \<Longrightarrow> outcome_ok tables C cmd d (act_of (Inl e) w)"
  by (simp add: act_run outcome_error)

lemma act_bind_if: "act_bind (if b then m else n) k = (if b then act_bind m k else act_bind n k)"
  by simp

lemma keeps_then:
  assumes "keeps w_disk m" and "w_disk w = d"
    and "\<And>x w1. m w = (Inr x, w1) \<Longrightarrow> w_disk w1 = d \<Longrightarrow> outcome_ok tables C cmd d (k x w1)"
  shows "outcome_ok tables C cmd d (act_bind m k w)"
proof -
  obtain r w1 where m: "m w = (r, w1)" by fastforce
  then have "w_disk w1 = d" using keepsD [OF assms(1), of w] assms(2) by simp
  then show ?thesis using m assms(3) by (cases r) (simp_all add: act_bind_def outcome_error)
qed

lemma change_then:
  assumes "w_disk w = d" and "moves tables d (call d) (effect C cmd (tables d))"
    and "\<And>x. fst (call d) = Inr x \<Longrightarrow> accepted cmd (tables d)"
    and "\<And>x w1. tables (w_disk w1) = effect C cmd (tables d) \<Longrightarrow> w_disk (snd (k x w1)) = w_disk w1"
  shows "outcome_ok tables C cmd d (act_bind (on_disk op t call) k w)"
proof -
  obtain r d' where call: "call d = (r, d')" by fastforce
  show ?thesis
  proof (cases r)
    case (Inl e)
    then have "tables d' = tables d" using assms(2) call by (simp add: moves_def)
    then show ?thesis using assms(1) call Inl nothing_changed [of C cmd "backend op t e" "tables d"]
      by (simp add: act_bind_def on_disk_def outcome_ok_def)
  next
    case (Inr x)
    then have moved: "tables d' = effect C cmd (tables d)" using assms(2) call by (simp add: moves_def)
    then have "w_disk (snd (k x (w\<lparr>w_disk := d'\<rparr>))) = d'" using assms(4) [of "w\<lparr>w_disk := d'\<rparr>" x] by simp
    then show ?thesis
      using moved assms(1) assms(3) [of x] call Inr everything [of cmd "tables d" C]
      by (simp add: act_bind_def on_disk_def outcome_ok_def)
  qed
qed

lemma change_last:
  assumes "w_disk w = d" and "moves tables d (call d) (effect C cmd (tables d))"
    and "\<And>x. fst (call d) = Inr x \<Longrightarrow> accepted cmd (tables d)"
  shows "outcome_ok tables C cmd d (on_disk op t call w)"
proof -
  have "act_bind (on_disk op t call) act_ok w = on_disk op t call w"
    by (simp add: act_bind_def act_run split: prod.split sum.split)
  moreover have "outcome_ok tables C cmd d (act_bind (on_disk op t call) act_ok w)"
    using assms by (intro change_then) (simp_all add: act_run)
  ultimately show ?thesis by simp
qed

lemma reading_command:
  assumes "writing_name cmd = None"
  shows "outcome_ok tables C cmd (w_disk w) (run_command E st cmd w)"
proof -
  have "w_disk (snd (run_command E st cmd w)) = w_disk w" using reading_keeps_disk [OF assms(1), of E st] by (simp add: keepsD)
  moreover have "accepted cmd (tables (w_disk w))" and "effect C cmd (tables (w_disk w)) = tables (w_disk w)"
    using assms(1) by (cases cmd; simp)+
  ultimately show ?thesis using everything [of cmd "tables (w_disk w)" C "fst (run_command E st cmd w)"] by (simp add: outcome_ok_def)
qed

lemma removed_table:
  assumes "format_tables E st tables C" and "plain_name t" and "w_disk w = d"
  shows "outcome_ok tables C (DropTable t) d (on_disk op t (l_remove_dir (sv_lance E) (dataset_path st t)) w)"
proof -
  obtain r d' where call: "l_remove_dir (sv_lance E) (dataset_path st t) d = (r, d')" by fastforce
  have "case r of Inl _ \<Rightarrow> partly_removed t (tables d) (tables d') | Inr _ \<Rightarrow> tables d' = (tables d)(t := None)"
    using assms(1,2) call unfolding format_tables_def removes_tables_def Let_def by (metis fst_conv snd_conv)
  then show ?thesis
    using call assms(3) everything [of "DropTable t" "tables d" C "Inr ()"]
    by (cases r) (simp_all add: outcome_ok_def on_disk_def all_or_nothing_def)
qed

lemma table_commands:
  assumes format: "format_tables E st tables C" and name: "plain_name t"
  shows "outcome_ok tables C (CreateTable t def) (w_disk w) (create_table E st t def w)"
    and "outcome_ok tables C (DropTable t) (w_disk w) (drop_table E st t w)"
proof -
  show "outcome_ok tables C (CreateTable t def) (w_disk w) (create_table E st t def w)"
    unfolding create_table_def using format name
    by (intro keeps_then change_then keeps_pure refl keepsD [OF keeps_record(1)])
      (simp_all add: format_tables_def writes_tables_def Let_def)
  show "outcome_ok tables C (DropTable t) (w_disk w) (drop_table E st t w)"
    unfolding drop_table_def using removed_table [OF format name]
    by (intro keeps_then keeps_pure keeps_record refl) simp_all
qed

lemma after_rows:
  assumes "format_tables E st tables C" and "plain_name t" and "no_columns (tables (w_disk w))"
  shows "w_disk (snd (act_bind (record_op E st q p n) (\<lambda>_. reconcile_all E st t) w)) = w_disk w"
    and "w_disk (snd (act_bind (record_op E st q p n) (\<lambda>_. act_bind (reconcile_all E st t) (\<lambda>_. act_ok x)) w)) = w_disk w"
proof -
  have logged: "w_disk (snd (record_op E st q p n w)) = w_disk w" by (rule keepsD [OF keeps_record(1)])
  have same: "snd (reconcile_all E st t w1) = w1" if "w_disk w1 = w_disk w" for w1
    using reconciles_nothing [OF assms(1,2), of w1] assms(3) that by (metis prod.collapse)
  then have "w_disk (snd (reconcile_all E st t (snd (record_op E st q p n w)))) = w_disk w" using logged by simp
  then show "w_disk (snd (act_bind (record_op E st q p n) (\<lambda>_. reconcile_all E st t) w)) = w_disk w"
    and "w_disk (snd (act_bind (record_op E st q p n) (\<lambda>_. act_bind (reconcile_all E st t) (\<lambda>_. act_ok x)) w)) = w_disk w"
    using logged by (simp_all add: act_simps split: sum.split)
qed

lemma or_backend_Inr_iff: "or_backend op t m = Inr x \<longleftrightarrow> m = Inr x"
  by (cases m) simp_all

lemma change_rows:
  assumes "format_tables E st tables C" and "plain_name t" and "no_columns (effect C cmd (tables d))"
    and "w_disk w = d" and "moves tables d (call d) (effect C cmd (tables d))" and "\<And>x. fst (call d) = Inr x \<Longrightarrow> accepted cmd (tables d)"
  shows "outcome_ok tables C cmd d (act_bind (on_disk op t call) (\<lambda>x. act_bind (record_op E st q p (n x)) (\<lambda>_. reconcile_all E st t)) w)"
    and "outcome_ok tables C cmd d (act_bind (on_disk op t call) (\<lambda>x. act_bind (record_op E st q p (n x))
      (\<lambda>_. act_bind (reconcile_all E st t) (\<lambda>_. act_ok ()))) w)"
  by (rule change_then [where call = call, OF assms(4,5)], erule assms(6), rule after_rows [OF assms(1,2)], simp only: assms(3))+

lemma row_commands:
  assumes format: "format_tables E st tables C" and name: "plain_name t" and plain: "no_columns (tables (w_disk w))"
  shows "outcome_ok tables C (AppendBatch t b) (w_disk w) (append_batch E st t b w)"
    and "outcome_ok tables C (DeleteRows t p) (w_disk w) (discard (delete_rows E st t p) w)"
    and "outcome_ok tables C (UpdateRows t p as) (w_disk w) (discard (update_rows E st t p as) w)"
proof -
  note change = format_changes [OF format]
  have still: "no_columns (effect C cmd (tables (w_disk w)))" if "plain_command cmd" for cmd
    using effect_no_columns [OF plain that] change by blast
  have writes: "writes_tables E st tables C" and rows: "changes_rows E st tables C" using format by (simp_all add: format_tables_def)
  have opened: "l_load (sv_lance E) (store_uri E st t) (st_session st) d = Inr ds" and present: "tables d t \<noteq> None"
    if "store_open E st t w1 = (Inr ds, w2)" "w_disk w2 = d" for w1 w2 d ds
  proof -
    show load: "l_load (sv_lance E) (store_uri E st t) (st_session st) d = Inr ds"
      using that by (auto simp: reading_defs act_simps elim!: or_backend.elims)
    show "tables d t \<noteq> None" using loaded [OF format name load] by blast
  qed
  show "outcome_ok tables C (AppendBatch t b) (w_disk w) (append_batch E st t b w)"
    unfolding append_batch_def using writes name still [of "AppendBatch t b"]
    by (intro change_rows(1) [OF format name] keeps_then keeps_pure refl) (simp_all add: writes_tables_def Let_def)
  show "outcome_ok tables C (DeleteRows t p) (w_disk w) (discard (delete_rows E st t p) w)"
    unfolding delete_rows_def discard_def act_bind_assoc act_bind_of using rows name still [of "DeleteRows t p"]
    by (intro change_rows(2) [OF format name] keeps_then keeps_pure keeps_reading keeps_warn refl)
      (auto simp: changes_rows_def dest: opened present)
  show "outcome_ok tables C (UpdateRows t p as) (w_disk w) (discard (update_rows E st t p as) w)"
    unfolding update_rows_def discard_def act_bind_assoc act_bind_of
      act_bind_if
    using rows name still [of "UpdateRows t p as"]
    by (intro change_rows(2) [OF format name] outcome_if outcome_refused keeps_then keeps_pure keeps_reading refl)
      (auto simp: changes_rows_def act_run or_backend_Inr_iff dest: opened present)
qed

lemma index_refines:
  assumes "format_tables E st tables C" and "\<And>T. effect C cmd T = T" and "\<And>T. accepted cmd T" and at: "w_disk w = d"
  shows "outcome_ok tables C cmd d (act_bind (on_disk op t (l_create_index (sv_lance E) ds c i)) (\<lambda>_. record_op E st q p n) w)"
    and "outcome_ok tables C cmd d (on_disk op t (l_create_index (sv_lance E) ds c i) w)"
proof -
  have index: "moves tables d (l_create_index (sv_lance E) ds c i d) (effect C cmd (tables d))"
    using assms by (simp add: moves_def format_tables_def removes_tables_def split: sum.split)
  show "outcome_ok tables C cmd d (act_bind (on_disk op t (l_create_index (sv_lance E) ds c i)) (\<lambda>_. record_op E st q p n) w)"
    by (rule change_then [where call = "l_create_index (sv_lance E) ds c i", OF at index]) (rule assms(3) keepsD [OF keeps_record(1)])+
  show "outcome_ok tables C cmd d (on_disk op t (l_create_index (sv_lance E) ds c i) w)"
    by (rule change_last [where call = "l_create_index (sv_lance E) ds c i", OF at index]) (rule assms(3))
qed

lemma index_commands:
  assumes "format_tables E st tables C"
  shows "outcome_ok tables C (CreateIndex t c) (w_disk w) (create_index E st t c w)"
    and "outcome_ok tables C (CreateVectorIndex t c kind) (w_disk w) (create_vector_index E st t c kind w)"
    and "outcome_ok tables C (CreateTextIndex t c language) (w_disk w) (create_text_index E st t c language w)"
proof -
  note index = index_refines [OF assms]
  show "outcome_ok tables C (CreateIndex t c) (w_disk w) (create_index E st t c w)"
    unfolding create_index_def by (intro index keeps_then keeps_pure keeps_reading refl) simp_all
  show "outcome_ok tables C (CreateVectorIndex t c kind) (w_disk w) (create_vector_index E st t c kind w)"
    unfolding create_vector_index_def by (intro index keeps_then keeps_pure keeps_reading refl) simp_all
  show "outcome_ok tables C (CreateTextIndex t c language) (w_disk w) (create_text_index E st t c language w)"
    unfolding create_text_index_def
    by (cases "as_parts language") (simp, intro index keeps_then keeps_pure keeps_reading refl, simp_all)
qed

lemma command_refines:
  assumes "format_tables E st tables C" and "no_columns (tables (w_disk w))" and "plain_command cmd"
  shows "outcome_ok tables C cmd (w_disk w) (run_command E st cmd w)"
proof (cases "writing_name cmd")
  case (Some op)
  then show ?thesis
    using assms(3) table_commands [OF assms(1)] row_commands [OF assms(1) _ assms(2)] index_commands [OF assms(1)]
    by (cases cmd) simp_all
qed (rule reading_command)

section \<open>Any sequence of commands\<close>

fun run_commands ::
  "('w, 'ds, 'sc, 'ub, 't) services \<Rightarrow> store \<Rightarrow> command list \<Rightarrow> 'w world \<Rightarrow> (db_error + unit) list \<times> 'w world" where
  "run_commands E st [] w = ([], w)"
| "run_commands E st (cmd # cmds) w =
     (let (r, w1) = run_command E st cmd w; (rs, w2) = run_commands E st cmds w1 in (r # rs, w2))"

text \<open>A history: commands with what they reported, each with its effect or none.\<close>

fun history :: "row_changes \<Rightarrow> tables \<Rightarrow> (command \<times> (db_error + unit)) list \<Rightarrow> tables \<Rightarrow> bool" where
  "history C T [] T' \<longleftrightarrow> T' = T"
| "history C T ((cmd, r) # rest) T' \<longleftrightarrow> (\<exists>T1. all_or_nothing C cmd r T T1 \<and> history C T1 rest T')"

lemma partly_removed_plain:
  assumes "partly_removed t T T'" and "no_columns T"
  shows "no_columns T'"
  unfolding no_columns_def
proof (intro allI impI)
  fix u s bs assume u: "T' u = Some (s, bs)"
  then obtain c where "T u = Some c" "fst c = s"
    using assms(1) by (cases "u = t") (auto simp: partly_removed_def)
  then show "auto_embedding_columns s = []" using assms(2) unfolding no_columns_def by (metis prod.collapse)
qed

lemma all_or_nothing_plain:
  assumes "all_or_nothing C cmd r T T'" and "no_columns T" and "plain_command cmd"
    and "\<And>p as c. fst (rc_delete C p c) = fst c \<and> fst (rc_update C p as c) = fst c"
  shows "no_columns T'"
  using assms effect_no_columns [OF assms(2,3), of C] partly_removed_plain
  by (auto simp: all_or_nothing_def split: if_splits)


text \<open>The demonstration format: a table per address, every deletion of every row.\<close>

definition demo_changes :: row_changes where
  "demo_changes = \<lparr>rc_delete = (\<lambda>_ (s, _). (s, [])), rc_update = (\<lambda>_ _ c. c)\<rparr>"

definition demo_tables :: "demo_disk \<Rightarrow> tables" where
  "demo_tables d t = (if plain_name t then d (demo_address t) else None)"

lemma demo_address_inject [simp]: "demo_address t = demo_address u \<longleftrightarrow> t = u"
  by (simp add: demo_address_def)

lemma plain_relative [simp]: "plain_name t \<Longrightarrow> \<not> is_absolute t \<and> t \<noteq> []"
  by (cases t) (auto simp: plain_name_def is_absolute_def)

lemma demo_changing [simp]:
  "l_delete demo_typed (u, s, bs) p d = (Inr (word_of_nat (demo_row_count bs)), d(u \<mapsto> (s, [])))"
  "l_execute demo_typed (u, s, bs) d = (Inr (word_of_nat (demo_row_count bs)), d)"
  "l_update_where demo_typed ds p = Inr ds" "l_build demo_typed ds = Inr ds"
  "l_remove_dir demo_typed path d = (Inr (), d(path := None))" "l_create_index demo_typed ds column i d = (Inr (), d)"
  by (simp_all add: demo_typed_def demo_lance_def)

lemma demo_format: "format_tables demo_typed_services (demo_handle h) demo_tables demo_changes"
proof -
  have path: "dataset_path (demo_handle h) t = demo_address t" if "plain_name t" for t
    using that by (cases t) (auto simp: dataset_path_def path_join_def is_absolute_def demo_address_def plain_name_def)
  have "set_all demo_typed_services t as ub = Inr ub' \<Longrightarrow> ub' = ub" for t as ub ub'
    by (induction as arbitrary: ub) (simp_all add: demo_typed_def demo_typed_services_def demo_lance_def)
  then have "changes_rows demo_typed_services (demo_handle h) demo_tables demo_changes"
    by (auto simp: changes_rows_def moves_def demo_tables_def demo_changes_def demo_load_def fun_eq_iff split: option.splits)
  moreover have "writes_tables demo_typed_services (demo_handle h) demo_tables demo_changes"
    by (auto simp: writes_tables_def moves_def demo_tables_def demo_write_def Let_def fun_eq_iff split: option.splits)
  moreover have "loads_tables demo_typed_services (demo_handle h) demo_tables demo_changes"
    by (auto simp: loads_tables_def demo_tables_def demo_load_def split: option.splits)
  moreover have "removes_tables demo_typed_services (demo_handle h) demo_tables demo_changes"
    by (auto simp: removes_tables_def demo_tables_def path fun_eq_iff)
  ultimately show ?thesis by (simp add: format_tables_def)
qed


end
