(* ===== verification/Provider.thy ===== *)
theory Provider
  imports Store_Roundtrip Object_Claims
begin

text \<open>
  \<open>crypto/provider.rs\<close>: the provider that builds the encrypting store for the scheme \<open>euledb\<close>, the registry
  it is found in, and the way from the address of a table back to the path its objects are written
  under. URLs (crate \<open>url\<close>), the object paths of \<open>object_store\<close>, the registry and the format's own object store
  are parameters; \<open>provider_uri\<close> and \<open>SCHEME\<close> are in \<open>Lance_Store\<close>.
\<close>

section \<open>The encrypting store as a value\<close>

record ('s, 'u, 'x) encrypting_store =
  es_inner :: "('s, 'u, 'x) object_store"
  es_frame :: block_frame

definition encrypting_store_new :: "('s, 'u, 'x) object_store \<Rightarrow> block_frame \<Rightarrow> ('s, 'u, 'x) encrypting_store" where
  "encrypting_store_new inner frame = \<lparr>es_inner = inner, es_frame = frame\<rparr>"

section \<open>What is outside\<close>

text \<open>
  \<open>Url::parse\<close>, the text from the host on, the scheme, the path and the whole text of a URL,
  \<open>Url::to_file_path\<close>, and the two constructors of an object path.
\<close>

record 'url url_ops =
  url_parse :: "string \<Rightarrow> 'url option"
  url_scheme :: "'url \<Rightarrow> string"
  url_before_host :: "'url \<Rightarrow> string"
  url_path :: "'url \<Rightarrow> string"
  url_str :: "'url \<Rightarrow> string"
  url_to_file_path :: "'url \<Rightarrow> os_path option"
  path_from_absolute :: "os_path \<Rightarrow> path option"
  path_from_url_path :: "string \<Rightarrow> string + path"

text \<open>\<open>ObjectStoreRegistry::default\<close>, \<open>insert\<close>, and finding the provider of a scheme.\<close>

record ('r, 'p) registry_ops =
  rg_default :: 'r
  rg_insert :: "string \<Rightarrow> 'p \<Rightarrow> 'r \<Rightarrow> 'r"
  rg_find :: "'r \<Rightarrow> string \<Rightarrow> 'p option"

section \<open>The provider\<close>

definition IO_PARALLELISM :: nat where "IO_PARALLELISM = 8"

definition DOWNLOAD_RETRIES :: nat where "DOWNLOAD_RETRIES = 3"

record encrypting_provider =
  ep_frame :: block_frame

definition provider_new :: "block_frame \<Rightarrow> encrypting_provider" where
  "provider_new frame = \<lparr>ep_frame = frame\<rparr>"

definition registry_for :: "('r, encrypting_provider) registry_ops \<Rightarrow> block_frame \<Rightarrow> 'r" where
  "registry_for R frame = rg_insert R SCHEME (provider_new frame) (rg_default R)"

text \<open>What the format's object store is built from: the arguments of \<open>LanceObjectStore::new\<close>, in order.\<close>

record ('s, 'u, 'x, 'url) store_arguments =
  sa_store :: "('s, 'u, 'x) encrypting_store"
  sa_base :: 'url
  sa_block_size :: "nat option"
  sa_wrapper :: "unit option"
  sa_constant_size_parts :: bool
  sa_ordered_listing :: bool
  sa_parallelism :: nat
  sa_retries :: nat
  sa_options :: "(string \<rightharpoonup> string) option"

definition new_store ::
  "('s, 'u, 'x) object_store \<Rightarrow> (('s, 'u, 'x, 'url) store_arguments \<Rightarrow> 'ls) \<Rightarrow> encrypting_provider \<Rightarrow> 'url \<Rightarrow> nat option \<Rightarrow> 'ls" where
  "new_store local lance_new p base block_size =
     lance_new \<lparr>sa_store = encrypting_store_new local (ep_frame p), sa_base = base, sa_block_size = block_size,
       sa_wrapper = None, sa_constant_size_parts = False, sa_ordered_listing = False,
       sa_parallelism = IO_PARALLELISM, sa_retries = DOWNLOAD_RETRIES, sa_options = None\<rparr>"

definition extract_path :: "'url url_ops \<Rightarrow> 'url \<Rightarrow> string + path" where
  "extract_path U url =
     (case Option.bind (Option.bind (url_parse U (''file://'' @ url_before_host U url)) (url_to_file_path U)) (path_from_absolute U) of
        Some object_path \<Rightarrow> Inr object_path
      | None \<Rightarrow>
          (case path_from_url_path U (url_path U url) of
             Inr path \<Rightarrow> Inr path
           | Inl err \<Rightarrow> Inl (''not a usable path in '' @ [CHR 0x27] @ url_str U url @ [CHR 0x27] @ '': '' @ err)))"

section \<open>From a table to its objects\<close>

text \<open>
  The documented behaviour relied on. A normalised absolute path survives being written as a URL: as a file URL
  it reads back as itself, and under another scheme the text from the host on is kept. Normalised is a path
  that starts with a separator and has neither empty components, from doubled or trailing separators,
  nor the components of a dot or two. A registry finds what was inserted and keeps the rest.
\<close>

definition normal_path :: "os_path \<Rightarrow> bool" where
  "normal_path p \<longleftrightarrow>
     (case split_on (CHR ''/'') p of
        [] # c # cs \<Rightarrow> list_all (\<lambda>component. component \<notin> {[], ''.'', ''..''}) (c # cs)
      | _ \<Rightarrow> False)"

definition url_laws :: "'url url_ops \<Rightarrow> (os_path \<Rightarrow> string option) \<Rightarrow> bool" where
  "url_laws U file_url \<longleftrightarrow>
     (\<forall>p rest. normal_path p \<longrightarrow> file_url p = Some rest \<longrightarrow>
        (\<exists>f. url_parse U (''file://'' @ rest) = Some f \<and> url_to_file_path U f = Some p) \<and>
        (\<exists>u. url_parse U (SCHEME @ ''://'' @ rest) = Some u \<and> url_scheme U u = SCHEME \<and> url_before_host U u = rest))"

definition registry_laws :: "('r, 'p) registry_ops \<Rightarrow> bool" where
  "registry_laws R \<longleftrightarrow>
     (\<forall>r scheme p. rg_find R (rg_insert R scheme p r) scheme = Some p) \<and>
     (\<forall>r scheme p other. other \<noteq> scheme \<longrightarrow> rg_find R (rg_insert R scheme p r) other = rg_find R r other)"

lemma extract_file_route:
  assumes "url_parse U (''file://'' @ url_before_host U url) = Some f" and "url_to_file_path U f = Some p"
    and "path_from_absolute U p = Some object_path"
  shows "extract_path U url = Inr object_path"
  using assms by (simp add: extract_path_def)

text \<open>C16: an encrypted table is found where its address says, through its own cipher. The address of a table
  of an encrypted handle has a scheme for which the registry of the handle's frame finds the provider with
  this frame; its path is the object path of the table's absolute path, which is normalised; the provider builds an encrypting
  store with exactly that frame and no wrapper on top; the
  providers of all other schemes are those of the default registry.\<close>

theorem address_resolves:
  assumes "registry_laws R" and "url_laws U (sv_file_url E)"
    and "st_session st = Some frame" and "sv_absolute E (dataset_path st table) = Some p" and "normal_path p"
    and "sv_file_url E p = Some rest" and "path_from_absolute U p = Some object_path"
  shows "\<exists>url. url_parse U (store_uri E st table) = Some url \<and>
      rg_find R (registry_for R frame) (url_scheme U url) = Some (provider_new frame) \<and>
      extract_path U url = Inr object_path \<and>
      new_store local lance_new (provider_new frame) url block_size = lance_new \<lparr>sa_store = \<lparr>es_inner = local, es_frame = frame\<rparr>,
        sa_base = url, sa_block_size = block_size, sa_wrapper = None, sa_constant_size_parts = False, sa_ordered_listing = False,
        sa_parallelism = 8, sa_retries = 3, sa_options = None\<rparr> \<and>
      (\<forall>other. other \<noteq> SCHEME \<longrightarrow> rg_find R (registry_for R frame) other = rg_find R (rg_default R) other)"
proof -
  have uri: "store_uri E st table = SCHEME @ ''://'' @ rest"
    using assms(3,4,6) by (simp add: store_uri_def provider_uri_def)
  obtain f u where f: "url_parse U (''file://'' @ rest) = Some f" "url_to_file_path U f = Some p"
    and u: "url_parse U (store_uri E st table) = Some u" "url_scheme U u = SCHEME" "url_before_host U u = rest"
    using assms(2,5,6) unfolding url_laws_def uri by blast
  have "extract_path U u = Inr object_path" using f u(3) assms(7) by (intro extract_file_route) simp_all
  moreover have "rg_find R (registry_for R frame) SCHEME = Some (provider_new frame)"
    using assms(1) by (simp add: registry_laws_def registry_for_def)
  ultimately show ?thesis
    using u assms(1) by (simp add: new_store_def encrypting_store_new_def provider_new_def registry_laws_def registry_for_def
        IO_PARALLELISM_def DOWNLOAD_RETRIES_def)
qed

text \<open>URLs as their text, and a registry as a map.\<close>

fun demo_after :: "string \<Rightarrow> string \<Rightarrow> string option" where
  "demo_after sep [] = None"
| "demo_after sep (c # cs) = (if take (length sep) (c # cs) = sep then Some (drop (length sep) (c # cs)) else demo_after sep cs)"

definition demo_urls :: "string url_ops" where
  "demo_urls = \<lparr>url_parse = (\<lambda>s. if demo_after ''://'' s = None then None else Some s), url_scheme = takeWhile (\<lambda>c. c \<noteq> CHR '':''),
     url_before_host = (\<lambda>u. the (demo_after ''://'' u)), url_path = (\<lambda>u. the (demo_after ''://'' u)), url_str = (\<lambda>u. u),
     url_to_file_path = demo_after ''://'', path_from_absolute = (\<lambda>p. if is_absolute p then Some (tl p) else None),
     path_from_url_path = Inr\<rparr>"

definition demo_registry :: "(string \<rightharpoonup> encrypting_provider, encrypting_provider) registry_ops" where
  "demo_registry = \<lparr>rg_default = Map.empty, rg_insert = (\<lambda>s p r. r(s \<mapsto> p)), rg_find = (\<lambda>r. r)\<rparr>"

lemma demo_outside: "registry_laws demo_registry" "url_laws demo_urls (\<lambda>p. Some p)"
  by (simp_all add: registry_laws_def demo_registry_def url_laws_def demo_urls_def SCHEME_def)

theorem address_resolves_witness:
  "extract_path demo_urls ''euledb:///db/notes.lance'' = Inr ''db/notes.lance'' \<and>
   sa_store (new_store demo_store id (provider_new demo_frame) ''euledb:///db/notes.lance'' None) = \<lparr>es_inner = demo_store, es_frame = demo_frame\<rparr>"
proof -
  let ?st = "(store_new ''/db'')\<lparr>st_session := Some demo_frame\<rparr>"
  have path: "dataset_path ?st ''notes'' = ''/db/notes.lance''" by (simp add: dataset_path_def path_join_def is_absolute_def store_new_def)
  have uri: "store_uri demo_services ?st ''notes'' = ''euledb:///db/notes.lance''"
    unfolding store_uri_def path by (simp add: provider_uri_def SCHEME_def demo_services_def)
  show ?thesis
    using address_resolves [OF demo_outside(1), of demo_urls demo_services ?st demo_frame "''notes''" "''/db/notes.lance''"
        "''/db/notes.lance''" "''db/notes.lance''" demo_store id None]
    unfolding path uri
    by (auto simp: demo_outside demo_services_def normal_path_def) (auto simp: demo_urls_def is_absolute_def)
qed

end
