(* ===== verification/File_Tree.thy ===== *)
theory File_Tree
  imports Store_Path "HOL-Library.Multiset"
begin

text \<open>
  A directory tree as the standard library's calls show it, for the two example programs that add up what is
  on disk. The calls are parameters, so nothing keeps the folders from going on for ever; the reference is
  therefore a relation that has a listing only where no chain of folders does. On a real disk none does:
  links are followed, but the operating system stops answering after a number of them.
\<close>

section \<open>The calls\<close>

text \<open>
  \<open>read_dir\<close>, which can fail and whose entries can fail one by one; \<open>Path::is_dir\<close>, false on failure;
  \<open>std::fs::read\<close>; the length in \<open>Path::metadata\<close>.
\<close>

record dir_env =
  de_read_dir :: "os_path \<Rightarrow> string option list option"
  de_is_dir :: "os_path \<Rightarrow> bool"
  de_read :: "os_path \<Rightarrow> bytes option"
  de_len :: "os_path \<Rightarrow> u64 option"

text \<open>\<open>read_dir(p).into_iter().flatten().flatten()\<close>: failures are left out.\<close>

definition entry_names :: "dir_env \<Rightarrow> os_path \<Rightarrow> string list" where
  "entry_names F p = (case de_read_dir F p of None \<Rightarrow> [] | Some entries \<Rightarrow> map the (filter (\<lambda>e. e \<noteq> None) entries))"

text \<open>\<open>Path::extension\<close>: what follows the last dot of the last component, unless the dot is its first character.\<close>

definition path_file_name :: "os_path \<Rightarrow> string" where
  "path_file_name p = rev (takeWhile (\<lambda>c. c \<noteq> CHR ''/'') (rev p))"

definition path_extension :: "os_path \<Rightarrow> string option" where
  "path_extension p =
     (let name = path_file_name p; after = takeWhile (\<lambda>c. c \<noteq> CHR ''.'') (rev name)
      in if name = ''..'' \<or> length name \<le> length after + 1 then None else Some (rev after))"

text \<open>\<open>strip_prefix\<close> of a path below a directory, spelled without a separator at its end.\<close>

definition path_below :: "os_path \<Rightarrow> os_path \<Rightarrow> string option" where
  "path_below dir p =
     (if take (length dir + 1) p = dir @ ''/'' then Some (drop (length dir + 1) p) else None)"

section \<open>The files below a folder\<close>

inductive listing :: "dir_env \<Rightarrow> os_path \<Rightarrow> string list \<Rightarrow> os_path list \<Rightarrow> bool" for F where
  none: "listing F dir [] []"
| leaf: "\<not> de_is_dir F (path_join dir n) \<Longrightarrow> listing F dir ns ps \<Longrightarrow> listing F dir (n # ns) (path_join dir n # ps)"
| folder: "de_is_dir F (path_join dir n) \<Longrightarrow>
     listing F (path_join dir n) (entry_names F (path_join dir n)) qs \<Longrightarrow> listing F dir ns ps \<Longrightarrow>
     listing F dir (n # ns) (qs @ ps)"

inductive_cases listing_NilE: "listing F dir [] ps"
inductive_cases listing_ConsE: "listing F dir (n # ns) ps"

inductive_simps listing_Nil [simp]: "listing F dir [] ps"
inductive_simps listing_Cons: "listing F dir (n # ns) ps"

abbreviation files_below :: "dir_env \<Rightarrow> os_path \<Rightarrow> os_path list \<Rightarrow> bool" where
  "files_below F dir \<equiv> listing F dir (entry_names F dir)"

lemma listing_unique: "listing F dir ns ps \<Longrightarrow> listing F dir ns qs \<Longrightarrow> qs = ps"
proof (induction arbitrary: qs rule: listing.induct)
  case (leaf dir n ns ps)
  from leaf.prems leaf.hyps leaf.IH show ?case by (elim listing_ConsE) simp_all
next
  case (folder dir n rs ns ps)
  from folder.prems folder.hyps obtain rs' ps' where "qs = rs' @ ps'" "files_below F (path_join dir n) rs'" "listing F dir ns ps'"
    by (elim listing_ConsE) simp_all
  with folder.IH show ?case by simp
qed simp

lemma listing_appendI: "listing F dir ns ps \<Longrightarrow> listing F dir ms qs \<Longrightarrow> listing F dir (ns @ ms) (ps @ qs)"
proof (induction rule: listing.induct)
  case (folder dir n rs ns ps)
  then have "listing F dir (n # ns @ ms) (rs @ ps @ qs)" by (intro listing.folder)
  then show ?case by simp
qed (simp_all add: listing.leaf)

lemma listing_appendE:
  assumes "listing F dir (ns @ ms) ps"
  obtains p1 p2 where "listing F dir ns p1" and "listing F dir ms p2" and "ps = p1 @ p2"
proof -
  have "\<exists>p1 p2. listing F dir ns p1 \<and> listing F dir ms p2 \<and> ps = p1 @ p2"
    using assms
  proof (induction ns arbitrary: ps)
    case (Cons n ns)
    from Cons.prems have "listing F dir (n # (ns @ ms)) ps" by simp
    then consider (leaf) rest where "\<not> de_is_dir F (path_join dir n)" "listing F dir (ns @ ms) rest" "ps = path_join dir n # rest"
      | (folder) qs rest where "de_is_dir F (path_join dir n)" "files_below F (path_join dir n) qs"
          "listing F dir (ns @ ms) rest" "ps = qs @ rest"
      by (elim listing_ConsE) blast+
    then show ?case
    proof cases
      case (leaf rest)
      from Cons.IH [OF leaf(2)] obtain p1 p2 where "listing F dir ns p1" "listing F dir ms p2" "rest = p1 @ p2" by blast
      with listing.leaf [OF leaf(1)] leaf(3) show ?thesis by (metis append_Cons)
    next
      case (folder qs rest)
      from Cons.IH [OF folder(3)] obtain p1 p2 where "listing F dir ns p1" "listing F dir ms p2" "rest = p1 @ p2" by blast
      with listing.folder [OF folder(1,2)] folder(4) show ?thesis by (metis append_assoc)
    qed
  qed simp
  with that show thesis by blast
qed

lemma listing_total:
  assumes "\<And>n. n \<in> set ns \<Longrightarrow> de_is_dir F (path_join dir n) \<Longrightarrow> \<exists>ps. files_below F (path_join dir n) ps"
  shows "\<exists>ps. listing F dir ns ps"
  using assms
proof (induction ns)
  case (Cons n ns)
  then obtain ps where "listing F dir ns ps" by auto
  with Cons.prems [of n] show ?case by (cases "de_is_dir F (path_join dir n)") (auto simp: listing_Cons)
qed (auto intro: listing.none)

text \<open>A file system that lists the same entries in another order has the same files.\<close>

definition reordered :: "dir_env \<Rightarrow> dir_env \<Rightarrow> bool" where
  "reordered F G \<longleftrightarrow> de_is_dir G = de_is_dir F \<and> de_read G = de_read F \<and> de_len G = de_len F \<and>
     (\<forall>p. mset (entry_names G p) = mset (entry_names F p))"

lemma listing_reordered:
  assumes same: "reordered F G"
  shows "listing F dir ns ps \<Longrightarrow> mset ms = mset ns \<Longrightarrow> \<exists>qs. listing G dir ms qs \<and> mset qs = mset ps"
proof (induction arbitrary: ms rule: listing.induct)
  case (none dir)
  then show ?case by simp
next
  case (leaf dir n ns ps)
  from leaf.prems have "n \<in> set ms" by (metis list.set_intros(1) mset_eq_setD)
  then obtain a b where ms: "ms = a @ n # b" by (auto simp: in_set_conv_decomp)
  with leaf.prems have "mset (a @ b) = mset ns" by simp
  from leaf.IH [OF this] obtain qs where files: "listing G dir (a @ b) qs" and qs: "mset qs = mset ps" by blast
  from files obtain q1 q2 where "listing G dir a q1" "listing G dir b q2" "qs = q1 @ q2" by (rule listing_appendE)
  moreover have "\<not> de_is_dir G (path_join dir n)" using leaf.hyps same by (simp add: reordered_def)
  ultimately have "listing G dir ms (q1 @ path_join dir n # q2)" unfolding ms by (intro listing_appendI listing.intros)
  moreover have "mset (q1 @ path_join dir n # q2) = mset (path_join dir n # ps)" using qs \<open>qs = q1 @ q2\<close> by simp
  ultimately show ?case by blast
next
  case (folder dir n rs ns ps)
  from folder.prems have "n \<in> set ms" by (metis list.set_intros(1) mset_eq_setD)
  then obtain a b where ms: "ms = a @ n # b" by (auto simp: in_set_conv_decomp)
  with folder.prems have "mset (a @ b) = mset ns" by simp
  from folder.IH(2) [OF this] obtain qs where files: "listing G dir (a @ b) qs" and qs: "mset qs = mset ps" by blast
  from files obtain q1 q2 where parts: "listing G dir a q1" "listing G dir b q2" "qs = q1 @ q2" by (rule listing_appendE)
  have "mset (entry_names G (path_join dir n)) = mset (entry_names F (path_join dir n))" using same by (simp add: reordered_def)
  from folder.IH(1) [OF this] obtain rs' where "files_below G (path_join dir n) rs'" and rs: "mset rs' = mset rs" by blast
  moreover have "de_is_dir G (path_join dir n)" using folder.hyps same by (simp add: reordered_def)
  ultimately have "listing G dir ms (q1 @ rs' @ q2)" using parts unfolding ms by (intro listing_appendI listing.intros)
  moreover have "mset (q1 @ rs' @ q2) = mset (rs @ ps)" using qs rs \<open>qs = q1 @ q2\<close> by simp
  ultimately show ?case by blast
qed

lemma reordered_sym: "reordered F G \<Longrightarrow> reordered G F"
  by (simp add: reordered_def)

lemma files_reordered:
  assumes "reordered F G" and "files_below F dir ps"
  shows "\<exists>qs. files_below G dir qs \<and> mset qs = mset ps"
  using listing_reordered [OF assms] assms(1) by (simp add: reordered_def)

section \<open>Chains of folders\<close>

definition subfolder :: "dir_env \<Rightarrow> os_path \<Rightarrow> os_path \<Rightarrow> bool" where
  "subfolder F p q \<longleftrightarrow> de_is_dir F q \<and> (\<exists>n \<in> set (entry_names F p). q = path_join p n)"

definition endless_chain :: "dir_env \<Rightarrow> os_path \<Rightarrow> bool" where
  "endless_chain F dir \<longleftrightarrow> (\<exists>c. c 0 = dir \<and> (\<forall>i. subfolder F (c i) (c (Suc i))))"

lemma endless_next: "endless_chain F p \<Longrightarrow> \<exists>q. subfolder F p q \<and> endless_chain F q"
  unfolding endless_chain_def
proof (elim exE conjE)
  fix c assume c: "c 0 = p" "\<forall>i. subfolder F (c i) (c (Suc i))"
  then show "\<exists>q. subfolder F p q \<and> (\<exists>c. c 0 = q \<and> (\<forall>i. subfolder F (c i) (c (Suc i))))"
    by (intro exI [of _ "c 1"] conjI exI [of _ "\<lambda>i. c (Suc i)"]) (simp_all flip: c(1))
qed

lemma listed_ends: "listing F dir ns ps \<Longrightarrow> n \<in> set ns \<Longrightarrow> de_is_dir F (path_join dir n) \<Longrightarrow> \<not> endless_chain F (path_join dir n)"
proof (induction arbitrary: n rule: listing.induct)
  case (folder dir m qs ns ps)
  have "\<not> endless_chain F (path_join dir m)"
  proof
    assume "endless_chain F (path_join dir m)"
    then obtain q where "subfolder F (path_join dir m) q" "endless_chain F q" using endless_next by blast
    then show False using folder.IH(1) by (auto simp: subfolder_def)
  qed
  then show ?case using folder.IH(2) folder.prems by auto
qed auto

text \<open>A folder has a listing exactly if no chain of folders goes down from it without an end.\<close>

lemma listing_iff_ends: "(\<exists>ps. files_below F dir ps) \<longleftrightarrow> \<not> endless_chain F dir"
proof
  assume "\<exists>ps. files_below F dir ps"
  then obtain ps where ps: "files_below F dir ps" ..
  show "\<not> endless_chain F dir"
  proof
    assume "endless_chain F dir"
    then obtain q where "subfolder F dir q" "endless_chain F q" using endless_next by blast
    then show False using listed_ends [OF ps] by (auto simp: subfolder_def)
  qed
next
  assume ends: "\<not> endless_chain F dir"
  show "\<exists>ps. files_below F dir ps"
  proof (rule ccontr)
    assume none: "\<not> ?thesis"
    have step: "\<exists>q. (\<not> (\<exists>ps. files_below F q ps)) \<and> subfolder F p q" if "\<not> (\<exists>ps. files_below F p ps)" for p :: os_path and i :: nat
      using listing_total [of "entry_names F p" F p] that unfolding subfolder_def by blast
    obtain c where "c 0 = dir" "\<forall>i :: nat. \<not> (\<exists>ps. files_below F (c i) ps) \<and> subfolder F (c i) (c (Suc i))"
    proof -
      define P where "P i p \<longleftrightarrow> \<not> (\<exists>ps. files_below F p ps) \<and> (i = 0 \<longrightarrow> p = dir)" for i :: nat and p
      have "\<exists>c. \<forall>i. P i (c i) \<and> subfolder F (c i) (c (Suc i))"
        by (rule dependent_nat_choice [where P = P and Q = "\<lambda>_. subfolder F"]) (use none step in \<open>auto simp: P_def\<close>)
      then show thesis using that unfolding P_def by blast
    qed
    then show False using ends by (auto simp: endless_chain_def)
  qed
qed

end
