(* ===== verification/Crash_Writer.thy ===== *)
theory Crash_Writer
  imports Store_Roundtrip Messages
begin

text \<open>
  \<open>euledb-crash-writer/src/main.rs\<close>: the process that appends batches of consecutive numbers to a database
  until something kills it. Its endless loop is a partial function, so running on is the value \<open>None\<close>; a
  signed 64-bit sum is checked or wraps, as the build has it. The message on the error stream before an
  exit is a function of the reason; the line \<open>ready\<close> is not modelled.
\<close>

section \<open>Signed numbers\<close>

text \<open>\<open>str::parse::<i64>\<close>: an optional sign, at least one digit, no overflow.\<close>

definition parse_i64 :: "string \<Rightarrow> i64 option" where
  "parse_i64 s =
     (let (negative, ds) = (case s of
          c # cs \<Rightarrow> if c = CHR ''-'' then (True, cs) else if c = CHR ''+'' then (False, cs) else (False, s)
        | [] \<Rightarrow> (False, []))
      in if ds = [] then None
         else (case digits_value 0 ds of
                 None \<Rightarrow> None
               | Some n \<Rightarrow>
                   let v = (if negative then - int n else int n) in
                   if - (2 ^ 63) \<le> v \<and> v < 2 ^ 63 then Some (word_of_int v) else None))"

text \<open>The sum of two \<open>i64\<close>: with overflow checks a sum out of range panics, without it wraps.\<close>

definition i64_add :: "bool \<Rightarrow> i64 \<Rightarrow> i64 \<Rightarrow> i64 option" where
  "i64_add checks a b =
     (if checks \<and> \<not> (- (2 ^ 63) \<le> sint a + sint b \<and> sint a + sint b < 2 ^ 63) then None else Some (a + b))"

text \<open>The numbers of the range \<open>a..b\<close>.\<close>

definition i64_range :: "i64 \<Rightarrow> i64 \<Rightarrow> i64 list" where
  "i64_range a b = map word_of_int [sint a .. sint b - 1]"

lemma sint_i64_bounds: "- (2 ^ 63) \<le> sint (a :: i64)" "sint (a :: i64) < 2 ^ 63"
  using sint_greater_eq [of a] sint_less [of a] by simp_all

lemma sint_word_of_int: "- (2 ^ 63) \<le> v \<Longrightarrow> v < 2 ^ 63 \<Longrightarrow> sint (word_of_int v :: i64) = v"
  by (simp add: signed_of_int signed_take_bit_int_eq_self)

lemma checked_add:
  assumes "i64_add True a b = Some c"
  shows "sint c = sint a + sint b"
proof -
  have bounds: "- (2 ^ 63) \<le> sint a + sint b" "sint a + sint b < 2 ^ 63" and c: "c = a + b"
    using assms by (auto simp: i64_add_def split: if_splits)
  have "word_of_int (sint a + sint b) = a + b" by simp
  with c show ?thesis using sint_word_of_int [OF bounds] by simp
qed

section \<open>The program\<close>

text \<open>Why the process stops: the message it prints before it exits, or the panic of a sum.\<close>

datatype stop =
    Usage
  | NotANumber
  | CannotOpen os_path db_error
  | CannotCreate db_error
  | CannotBuild
  | AppendFailed db_error
  | Overflowed

definition USAGE :: int where "USAGE = 2"

fun exit_code :: "stop \<Rightarrow> int option" where
  "exit_code Overflowed = None"
| "exit_code _ = Some USAGE"

text \<open>The line printed before the exit; a panic prints its own.\<close>

fun stop_message :: "(data_type \<Rightarrow> string) \<Rightarrow> os_path \<Rightarrow> stop \<Rightarrow> string option" where
  "stop_message show_type path Usage = Some ''usage: euledb-crash-writer <directory> <rows-per-batch>''"
| "stop_message show_type path NotANumber = Some ''rows-per-batch must be a number''"
| "stop_message show_type path (CannotOpen dir err) = Some (''cannot open '' @ dir @ '' for writing: '' @ db_error_str show_type path err)"
| "stop_message show_type path (CannotCreate err) = Some (''cannot create the table: '' @ db_error_str show_type path err)"
| "stop_message show_type path CannotBuild = Some ''cannot build a batch''"
| "stop_message show_type path (AppendFailed err) = Some (''append failed: '' @ db_error_str show_type path err)"
| "stop_message show_type path Overflowed = None"

definition counters_schema :: "data_type schema" where
  "counters_schema = \<lparr>s_fields = [\<lparr>f_name = ''id'', f_type = Int64, f_nullable = False, f_metadata = Map.empty\<rparr>],
     s_metadata = Map.empty\<rparr>"

text \<open>The table is created only if it cannot be scanned.\<close>

definition writer_start :: "('w, 'ds, 'sc, 'ub, 't) services \<Rightarrow> store \<Rightarrow> ('w world, stop, unit) act" where
  "writer_start E st w =
     (case scan E st ''counters'' w of
        (Inr _, w1) \<Rightarrow> (Inr (), w1)
      | (Inl _, w1) \<Rightarrow>
          (case create_table E st ''counters'' (table_definition_new counters_schema) w1 of
             (Inl err, w2) \<Rightarrow> (Inl (CannotCreate err), w2)
           | (Inr _, w2) \<Rightarrow> (Inr (), w2)))"

text \<open>One turn of the loop: the next number to write, or why the process stops.\<close>

definition writer_round ::
  "('w, 'ds, 'sc, 'ub, 't) services \<Rightarrow> store \<Rightarrow> bool \<Rightarrow> i64 \<Rightarrow> i64 \<Rightarrow> ('w world, stop, i64) act" where
  "writer_round E st checks batch_size written w =
     (case i64_add checks written batch_size of
        None \<Rightarrow> (Inl Overflowed, w)
      | Some upper \<Rightarrow>
          (case l_batch (sv_lance E) counters_schema [I64Column (i64_range written upper)] of
             Inl _ \<Rightarrow> (Inl CannotBuild, w)
           | Inr batch \<Rightarrow>
               (case append_batch E st ''counters'' batch w of
                  (Inl err, w1) \<Rightarrow> (Inl (AppendFailed err), w1)
                | (Inr _, w1) \<Rightarrow>
                    (case i64_add checks written batch_size of
                       None \<Rightarrow> (Inl Overflowed, w1)
                     | Some next_written \<Rightarrow> (Inr next_written, w1)))))"

partial_function (option) writer_loop ::
  "('w, 'ds, 'sc, 'ub, 't) services \<Rightarrow> store \<Rightarrow> bool \<Rightarrow> i64 \<Rightarrow> i64 \<Rightarrow> 'w world \<Rightarrow> (stop \<times> 'w world) option" where
  "writer_loop E st checks batch_size written w =
     (case writer_round E st checks batch_size written w of
        (Inl stop, w1) \<Rightarrow> Some (stop, w1)
      | (Inr next_written, w1) \<Rightarrow> writer_loop E st checks batch_size next_written w1)"

definition crash_main ::
  "'i lock_env \<Rightarrow> ('w, 'ds, 'sc, 'ub, 't) services \<Rightarrow> bool \<Rightarrow> string list \<Rightarrow> 'i os_locks \<Rightarrow> 'w world
   \<Rightarrow> (stop \<times> 'i os_locks \<times> 'w world) option" where
  "crash_main env E checks args os w =
     (case drop 1 args of
        dir # rows_arg # _ \<Rightarrow>
          (case parse_i64 rows_arg of
             None \<Rightarrow> Some (NotANumber, os, w)
           | Some batch_size \<Rightarrow>
               (case open_for_writing env dir os of
                  (Inl err, os1) \<Rightarrow> Some (CannotOpen dir err, os1, w)
                | (Inr st, os1) \<Rightarrow>
                    (case writer_start E st w of
                       (Inl stop, w1) \<Rightarrow> Some (stop, os1, w1)
                     | (Inr _, w1) \<Rightarrow>
                         map_option (\<lambda>(stop, w2). (stop, os1, w2)) (writer_loop E st checks batch_size 0 w1))))
      | _ \<Rightarrow> Some (Usage, os, w))"

section \<open>Rounds\<close>

text \<open>The loop cut off after a number of turns: where it stands then, or where it stopped before.\<close>

fun after_rounds ::
  "nat \<Rightarrow> ('w, 'ds, 'sc, 'ub, 't) services \<Rightarrow> store \<Rightarrow> bool \<Rightarrow> i64 \<Rightarrow> i64 \<Rightarrow> 'w world \<Rightarrow> (stop \<times> 'w world) + (i64 \<times> 'w world)" where
  "after_rounds 0 E st checks batch_size written w = Inr (written, w)"
| "after_rounds (Suc n) E st checks batch_size written w =
     (case writer_round E st checks batch_size written w of
        (Inl stop, w1) \<Rightarrow> Inl (stop, w1)
      | (Inr next_written, w1) \<Rightarrow> after_rounds n E st checks batch_size next_written w1)"

lemma rounds_loop: "after_rounds n E st checks k written w = Inl r \<Longrightarrow> writer_loop E st checks k written w = Some r"
proof (induction n arbitrary: written w)
  case (Suc n)
  then show ?case by (subst writer_loop.simps) (auto split: prod.splits sum.splits)
qed simp

lemma loop_rounds: "writer_loop E st checks k written w = Some r \<Longrightarrow> \<exists>n. after_rounds n E st checks k written w = Inl r"
proof (induction rule: writer_loop.raw_induct [rotated 1, consumes 1])
  case (1 loop E st checks k written w r)
  show ?case
  proof (cases "writer_round E st checks k written w")
    case (Pair res w1)
    show ?thesis
    proof (cases res)
      case (Inl stop)
      with 1 Pair have "after_rounds (Suc 0) E st checks k written w = Inl r" by simp
      then show ?thesis ..
    next
      case (Inr next_written)
      with 1(2) Pair have "loop E st checks k next_written w1 = Some r" by simp
      then obtain n where "after_rounds n E st checks k next_written w1 = Inl r" using 1(1) by (cases r) blast
      with Pair Inr have "after_rounds (Suc n) E st checks k written w = Inl r" by simp
      then show ?thesis ..
    qed
  qed
qed

lemma loop_iff: "writer_loop E st checks k written w = Some r \<longleftrightarrow> (\<exists>n. after_rounds n E st checks k written w = Inl r)"
  using rounds_loop loop_rounds by blast

lemma rounds_sum: "after_rounds n E st True k written w = Inr (written', w') \<Longrightarrow> sint written' = sint written + int n * sint k"
proof (induction n arbitrary: written w)
  case (Suc n)
  then obtain next_written w1 where round: "writer_round E st True k written w = (Inr next_written, w1)"
    and rest: "after_rounds n E st True k next_written w1 = Inr (written', w')"
    by (auto split: prod.splits sum.splits)
  from round have "i64_add True written k = Some next_written"
    by (auto simp: writer_round_def split: option.splits sum.splits prod.splits)
  with Suc.IH [OF rest] show ?case by (simp add: checked_add algebra_simps)
qed simp

text \<open>With checked sums a batch size other than zero runs out of numbers, whatever the store answers.\<close>

lemma rounds_end:
  assumes "sint k \<noteq> 0"
  shows "\<exists>r. after_rounds (2 ^ 64) E st True k written w = Inl r"
proof (rule ccontr)
  assume "\<not> ?thesis"
  then obtain p where "after_rounds (2 ^ 64) E st True k written w = Inr p" by (meson sum.exhaust)
  then obtain written' w' where "after_rounds (2 ^ 64) E st True k written w = Inr (written', w')" by (cases p) simp
  then have sum: "sint written' = sint written + int (2 ^ 64) * sint k" by (rule rounds_sum)
  have "2 ^ 64 \<le> \<bar>int (2 ^ 64) * sint k\<bar>" using assms by (simp add: abs_mult)
  then show False using sum sint_i64_bounds [of written] sint_i64_bounds [of written'] by simp
qed

text \<open>The turn it stops in, and running on under an invariant of the world.\<close>

lemma rounds_last:
  assumes "after_rounds n E st checks k written w = Inl r"
  shows "\<exists>n m w0. after_rounds n E st checks k written w = Inr (m, w0) \<and> writer_round E st checks k m w0 = (Inl (fst r), snd r)"
  using assms
proof (induction n arbitrary: written w)
  case (Suc n)
  obtain res w1 where round: "writer_round E st checks k written w = (res, w1)" by fastforce
  show ?case
  proof (cases res)
    case (Inl stop)
    with Suc.prems round have "after_rounds 0 E st checks k written w = Inr (written, w) \<and>
        writer_round E st checks k written w = (Inl (fst r), snd r)" by auto
    then show ?thesis by blast
  next
    case (Inr m)
    with Suc.prems round have "after_rounds n E st checks k m w1 = Inl r" by simp
    from Suc.IH [OF this] obtain n' m' w0 where "after_rounds n' E st checks k m w1 = Inr (m', w0)"
      "writer_round E st checks k m' w0 = (Inl (fst r), snd r)" by blast
    moreover from this(1) round Inr have "after_rounds (Suc n') E st checks k written w = Inr (m', w0)" by simp
    ultimately show ?thesis by blast
  qed
qed simp

lemma rounds_run:
  assumes "\<And>m w0. I w0 \<Longrightarrow> \<exists>m' w1. writer_round E st checks k m w0 = (Inr m', w1) \<and> I w1" and "I w"
  shows "\<exists>p. after_rounds n E st checks k written w = Inr p"
  using assms(2)
proof (induction n arbitrary: written w)
  case (Suc n)
  obtain m' w1 where "writer_round E st checks k written w = (Inr m', w1)" "I w1" using assms(1) [OF Suc.prems] by blast
  with Suc.IH show ?case by simp
qed simp


section \<open>What the writer leaves\<close>

definition counter_batch :: "i64 list \<Rightarrow> batch" where
  "counter_batch ids = \<lparr>b_schema = counters_schema, b_columns = [I64Column ids], b_rows = length ids\<rparr>"

definition ids_from :: "int \<Rightarrow> int \<Rightarrow> i64 list" where
  "ids_from a k = map word_of_int [a .. a + k - 1]"

text \<open>What is relied on of Arrow: a batch of one column of numbers is built as it is given.\<close>

definition builds_counters :: "('w, 'ds, 'sc, 'ub) lance \<Rightarrow> bool" where
  "builds_counters L \<longleftrightarrow> (\<forall>ids. l_batch L counters_schema [I64Column ids] = Inr (counter_batch ids))"

lemma round_appends:
  assumes "builds_counters (sv_lance E)" and "writer_round E st True k written w = (Inr next_written, w1)"
  shows "append_batch E st ''counters'' (counter_batch (ids_from (sint written) (sint k))) w = (Inr (), w1)"
    "sint next_written = sint written + sint k"
proof -
  have sum: "i64_add True written k = Some next_written"
    using assms(2) by (auto simp: writer_round_def split: option.splits sum.splits prod.splits)
  then show next_sum: "sint next_written = sint written + sint k" by (rule checked_add)
  then have "i64_range written next_written = ids_from (sint written) (sint k)" by (simp add: i64_range_def ids_from_def)
  then show "append_batch E st ''counters'' (counter_batch (ids_from (sint written) (sint k))) w = (Inr (), w1)"
    using assms sum by (auto simp: writer_round_def builds_counters_def split: option.splits sum.splits prod.splits)
qed

lemma ids_from_append: "0 \<le> k \<Longrightarrow> 0 \<le> m \<Longrightarrow> ids_from a k @ ids_from (a + k) m = ids_from a (k + m)"
proof (cases "m = 0")
  case False
  assume "0 \<le> k" "0 \<le> m"
  with False have "[a .. a + (k + m) - 1] = [a .. a + k - 1] @ [a + k .. a + (k + m) - 1]" by (intro upto_split1) simp_all
  then show ?thesis by (simp add: ids_from_def add.assoc)
qed (simp add: ids_from_def)

lemma length_ids_from [simp]: "length (ids_from a k) = nat k"
  by (simp add: ids_from_def)

text \<open>The batches of a number of turns, and what they hold together.\<close>

definition turns :: "int \<Rightarrow> int \<Rightarrow> nat \<Rightarrow> batch list" where
  "turns a k n = map (\<lambda>i. counter_batch (ids_from (a + int i * k) k)) [0..<n]"

lemma turns_Suc: "turns a k (Suc n) = counter_batch (ids_from a k) # turns (a + k) k n"
  by (simp add: turns_def upt_conv_Cons map_Suc_upt [symmetric] o_def algebra_simps del: upt_Suc)

lemma rounds_append:
  assumes "builds_counters (sv_lance E)" and "after_rounds n E st True k written w = Inr (written', w')"
  shows "act_each (append_batch E st ''counters'') (turns (sint written) (sint k) n) w = (Inr (), w')"
  using assms(2)
proof (induction n arbitrary: written w)
  case (Suc n)
  then obtain next_written w1 where round: "writer_round E st True k written w = (Inr next_written, w1)"
    and rest: "after_rounds n E st True k next_written w1 = Inr (written', w')"
    by (auto split: prod.splits sum.splits)
  show ?case
    using Suc.IH [OF rest] round_appends [OF assms(1) round] by (simp add: turns_Suc act_bind_step)
qed (simp add: turns_def act_pure_iff)

definition counter_ids :: "batch \<Rightarrow> i64 list" where
  "counter_ids b = (case b_columns b of [I64Column ids] \<Rightarrow> ids | _ \<Rightarrow> [])"

lemma counter_ids_batch [simp]: "counter_ids (counter_batch ids) = ids"
  by (simp add: counter_ids_def counter_batch_def)

lemma turns_ids: "0 \<le> k \<Longrightarrow> concat (map counter_ids (turns a k n)) = ids_from a (int n * k)"
proof (induction n arbitrary: a)
  case (Suc n)
  have "concat (map counter_ids (turns a k (Suc n))) = ids_from a k @ ids_from (a + k) (int n * k)"
    using Suc by (simp add: turns_Suc)
  also have "\<dots> = ids_from a (int (Suc n) * k)" using Suc.prems by (subst ids_from_append) (simp_all add: algebra_simps)
  finally show ?case .
qed (simp add: turns_def ids_from_def)

text \<open>The rows of a batch of numbers.\<close>

definition number_rows :: "i64 list \<Rightarrow> cell list list" where
  "number_rows ids = map (\<lambda>n. [I64Cell n]) ids"

lemma number_rows_inject: "number_rows xs = number_rows ys \<Longrightarrow> xs = ys"
  by (simp add: number_rows_def inj_def inj_map_eq_map)

lemma number_rows_concat: "concat (map (\<lambda>x. number_rows (f x)) xs) = number_rows (concat (map f xs))"
  by (simp add: number_rows_def map_concat o_def)

lemma counter_batch_rows [simp]: "batch_rows (counter_batch ids) = number_rows ids"
  by (rule nth_equalityI) (simp_all add: batch_rows_def counter_batch_def number_rows_def)

lemma counter_batch_typed [simp]: "typed_batch (counter_batch ids)" "b_schema (counter_batch ids) = counters_schema"
  by (simp_all add: typed_batch_def counter_batch_def counters_schema_def column_length_def)

lemma turns_rows: "0 \<le> k \<Longrightarrow> concat (map batch_rows (turns a k n)) = number_rows (ids_from a (int n * k))"
  using turns_ids [of k a n] by (simp add: turns_def o_def number_rows_concat)

lemma typed_counters:
  assumes "b_schema b = counters_schema" and "typed_batch b"
  shows "batch_rows b = number_rows (counter_ids b)" and "b_rows b = length (counter_ids b)"
proof -
  obtain ids where "b_columns b = [I64Column ids]" "length ids = b_rows b"
    using assms by (auto simp: typed_batch_def counters_schema_def list_all2_Cons1 column_length_def has_type_iff simp del: has_type.simps)
  then have "b = counter_batch ids" using assms(1) by (intro batch.equality) (simp_all add: counter_batch_def)
  then show "batch_rows b = number_rows (counter_ids b)" "b_rows b = length (counter_ids b)"
    by (simp_all add: counter_batch_def [of ids, THEN arg_cong [of _ _ b_rows]])
qed

section \<open>Killed and started again\<close>

text \<open>
  A run is killed at some time. Its lock is closed by the operating system. The only calls that change the disk
  are the format's writes, the creation of the table and one append in each turn; each is a commit, and what a
  killed call has left behind before its commit is read by nobody: the table reads as without it. So a run that
  is killed leaves the disk, as far as the table is read, as it was before its table was there (\<open>early\<close>), or
  as it is after a number of turns (\<open>turning\<close>), the last of them perhaps killed after its commit. The progress
  of a run is the number of its turns, if it came to any.
\<close>

definition counters_uri :: "('w, 'ds, 'sc, 'ub, 't) services \<Rightarrow> os_path \<Rightarrow> string" where
  "counters_uri E dir = store_uri E (store_new dir) ''counters''"

inductive killed_run ::
  "'i lock_env \<Rightarrow> ('w, 'ds, 'sc, 'ub, 't) services \<Rightarrow> os_path \<Rightarrow> i64 \<Rightarrow> nat option
   \<Rightarrow> 'i os_locks \<times> 'w world \<Rightarrow> 'i os_locks \<times> 'w world \<Rightarrow> bool" for env E dir k where
  early: "open_for_writing env dir os = (Inr st, os1) \<Longrightarrow> reads_alike (sv_lance E) (counters_uri E dir) (w_disk w) d \<Longrightarrow>
     killed_run env E dir k None (os, w) (lock_close (wl_handle (the (st_write_lock st))) os1, w\<lparr>w_disk := d\<rparr>)"
| turning: "open_for_writing env dir os = (Inr st, os1) \<Longrightarrow> writer_start E st w = (Inr (), w1) \<Longrightarrow>
     after_rounds n E st True k 0 w1 = Inr (written, w2) \<Longrightarrow> reads_alike (sv_lance E) (counters_uri E dir) (w_disk w2) d \<Longrightarrow>
     killed_run env E dir k (Some n) (os, w) (lock_close (wl_handle (the (st_write_lock st))) os1, w2\<lparr>w_disk := d\<rparr>)"

inductive killed_runs ::
  "'i lock_env \<Rightarrow> ('w, 'ds, 'sc, 'ub, 't) services \<Rightarrow> os_path \<Rightarrow> i64 \<Rightarrow> nat option list
   \<Rightarrow> 'i os_locks \<times> 'w world \<Rightarrow> 'i os_locks \<times> 'w world \<Rightarrow> bool" for env E dir k where
  no_run: "killed_runs env E dir k [] s s"
| one_more: "killed_runs env E dir k ps s s1 \<Longrightarrow> killed_run env E dir k p s1 s2 \<Longrightarrow> killed_runs env E dir k (ps @ [p]) s s2"

text \<open>The turns of the runs that came to any.\<close>

definition turns_made :: "nat option list \<Rightarrow> nat list" where
  "turns_made ps = List.map_filter (\<lambda>p. p) ps"

lemma turns_made_simps [simp]:
  "turns_made [] = []" "turns_made (ps @ [None]) = turns_made ps" "turns_made (ps @ [Some n]) = turns_made ps @ [n]"
  by (simp_all add: turns_made_def map_filter_def)

lemma opened_for_writing:
  "open_for_writing env dir os = (Inr st, os1) \<longleftrightarrow>
     (\<exists>l. lock_acquire env dir os = (Inr l, os1) \<and> st = (store_new dir)\<lparr>st_write_lock := Some l\<rparr>)"
  by (auto simp: open_for_writing_def split: prod.splits sum.splits lock_error.splits)

lemma closed_lock:
  assumes "open_for_writing env dir os = (Inr st, os1)"
  shows "st = (store_new dir)\<lparr>st_write_lock := st_write_lock st\<rparr>"
    "os_owner (lock_close (wl_handle (the (st_write_lock st))) os1) (le_file env (path_join dir LOCK_FILE)) = None"
proof -
  from assms obtain l where l: "lock_acquire env dir os = (Inr l, os1)" and st: "st = (store_new dir)\<lparr>st_write_lock := Some l\<rparr>"
    by (auto simp: opened_for_writing)
  then show "st = (store_new dir)\<lparr>st_write_lock := st_write_lock st\<rparr>" by simp
  show "os_owner (lock_close (wl_handle (the (st_write_lock st))) os1) (le_file env (path_join dir LOCK_FILE)) = None"
    using scope_leaves_free [OF l] by (simp add: st)
qed

abbreviation counters_hold ::
  "('w, 'ds, 'sc, 'ub, 't) services \<Rightarrow> os_path \<Rightarrow> 'w \<Rightarrow> cell list list \<Rightarrow> bool" where
  "counters_hold E dir d rows \<equiv>
     table_holds (sv_lance E) (counters_uri E dir) None d (applied_to compression_default counters_schema) rows"

lemma counters_plain [simp]: "auto_embedding_columns counters_schema = []" "auto_embedding_columns (applied_to c counters_schema) = []"
proof -
  show plain: "auto_embedding_columns counters_schema = []" by (simp add: counters_schema_def auto_embedding_columns_def)
  show "auto_embedding_columns (applied_to c counters_schema) = []"
    using compression_is_invisible [of counters_schema c] plain by (simp add: counters_schema_def)
qed

text \<open>The store of a run, and every other plain handle on the directory, has the address of \<open>store_new\<close>.\<close>

lemma handle_uri: "st_root st = dir \<Longrightarrow> st_session st = None \<Longrightarrow> store_uri E st ''counters'' = counters_uri E dir"
  by (simp add: counters_uri_def store_uri_def dataset_path_def) (simp add: store_new_def)

lemma counters_scan:
  assumes "counters_hold E dir (w_disk w) rows" and "rebuilds_batches (sv_lance E)"
    and "st_root st = dir" "st_session st = None" "require_scope E st Read ''counters'' = Inr ()" "st_audit st = None"
  shows "scans_rows E st ''counters'' w counters_schema rows"
  using assms handle_uri [OF assms(3,4), of E]
  by (intro scan_holds [where st = st and c = compression_default]) (simp_all add: counters_schema_def)

text \<open>The disk after a turn is the one its only write leaves.\<close>

lemma turn_is_one_write:
  assumes fmt: "format_keeps_rows (sv_lance E)" and arrow: "builds_counters (sv_lance E)"
    and st: "st_root st = dir" "st_session st = None" "st_audit st = None"
    and hold: "counters_hold E dir (w_disk w) rows" and turn: "writer_round E st True k m w = (Inr m', w')"
  shows "l_write (sv_lance E) counters_schema [counter_batch (ids_from (sint m) (sint k))] (counters_uri E dir) Append None (w_disk w)
    = (Inr (), w_disk w')"
proof -
  let ?b = "counter_batch (ids_from (sint m) (sint k))"
  have app: "append_batch E st ''counters'' ?b w = (Inr (), w')" by (rule round_appends(1) [OF arrow turn])
  then obtain w1 where w1: "on_disk ''append to the table'' ''counters''
        (l_write (sv_lance E) counters_schema [?b] (counters_uri E dir) Append None) w = (Inr (), w1)"
    and rest: "reconcile_all E st ''counters'' w1 = (Inr (), w')"
    using st by (auto simp: append_batch_def act_bind_Inr act_pure_iff record_op_def handle_uri)
  have made: "l_write (sv_lance E) counters_schema [?b] (counters_uri E dir) Append None (w_disk w) = (Inr (), w_disk w1)"
    using w1 by (auto simp: on_disk_def split: prod.splits)
  moreover have "same_shape counters_schema (applied_to compression_default counters_schema)"
    using applied_shape [of compression_default counters_schema] by simp
  ultimately have "counters_hold E dir (w_disk w1) (rows @ batch_rows ?b)"
    using fmt hold unfolding format_keeps_rows_def by (metis counter_batch_typed)
  then have "reconcile_all E st ''counters'' w1 = (Inr (), w1)"
    using st by (auto simp: reconcile_all_def embedding_columns_def table_holds_def act_simps reading_defs handle_uri)
  with made rest show ?thesis by simp
qed

text \<open>What is at the table's address between two runs: nothing yet, or the rows of the turns made so far.\<close>

definition rows_made :: "i64 \<Rightarrow> nat list \<Rightarrow> cell list list" where
  "rows_made k ns = concat (map (\<lambda>n. number_rows (ids_from 0 (int n * sint k))) ns)"

definition left_by :: "('w, 'ds, 'sc, 'ub, 't) services \<Rightarrow> os_path \<Rightarrow> string \<Rightarrow> i64 \<Rightarrow> nat list \<Rightarrow> 'w \<Rightarrow> bool" where
  "left_by E dir e k ns d \<longleftrightarrow>
     (if ns = [] then l_load (sv_lance E) (counters_uri E dir) None d = Inl e \<or> counters_hold E dir d []
      else counters_hold E dir d (rows_made k ns))"

lemma left_alike: "left_by E dir e k ns d \<Longrightarrow> reads_alike (sv_lance E) (counters_uri E dir) d d' \<Longrightarrow> left_by E dir e k ns d'"
  by (auto simp: left_by_def holds_alike reads_alike_def split: if_splits)

lemma turning_appends:
  assumes fmt: "format_keeps_rows (sv_lance E)" and arrow: "builds_counters (sv_lance E)" "rebuilds_batches (sv_lance E)"
    and size: "0 \<le> sint k" and before: "left_by E dir e k ns (w_disk w)"
    and opened: "open_for_writing env dir os = (Inr st, os1)" and start: "writer_start E st w = (Inr (), w1)"
    and rounds: "after_rounds n E st True k 0 w1 = Inr (written, w2)"
  shows "left_by E dir e k (ns @ [n]) (w_disk w2)"
proof -
  have fields: "st_root st = dir" "st_session st = None" "st_audit st = None" "require_scope E st Read ''counters'' = Inr ()"
    by (subst closed_lock(1) [OF opened], simp add: store_new_def require_scope_def)+
  have uri: "store_uri E st ''counters'' = counters_uri E dir" by (rule handle_uri [OF fields(1,2)])
  have "counters_hold E dir (w_disk w1) (rows_made k ns)"
  proof (cases "counters_hold E dir (w_disk w) (rows_made k ns)")
    case True
    from counters_scan [OF True arrow(2) fields(1,2,4,3)] start True show ?thesis
      by (auto simp: scans_rows_def writer_start_def)
  next
    case False
    then have absent: "ns = []" "l_load (sv_lance E) (counters_uri E dir) None (w_disk w) = Inl e"
      using before by (auto simp: left_by_def rows_made_def split: if_splits)
    then have "scan E st ''counters'' w = (Inl (backend ''open the table'' ''counters'' e), w)"
      by (simp add: scan_def act_simps fields reading_defs uri)
    then have "create_table E st ''counters'' (table_definition_new counters_schema) w = (Inr (), w1)"
      using start by (auto simp: writer_start_def split: prod.splits sum.splits)
    from created_holds [OF fmt this] show ?thesis by (simp add: absent(1) rows_made_def uri fields table_definition_new_def)
  qed
  moreover have "act_each (append_batch E st ''counters'') (turns 0 (sint k) n) w1 = (Inr (), w2)"
    using rounds_append [OF arrow(1) rounds] by simp
  moreover have "\<forall>b \<in> set (turns 0 (sint k) n). typed_batch b \<and> same_shape (b_schema b) (applied_to compression_default counters_schema)"
    using applied_shape [of compression_default counters_schema] by (auto simp: turns_def)
  ultimately have "counters_hold E dir (w_disk w2) (rows_made k ns @ concat (map batch_rows (turns 0 (sint k) n)))"
    using appends_hold [OF fmt, where s = "applied_to compression_default counters_schema" and st = st and table = "''counters''"]
    by (simp add: uri fields)
  then show ?thesis using size by (simp add: left_by_def rows_made_def turns_rows)
qed

lemma runs_append:
  assumes fmt: "format_keeps_rows (sv_lance E)" and arrow: "builds_counters (sv_lance E)" "rebuilds_batches (sv_lance E)"
    and size: "0 \<le> sint k" and runs: "killed_runs env E dir k ps s s'"
    and new: "l_load (sv_lance E) (counters_uri E dir) None (w_disk (snd s)) = Inl e"
  shows "left_by E dir e k (turns_made ps) (w_disk (snd s')) \<and>
    (ps \<noteq> [] \<longrightarrow> os_owner (fst s') (le_file env (path_join dir LOCK_FILE)) = None)"
  using runs new
proof (induction rule: killed_runs.induct)
  case (no_run s)
  then show ?case by (simp add: left_by_def)
next
  case (one_more ps s s1 p s2)
  then have before: "left_by E dir e k (turns_made ps) (w_disk (snd s1))" by simp
  from one_more.hyps(2) show ?case
  proof cases
    case (early os st os1 w d)
    then show ?thesis using closed_lock(2) [OF early(4)] left_alike before by simp
  next
    case (turning os st os1 w w1 n written w2 d)
    then have "left_by E dir e k (turns_made ps @ [n]) (w_disk w2)"
      using before by (intro turning_appends [OF fmt arrow size]) simp_all
    then show ?thesis using turning closed_lock(2) [OF turning(4)] left_alike by simp
  qed
qed

text \<open>C14: killed writers leave whole batches and no lock. After any number of runs on a new table, each killed at
  any time, every handle that may read gets, once a run has come so far as to create the table, the rows of
  all turns of all runs and no others: the numbers of each run are those from zero on, without a gap or a
  repetition, up to a whole number of batches; and the directory can be opened for writing again.\<close>

theorem killed_writers:
  assumes fmt: "format_keeps_rows (sv_lance E)" and arrow: "builds_counters (sv_lance E)" "rebuilds_batches (sv_lance E)"
    and size: "0 \<le> sint k"
    and new: "l_load (sv_lance E) (counters_uri E dir) None (w_disk w) = Inl e"
    and runs: "killed_runs env E dir k ps (os, w) (os', w')" and made: "turns_made ps = ns" "ns \<noteq> []"
    and reader: "st_root st = dir" "st_session st = None" "require_scope E st Read ''counters'' = Inr ()" "st_audit st = None"
    and fs: "le_create_dir env dir = None" "le_open env (path_join dir LOCK_FILE) = None" "le_lock env (path_join dir LOCK_FILE) = None"
  shows "(\<exists>batches. scan E st ''counters'' w' = (Inr batches, w') \<and>
      sum_list (map b_rows batches) = sum_list ns * nat (sint k) \<and>
      concat (map counter_ids batches) = concat (map (\<lambda>m. map word_of_int [0 .. int m * sint k - 1]) ns)) \<and>
    (\<exists>writer. fst (open_for_writing env dir os') = Inr writer)"
proof -
  have left: "left_by E dir e k ns (w_disk w')" and free: "os_owner os' (le_file env (path_join dir LOCK_FILE)) = None"
    using runs_append [OF fmt arrow size runs, of e] new made by auto
  have "scans_rows E st ''counters'' w' counters_schema (rows_made k ns)"
    using left made(2) by (intro counters_scan [OF _ arrow(2) reader(1,2,3,4)]) (simp add: left_by_def)
  then obtain batches where scanned: "scan E st ''counters'' w' = (Inr batches, w')"
    and typed: "\<forall>b \<in> set batches. b_schema b = counters_schema \<and> typed_batch b"
    and rows: "concat (map batch_rows batches) = rows_made k ns" unfolding scans_rows_def by blast
  have "map batch_rows batches = map (\<lambda>b. number_rows (counter_ids b)) batches" using typed typed_counters(1) by simp
  then have "number_rows (concat (map counter_ids batches)) = number_rows (concat (map (\<lambda>m. ids_from 0 (int m * sint k)) ns))"
    using rows by (simp only: rows_made_def number_rows_concat)
  then have ids: "concat (map counter_ids batches) = concat (map (\<lambda>m. ids_from 0 (int m * sint k)) ns)"
    by (rule number_rows_inject)
  have "sum_list (map b_rows batches) = length (concat (map counter_ids batches))"
    using typed typed_counters(2) by (simp add: length_concat o_def cong: map_cong)
  also have "\<dots> = sum_list ns * nat (sint k)"
    unfolding ids using size by (induction ns) (simp_all add: algebra_simps nat_mult_distrib)
  finally have "sum_list (map b_rows batches) = sum_list ns * nat (sint k)" .
  moreover have "\<exists>writer. fst (open_for_writing env dir os') = Inr writer"
    using fs free by (simp add: open_for_writing_def lock_acquire_def Let_def)
  ultimately show ?thesis using scanned ids by (auto simp: ids_from_def)
qed

text \<open>The writer on the demonstration format: refused without the lock, out of numbers with checks, endless without.\<close>

lemma demo_builds: "builds_counters demo_typed"
  by (simp add: builds_counters_def counter_batch_def column_length_def)

lemma demo_round:
  assumes "d (demo_address ''counters'') = Some (s, bs)" and "auto_embedding_columns s = []" and "i64_add checks m k = Some next_m"
  shows "writer_round demo_typed_services (demo_handle h) checks k m (demo_world d)
    = (Inr next_m, demo_world (d(demo_address ''counters'' \<mapsto> (s, bs @ [counter_batch (i64_range m next_m)]))))"
  using assms demo_builds by (simp add: writer_round_def builds_counters_def demo_append is_absolute_def)

definition demo_counters :: "batch list \<Rightarrow> demo_disk world" where
  "demo_counters bs = demo_world [demo_address ''counters'' \<mapsto> (applied_to compression_default counters_schema, bs)]"


text \<open>Three runs: one killed after two turns, one before it has started, one after a turn.\<close>

theorem killed_writers_witness:
  "\<exists>batches w. scan demo_typed_services (store_new ''/db'') ''counters'' w = (Inr batches, w) \<and>
     concat (map counter_ids batches) = [0, 1, 2, 3, 4, 5, 0, 1, 2]"
proof -
  let ?E = demo_typed_services and ?w = "demo_world Map.empty" and ?os = "\<lambda>h. \<lparr>os_owner = \<lambda>_. None, os_next = h\<rparr> :: string os_locks"
  let ?lock = "''/db/.euledb-writer.lock''"
  have path: "path_join ''/db'' LOCK_FILE = ?lock" by (simp add: path_join_def is_absolute_def LOCK_FILE_def)
  have opened: "open_for_writing demo_locks ''/db'' (?os h) = (Inr (demo_handle h), \<lparr>os_owner = [?lock \<mapsto> h], os_next = Suc h\<rparr>)" for h
    by (simp add: open_for_writing_def lock_acquire_def path demo_handle_def)
  have closed: "lock_close (wl_handle (the (st_write_lock (demo_handle h)))) \<lparr>os_owner = [?lock \<mapsto> h], os_next = Suc h\<rparr> = ?os (Suc h)" for h
    by (auto simp: lock_close_def)
  have sums: "i64_add True 0 3 = Some 3" "i64_add True 3 3 = Some 6" by (simp_all add: i64_add_def)
  have "scan ?E (demo_handle 0) ''counters'' ?w = (Inl (backend ''open the table'' ''counters'' ''no such table''), ?w)"
    by (simp add: scan_def act_simps reading_defs is_absolute_def demo_load_def)
  then have first: "writer_start ?E (demo_handle 0) ?w = (Inr (), demo_counters [])"
    by (simp add: writer_start_def demo_create is_absolute_def table_definition_new_def demo_counters_def)
  have uri: "counters_uri ?E ''/db'' = demo_address ''counters''" by (simp add: counters_uri_def is_absolute_def)
  let ?s = "applied_to compression_default counters_schema"
  have "typed_batch (b\<lparr>b_schema := ?s\<rparr>)" if "b \<in> range counter_batch" for b
    using that applied_shape [of compression_default counters_schema] by (auto intro!: typed_restamped)
  then have "counters_hold ?E ''/db'' (w_disk (demo_counters bs)) (concat (map batch_rows bs))" if "set bs \<subseteq> range counter_batch" for bs
    using that by (auto simp: demo_holds demo_counters_def uri)
  then have scans: "scans_rows ?E (demo_handle h) ''counters'' (demo_counters bs) counters_schema (concat (map batch_rows bs))"
    if "set bs \<subseteq> range counter_batch" for h bs
    using that demo_rebuilds by (intro counters_scan [where dir = "''/db''"]) (simp_all add: require_scope_def)
  have start: "writer_start ?E (demo_handle h) (demo_counters bs) = (Inr (), demo_counters bs)"
    if sub: "set bs \<subseteq> range counter_batch" for h bs
  proof -
    obtain found where "scan ?E (demo_handle h) ''counters'' (demo_counters bs) = (Inr found, demo_counters bs)"
      using scans [OF sub] unfolding scans_rows_def by blast
    then show ?thesis by (simp add: writer_start_def)
  qed
  let ?a = "counter_batch (i64_range 0 3)" and ?b = "counter_batch (i64_range 3 6)"
  have one: "after_rounds (Suc 0) ?E (demo_handle h) True 3 0 (demo_counters bs) = Inr (3, demo_counters (bs @ [?a]))" for h bs
    by (simp add: demo_counters_def demo_round sums)
  have two: "after_rounds 2 ?E (demo_handle h) True 3 0 (demo_counters bs) = Inr (6, demo_counters (bs @ [?a, ?b]))" for h bs
    by (simp add: numeral_2_eq_2 demo_counters_def demo_round sums)
  note turning = killed_run.turning [where env = demo_locks and E = ?E and dir = "''/db''" and k = 3]
    and early = killed_run.early [where env = demo_locks and E = ?E and dir = "''/db''" and k = 3]
  have r1: "killed_run demo_locks ?E ''/db'' 3 (Some 2) (?os 0, ?w) (?os 1, demo_counters [?a, ?b])"
    using turning [OF opened [of 0] first two [of 0 "[]"] reads_alike_refl] closed [of 0] by simp
  have r2: "killed_run demo_locks ?E ''/db'' 3 None (?os 1, demo_counters [?a, ?b]) (?os 2, demo_counters [?a, ?b])"
    using early [OF opened [of 1] reads_alike_refl, where w = "demo_counters [?a, ?b]"] closed [of 1] by (simp add: numeral_2_eq_2)
  have r3: "killed_run demo_locks ?E ''/db'' 3 (Some 1) (?os 2, demo_counters [?a, ?b]) (?os 3, demo_counters [?a, ?b, ?a])"
    using turning [OF opened [of 2] start [of "[?a, ?b]" 2] one [of 2 "[?a, ?b]"] reads_alike_refl] closed [of 2]
    by (simp add: numeral_3_eq_3)
  note runs = killed_runs.one_more [OF killed_runs.one_more [OF killed_runs.one_more [OF killed_runs.no_run r1] r2] r3]
  have "(\<exists>batches. scan ?E (store_new ''/db'') ''counters'' (demo_counters [?a, ?b, ?a]) = (Inr batches, demo_counters [?a, ?b, ?a]) \<and>
      sum_list (map b_rows batches) = sum_list [2, 1] * nat (sint (3 :: i64)) \<and>
      concat (map counter_ids batches) = concat (map (\<lambda>m. map word_of_int [0 .. int m * sint (3 :: i64) - 1]) [2, 1])) \<and>
    (\<exists>writer. fst (open_for_writing demo_locks ''/db'' (?os 3)) = Inr writer)"
    by (rule killed_writers [OF _ _ _ _ _ runs, of "''no such table''"])
      (simp_all add: demo_keeps_rows demo_rebuilds demo_builds store_new_def require_scope_def demo_load_def uri turns_made_def map_filter_def)
  moreover have "[0 .. int 2 * sint (3 :: i64) - 1] = [0, 1, 2, 3, 4, 5]" "[0 .. int 1 * sint (3 :: i64) - 1] = [0, 1, 2]"
    by (simp_all add: upto.simps)
  ultimately show ?thesis by auto
qed

end
