(* ===== verification/Harness.thy ===== *)
theory Harness
  imports File_Tree Crash_Writer "HOL-Library.Product_Lexorder" "HOL-Library.List_Lexorder" "HOL-Library.Char_ord"
begin

text \<open>
  What the two example programs share: temporary directories, \<open>expect\<close>, the numbers and the padded columns
  they print, and the walk over a directory with a stack of folders still to open. Both are run as release
  builds, so a sum of lengths wraps.
\<close>

section \<open>Stopping\<close>

text \<open>A program ends early by a panic, or never, when the folders of a walk over the disk have no end.\<close>

datatype halt = Panicked string | Endless

fun expecting :: "string \<Rightarrow> 'e + 'a \<Rightarrow> halt + 'a" where
  "expecting msg (Inl _) = Inl (Panicked msg)"
| "expecting msg (Inr x) = Inr x"

fun or_endless :: "'a option \<Rightarrow> halt + 'a" where
  "or_endless None = Inl Endless"
| "or_endless (Some x) = Inr x"

lemma expecting_Inr [simp]: "expecting msg r = Inr x \<longleftrightarrow> r = Inr x"
  by (cases r) simp_all

lemma or_endless_Inr [simp]: "or_endless r = Inr x \<longleftrightarrow> r = Some x"
  by (cases r) simp_all

lemma early_ends [simp]: "expecting msg r = Inl e \<longleftrightarrow> e = Panicked msg \<and> (\<exists>c. r = Inl c)" "or_endless m = Inl e \<longleftrightarrow> e = Endless \<and> m = None"
  by (cases r; auto) (cases m; auto)

text \<open>
  The crate \<open>tempfile\<close> and what the directory calls show of a disk: a new directory, or a failure; its
  removal when the guard is dropped.
\<close>

record 'w temp_env =
  te_new :: "'w \<Rightarrow> (string + os_path) \<times> 'w"
  te_drop :: "os_path \<Rightarrow> 'w \<Rightarrow> 'w"
  te_files :: "'w \<Rightarrow> dir_env"

section \<open>Printing\<close>

text \<open>\<open>{:<n}\<close> and \<open>{:>n}\<close> pad by characters: the bytes of the text that do not continue one.\<close>

definition scalars :: "string \<Rightarrow> nat" where
  "scalars s = length (filter (\<lambda>c. of_char c < (128 :: nat) \<or> (192 :: nat) \<le> of_char c) s)"

definition pad_right :: "nat \<Rightarrow> string \<Rightarrow> string" where
  "pad_right n s = s @ replicate (n - scalars s) CHR '' ''"

definition pad_left :: "nat \<Rightarrow> string \<Rightarrow> string" where
  "pad_left n s = replicate (n - scalars s) CHR '' '' @ s"

definition show_u64 :: "u64 \<Rightarrow> string" where "show_u64 n = show_nat (unat n)"

definition show_i64 :: "i64 \<Rightarrow> string" where
  "show_i64 v = (if sint v < 0 then ''-'' @ show_nat (nat (- sint v)) else show_nat (nat (sint v)))"

section \<open>The walk with a stack\<close>

type_synonym object_line = "string \<times> u64 \<times> bool"

text \<open>A file as it is reported: its path below the root, its length, whether it begins as a framed object.\<close>

definition object_line :: "dir_env \<Rightarrow> os_path \<Rightarrow> os_path \<Rightarrow> object_line" where
  "object_line F dir p =
     (let content = (case de_read F p of None \<Rightarrow> [] | Some bs \<Rightarrow> bs)
      in (case path_below dir p of None \<Rightarrow> p | Some rel \<Rightarrow> rel, word_of_nat (length content), take 4 content = ascii ''EULE''))"

fun walk_entries :: "dir_env \<Rightarrow> os_path \<Rightarrow> os_path \<Rightarrow> string list \<Rightarrow> os_path list \<Rightarrow> object_line list \<Rightarrow> os_path list \<times> object_line list" where
  "walk_entries F start dir [] stack out = (stack, out)"
| "walk_entries F start dir (n # ns) stack out =
     (let path = path_join dir n in
      if de_is_dir F path then walk_entries F start dir ns (stack @ [path]) out
      else walk_entries F start dir ns stack (out @ [object_line F start path]))"

partial_function (option) walk_loop :: "dir_env \<Rightarrow> os_path \<Rightarrow> os_path list \<Rightarrow> object_line list \<Rightarrow> object_line list option" where
  "walk_loop F start stack out =
     (if stack = [] then Some out
      else let dir = last stack;
               step = walk_entries F start dir (entry_names F dir) (butlast stack) out
           in walk_loop F start (fst step) (snd step))"

definition walk :: "dir_env \<Rightarrow> os_path \<Rightarrow> object_line list option" where
  "walk F start = map_option sort (walk_loop F start [start] [])"

lemma walk_loop_Nil [simp]: "walk_loop F start [] out = Some out"
  by (subst walk_loop.simps) simp

lemma walk_loop_pop:
  "walk_loop F start (stack @ [dir]) out =
     (let step = walk_entries F start dir (entry_names F dir) stack out in walk_loop F start (fst step) (snd step))"
  by (subst walk_loop.simps) (simp add: Let_def)

text \<open>A folder with finitely many files below it is left with exactly their lines added.\<close>

lemma walk_finite:
  "listing F dir ns ps \<Longrightarrow>
     \<exists>ls. (let step = walk_entries F start dir ns stack out in walk_loop F start (fst step) (snd step)) = walk_loop F start stack (out @ ls) \<and>
       mset ls = mset (map (object_line F start) ps)"
proof (induction arbitrary: stack out rule: listing.induct)
  case (none dir)
  show ?case by simp
next
  case (leaf dir n ns ps)
  from leaf.IH [of stack "out @ [object_line F start (path_join dir n)]"] obtain ls where
    "(let step = walk_entries F start dir (n # ns) stack out in walk_loop F start (fst step) (snd step))
       = walk_loop F start stack (out @ object_line F start (path_join dir n) # ls)"
    and "mset ls = mset (map (object_line F start) ps)"
    using leaf.hyps by (auto simp: Let_def)
  then show ?case by (intro exI [of _ "object_line F start (path_join dir n) # ls"]) simp
next
  case (folder dir n rs ns ps)
  let ?path = "path_join dir n"
  from folder.IH(2) [of "stack @ [?path]" out] obtain l1 where
    one: "(let step = walk_entries F start dir (n # ns) stack out in walk_loop F start (fst step) (snd step))
       = walk_loop F start (stack @ [?path]) (out @ l1)"
    and l1: "mset l1 = mset (map (object_line F start) ps)"
    using folder.hyps by (auto simp: Let_def)
  from folder.IH(1) [of stack "out @ l1"] obtain l2 where
    two: "walk_loop F start (stack @ [?path]) (out @ l1) = walk_loop F start stack (out @ l1 @ l2)"
    and l2: "mset l2 = mset (map (object_line F start) rs)"
    by (auto simp: walk_loop_pop)
  show ?case using one two l1 l2 by (intro exI [of _ "l1 @ l2"]) simp
qed

lemma walk_listed:
  assumes "files_below F start ps"
  shows "walk F start = Some (sort (map (object_line F start) ps))"
proof -
  from walk_finite [OF assms, of start "[]" "[]"] obtain ls where
    "walk_loop F start [start] [] = Some ls" and ls: "mset ls = mset (map (object_line F start) ps)"
    using walk_loop_pop [of F start "[]" start "[]"] by auto
  moreover have "sort ls = sort (map (object_line F start) ps)"
    using ls by (metis sorted_list_of_multiset_mset)
  ultimately show ?thesis by (simp add: walk_def)
qed

lemma walk_entries_stack:
  "set (fst (walk_entries F start dir ns stack out)) = set stack \<union> {path_join dir n | n. n \<in> set ns \<and> de_is_dir F (path_join dir n)}"
  by (induction ns arbitrary: stack out) (auto simp: Let_def)

lemma walk_ends:
  "walk_loop F start stack out = Some res \<Longrightarrow> dir \<in> set stack \<Longrightarrow> \<exists>ps. files_below F dir ps"
proof (induction arbitrary: dir rule: walk_loop.raw_induct [rotated 1, consumes 1])
  case (1 loop F start stack out res)
  let ?d = "last stack"
  let ?step = "walk_entries F start ?d (entry_names F ?d) (butlast stack) out"
  from 1(3) have "stack \<noteq> []" by auto
  with 1(2) have run: "loop F start (fst ?step) (snd ?step) = Some res" by (simp add: Let_def)
  have below: "\<exists>ps. files_below F p ps" if "p \<in> set (fst ?step)" for p using 1(1) [OF run that] .
  have "\<exists>ps. files_below F ?d ps"
    by (rule listing_total, rule below) (auto simp: walk_entries_stack)
  moreover have "dir = ?d \<or> dir \<in> set (butlast stack)" using 1(3) \<open>stack \<noteq> []\<close> by (metis append_butlast_last_id in_set_conv_decomp rotate1.simps(2) set_ConsD set_rotate1)
  ultimately show ?case using below [of dir] by (auto simp: walk_entries_stack)
qed

lemma walk_iff: "walk F start = Some ls \<longleftrightarrow> (\<exists>ps. files_below F start ps \<and> ls = sort (map (object_line F start) ps))"
proof
  assume "walk F start = Some ls"
  then obtain res where "walk_loop F start [start] [] = Some res" by (auto simp: walk_def)
  from walk_ends [OF this] obtain ps where "files_below F start ps" by auto
  with walk_listed [OF this] \<open>walk F start = Some ls\<close> show "\<exists>ps. files_below F start ps \<and> ls = sort (map (object_line F start) ps)" by auto
qed (auto simp: walk_listed)

lemma walk_reordered:
  assumes "reordered F G"
  shows "walk G start = walk F start"
proof -
  have "walk G' start = Some ls" if "reordered F' G'" "walk F' start = Some ls" for F' G' ls
  proof -
    from that(2) obtain ps where "files_below F' start ps" and ls: "ls = sort (map (object_line F' start) ps)"
      by (auto simp: walk_iff)
    from files_reordered [OF that(1) this(1)] obtain qs where qs: "files_below G' start qs" "mset qs = mset ps" by blast
    have "object_line G' start = object_line F' start" using that(1) by (simp add: fun_eq_iff object_line_def reordered_def)
    with qs(2) have "sort (map (object_line G' start) qs) = ls" unfolding ls by (metis mset_map sorted_list_of_multiset_mset)
    with qs(1) show ?thesis by (auto simp: walk_iff)
  qed
  from this [OF assms] this [OF reordered_sym [OF assms]] show ?thesis by (metis option.exhaust)
qed

end
