(* ===== verification/Inspect.thy ===== *)
theory Inspect
  imports Harness
begin

text \<open>
  \<open>euledb-storage/examples/inspect_encrypted.rs\<close>: the program that shows which objects on disk are framed and
  what encryption costs. Its clock and the ratios it prints as floating-point numbers are not modelled; the
  bytes it compares are.
\<close>

section \<open>The table\<close>

definition inspect_schema :: "data_type schema" where
  "inspect_schema =
     \<lparr>s_fields = [\<lparr>f_name = ''id'', f_type = Int64, f_nullable = False, f_metadata = Map.empty\<rparr>,
        \<lparr>f_name = ''body'', f_type = OtherType ''Utf8'', f_nullable = False, f_metadata = Map.empty\<rparr>],
      s_metadata = Map.empty\<rparr>"

definition inspect_table :: "data_type table_definition" where
  "inspect_table = with_compression Uncompressed (table_definition_new inspect_schema)"

definition inspect_columns :: "i64 \<Rightarrow> column list" where
  "inspect_columns n =
     [I64Column (i64_range 0 n),
      TextColumn (map (\<lambda>row. ''Grundsatzurteil zur Vorratsdatenspeicherung Rn. '' @ show_i64 row) (i64_range 0 n))]"

definition inspect_rows :: "('w, 'ds, 'sc, 'ub) lance \<Rightarrow> i64 \<Rightarrow> halt + batch" where
  "inspect_rows L n = expecting ''batch'' (l_batch L inspect_schema (inspect_columns n))"

section \<open>The machine\<close>

text \<open>What a run changes: the world of the store, the locks of the operating system, its random source.\<close>

record ('w, 'i) machine =
  mc_world :: "'w world"
  mc_locks :: "'i os_locks"
  mc_entropy :: entropy

definition on_world :: "string \<Rightarrow> ('w world, 'e, 'a) act \<Rightarrow> (('w, 'i) machine, halt, 'a) act" where
  "on_world msg m s = (let (r, w) = m (mc_world s) in (expecting msg r, s\<lparr>mc_world := w\<rparr>))"

definition on_locks :: "string \<Rightarrow> ('i os_locks, 'e, 'a) act \<Rightarrow> (('w, 'i) machine, halt, 'a) act" where
  "on_locks msg m s = (let (r, os) = m (mc_locks s) in (expecting msg r, s\<lparr>mc_locks := os\<rparr>))"

definition on_entropy :: "string \<Rightarrow> (entropy, 'e, 'a) act \<Rightarrow> (('w, 'i) machine, halt, 'a) act" where
  "on_entropy msg m s = (let (r, e) = m (mc_entropy s) in (expecting msg r, s\<lparr>mc_entropy := e\<rparr>))"

definition new_dir :: "'w temp_env \<Rightarrow> ('w world, string, os_path) act" where
  "new_dir T w = (let (r, d) = te_new T (w_disk w) in (r, w\<lparr>w_disk := d\<rparr>))"

text \<open>The end of a scope: the store is dropped, which closes its lock, then the directory.\<close>

definition leave :: "'w temp_env \<Rightarrow> os_path \<Rightarrow> store \<Rightarrow> (('w, 'i) machine, halt, unit) act" where
  "leave T dir st s =
     (Inr (), s\<lparr>mc_locks := (case st_write_lock st of None \<Rightarrow> mc_locks s | Some l \<Rightarrow> lock_close (wl_handle l) (mc_locks s)),
        mc_world := (mc_world s)\<lparr>w_disk := te_drop T dir (w_disk (mc_world s))\<rparr>\<rparr>)"

text \<open>The parameters of a run in one record.\<close>

record ('w, 'ds, 'sc, 'ub, 't, 'i) inspect_env =
  ie_services :: "('w, 'ds, 'sc, 'ub, 't) services"
  ie_temp :: "'w temp_env"
  ie_locks :: "'i lock_env"
  ie_aead :: aead
  ie_kdf :: kdf

section \<open>The program\<close>

definition fresh_store ::
  "('w, 'ds, 'sc, 'ub, 't, 'i) inspect_env \<Rightarrow> bool \<Rightarrow> (('w, 'i) machine, halt, os_path \<times> store) act" where
  "fresh_store I enc =
     act_bind (on_world ''tmp'' (new_dir (ie_temp I))) (\<lambda>dir.
     act_bind (on_entropy ''keyring'' (keyring_create (ie_aead I) (ie_kdf I) ''passphrase'')) (\<lambda>k.
     act_bind (on_locks ''write role'' (open_for_writing (ie_locks I) dir)) (\<lambda>st.
     act_ok (dir, if enc then encrypted k st else st))))"

definition fill_table ::
  "('w, 'ds, 'sc, 'ub, 't, 'i) inspect_env \<Rightarrow> store \<Rightarrow> i64 \<Rightarrow> (('w, 'i) machine, halt, unit) act" where
  "fill_table I st n =
     act_bind (on_world ''create'' (create_table (ie_services I) st ''t'' inspect_table)) (\<lambda>_.
     act_bind (act_of (inspect_rows (sv_lance (ie_services I)) n)) (\<lambda>b.
     on_world ''append'' (append_batch (ie_services I) st ''t'' b)))"

definition walk_disk :: "('w, 'ds, 'sc, 'ub, 't, 'i) inspect_env \<Rightarrow> os_path \<Rightarrow> (('w, 'i) machine, halt, object_line list) act" where
  "walk_disk I dir = act_read (\<lambda>s. or_endless (walk (te_files (ie_temp I) (w_disk (mc_world s))) dir))"

definition line_size :: "object_line \<Rightarrow> u64" where "line_size l = fst (snd l)"

text \<open>\<open>write_table\<close>: \<open>count as usize\<close> of a negative number is a large one.\<close>

definition NOT_ALL_ROWS :: halt where "NOT_ALL_ROWS = Panicked ''assertion `left == right` failed''"

definition write_table ::
  "('w, 'ds, 'sc, 'ub, 't, 'i) inspect_env \<Rightarrow> bool \<Rightarrow> i64 \<Rightarrow> (('w, 'i) machine, halt, u64) act" where
  "write_table I enc n =
     act_bind (fresh_store I enc) (\<lambda>(dir, st).
     act_bind (fill_table I st n) (\<lambda>_.
     act_bind (on_world ''scan'' (scan (ie_services I) st ''t'')) (\<lambda>batches.
     act_bind (act_of (if sum_list (map b_rows batches) = unat n then Inr () else Inl NOT_ALL_ROWS)) (\<lambda>_.
     act_bind (walk_disk I dir) (\<lambda>ls.
     act_bind (leave (ie_temp I) dir st) (\<lambda>_.
     act_ok (sum_list (map line_size ls))))))))"

text \<open>The first part of \<open>main\<close>: the lines about the objects of an encrypted table.\<close>

fun inspect_line :: "object_line \<Rightarrow> string" where
  "inspect_line (name, len, framed) =
     ''  '' @ pad_right 58 name @ '' '' @ pad_left 9 (show_u64 len) @ '' bytes  framed='' @ (if framed then ''true'' else ''false'')"

definition show_objects ::
  "('w, 'ds, 'sc, 'ub, 't, 'i) inspect_env \<Rightarrow> i64 \<Rightarrow> (('w, 'i) machine, halt, os_path \<times> store \<times> string list) act" where
  "show_objects I n =
     act_bind (fresh_store I True) (\<lambda>(dir, st).
     act_bind (fill_table I st n) (\<lambda>_.
     act_bind (walk_disk I dir) (\<lambda>ls. act_ok (dir, st, map inspect_line ls))))"

text \<open>
  The second part: for each size five rounds of a plain and an encrypted table, of which the bytes of the
  last round are printed.
\<close>

definition size_round ::
  "('w, 'ds, 'sc, 'ub, 't, 'i) inspect_env \<Rightarrow> i64 \<Rightarrow> (('w, 'i) machine, halt, u64 \<times> u64) act" where
  "size_round I n = act_bind (write_table I False n) (\<lambda>plain. act_bind (write_table I True n) (\<lambda>enc. act_ok (plain, enc)))"

definition compare_sizes ::
  "('w, 'ds, 'sc, 'ub, 't, 'i) inspect_env \<Rightarrow> (('w, 'i) machine, halt, (i64 \<times> u64 \<times> u64) list) act" where
  "compare_sizes I =
     act_map (\<lambda>n. act_bind (act_map (\<lambda>_. size_round I n) [0..<5]) (\<lambda>rounds. act_ok (n, last rounds))) [20000, 200000, 1000000]"

text \<open>The whole program: the first table lives until the end.\<close>

definition inspect_main ::
  "('w, 'ds, 'sc, 'ub, 't, 'i) inspect_env \<Rightarrow> (('w, 'i) machine, halt, string list \<times> (i64 \<times> u64 \<times> u64) list) act" where
  "inspect_main I =
     act_bind (show_objects I 20000) (\<lambda>(dir, st, ls).
     act_bind (compare_sizes I) (\<lambda>sizes.
     act_bind (leave (ie_temp I) dir st) (\<lambda>_. act_ok (ls, sizes))))"

section \<open>What it reports\<close>

text \<open>A sealed object is reported as framed, under the length it has on disk.\<close>

lemma sealed_line:
  assumes "frame_ok f" "aead_correct c" "entropy_sized r" "seal c f pt r = (Inr sealed, r')" and "de_read F p = Some sealed"
  shows "snd (object_line F dir p) = (word_of_nat (length sealed), True)"
proof -
  from seal_sealed_object [OF assms(1-4)] obtain pieces where "sealed_object c f pt pieces sealed" .
  then have "take 4 sealed = MAGIC" by (simp add: sealed_object_def header_def MAGIC_def)
  with assms(5) show ?thesis by (simp add: object_line_def MAGIC_def ascii_def)
qed

text \<open>A file that is no framed object is not reported as one, unless it happens to begin with the same four bytes.\<close>

lemma framed_line: "snd (snd (object_line F dir p)) \<longleftrightarrow> (\<exists>bs. de_read F p = Some bs \<and> take 4 bs = MAGIC)"
  by (auto simp: object_line_def MAGIC_def ascii_def split: option.split)

lemma on_part:
  "on_world msg m s = (Inr x, s') \<longleftrightarrow> (\<exists>w. m (mc_world s) = (Inr x, w) \<and> s' = s\<lparr>mc_world := w\<rparr>)"
  "on_locks msg k s = (Inr y, s') \<longleftrightarrow> (\<exists>os. k (mc_locks s) = (Inr y, os) \<and> s' = s\<lparr>mc_locks := os\<rparr>)"
  "on_entropy msg h s = (Inr z, s') \<longleftrightarrow> (\<exists>e. h (mc_entropy s) = (Inr z, e) \<and> s' = s\<lparr>mc_entropy := e\<rparr>)"
  by (auto simp: on_world_def on_locks_def on_entropy_def split: prod.splits)

lemma on_part_stops:
  "on_world msg m s = (Inl e, s') \<Longrightarrow> e = Panicked msg" "on_locks msg k s = (Inl e, s') \<Longrightarrow> e = Panicked msg"
  "on_entropy msg h s = (Inl e, s') \<Longrightarrow> e = Panicked msg"
  by (auto simp: on_world_def on_locks_def on_entropy_def split: prod.splits)

text \<open>The table the program writes is the one it reads back: its own check of the number of rows never fails.\<close>

definition inspect_batch :: "i64 \<Rightarrow> batch" where
  "inspect_batch n = \<lparr>b_schema = inspect_schema, b_columns = inspect_columns n, b_rows = length (i64_range 0 n)\<rparr>"

lemma inspect_plain [simp]: "auto_embedding_columns (applied_to c inspect_schema) = []"
  using compression_is_invisible [of inspect_schema c] by (simp add: inspect_schema_def auto_embedding_columns_def)

lemma inspect_typed: "typed_batch (inspect_batch n)"
  by (simp add: typed_batch_def inspect_batch_def inspect_schema_def inspect_columns_def column_length_def)

lemma filled_table_scans:
  assumes fmt: "format_keeps_rows (sv_lance (ie_services I))" and arrow: "rebuilds_batches (sv_lance (ie_services I))"
    and made: "l_batch (sv_lance (ie_services I)) inspect_schema (inspect_columns n) = Inr (inspect_batch n)"
    and run: "fill_table I st n s = (Inr (), s')" and st: "require_scope (ie_services I) st Read ''t'' = Inr ()" "st_audit st = None"
  shows "scans_rows (ie_services I) st ''t'' (mc_world s') inspect_schema (batch_rows (inspect_batch n))"
proof -
  from run made obtain w1 where created: "create_table (ie_services I) st ''t'' inspect_table (mc_world s) = (Inr (), w1)"
    and appended: "append_batch (ie_services I) st ''t'' (inspect_batch n) w1 = (Inr (), mc_world s')"
    by (auto simp: fill_table_def act_bind_Inr on_part act_pure_iff inspect_rows_def)
  from created_holds [OF fmt created]
  have "table_holds (sv_lance (ie_services I)) (store_uri (ie_services I) st ''t'') (st_session st) (w_disk w1)
      (applied_to Uncompressed inspect_schema) []"
    by (simp add: inspect_table_def with_compression_def table_definition_new_def)
  moreover have "same_shape (b_schema (inspect_batch n)) (applied_to Uncompressed inspect_schema)"
    using applied_shape [of Uncompressed inspect_schema] by (simp add: inspect_batch_def)
  ultimately have "table_holds (sv_lance (ie_services I)) (store_uri (ie_services I) st ''t'') (st_session st) (w_disk (mc_world s'))
      (applied_to Uncompressed inspect_schema) ([] @ batch_rows (inspect_batch n))"
    using inspect_typed appended by (intro append_holds [OF fmt]) simp_all
  from scan_holds [OF this _ arrow, of st] show ?thesis using st by (simp add: inspect_schema_def)
qed

lemma unat_sint:
  assumes "0 \<le> sint (n :: i64)"
  shows "unat n = nat (sint n)"
proof -
  have "uint n = uint (word_of_int (sint n) :: i64)" by simp
  also have "\<dots> = sint n" using assms sint_i64_bounds(2) [of n] by (simp only: uint_word_of_int) simp
  finally show ?thesis by (metis nat_uint_eq)
qed

lemma fresh_store_Inr:
  assumes "fresh_store I enc s = (Inr (dir, st), s')"
  obtains l os k st0 where "lock_acquire (ie_locks I) dir os = (Inr l, mc_locks s')"
    "st0 = (store_new dir)\<lparr>st_write_lock := Some l\<rparr>" "st = (if enc then encrypted k st0 else st0)"
  using assms that by (auto simp: fresh_store_def act_bind_Inr on_part act_pure_iff opened_for_writing)

lemma fresh_store_fields:
  assumes "fresh_store I enc s = (Inr (dir, st), s')"
  shows "st_audit st = None" "require_scope E st Read ''t'' = Inr ()"
    "\<exists>l os. lock_acquire (ie_locks I) dir os = (Inr l, mc_locks s') \<and> st_write_lock st = Some l"
  using assms by (auto elim!: fresh_store_Inr simp: encrypted_def store_new_def require_scope_def)

lemma fresh_store_stops: "fresh_store I enc s = (Inl e, s') \<Longrightarrow> e \<in> Panicked ` {''tmp'', ''keyring'', ''write role''}"
  by (auto simp: fresh_store_def act_pure_iff elim!: act_bindE dest: on_part_stops)

lemma fill_table_stops: "fill_table I st n s = (Inl e, s') \<Longrightarrow> e \<in> Panicked ` {''create'', ''batch'', ''append''}"
  by (auto simp: fill_table_def act_pure_iff inspect_rows_def eq_commute [of "Inl e"] elim!: act_bindE dest: on_part_stops)

text \<open>
  With a format that keeps rows a table of a number of rows not below zero is written and read without the
  check failing; a run that ends returns the sum of the lengths of the files below its directory and
  gives up its lock.
\<close>

lemma write_table_reports:
  assumes fmt: "format_keeps_rows (sv_lance (ie_services I))" and arrow: "rebuilds_batches (sv_lance (ie_services I))"
    and made: "l_batch (sv_lance (ie_services I)) inspect_schema (inspect_columns n) = Inr (inspect_batch n)"
    and count: "0 \<le> sint n" and run: "write_table I enc n s = (r, s')"
  shows "r \<noteq> Inl NOT_ALL_ROWS"
    "r = Inr amount \<Longrightarrow> \<exists>dir ps d. files_below (te_files (ie_temp I) d) dir ps \<and>
       amount = sum_list (map line_size (sort (map (object_line (te_files (ie_temp I) d) dir) ps))) \<and>
       w_disk (mc_world s') = te_drop (ie_temp I) dir d \<and> os_owner (mc_locks s') (le_file (ie_locks I) (path_join dir LOCK_FILE)) = None"
proof -
  have scanned: "\<exists>batches. on_world ''scan'' (scan (ie_services I) st ''t'') s2 = (Inr batches, s2) \<and> sum_list (map b_rows batches) = unat n"
    if "fresh_store I enc s = (Inr (dir, st), s1)" "fill_table I st n s1 = (Inr (), s2)" for dir st s1 s2
  proof -
    from filled_table_scans [OF fmt arrow made that(2) fresh_store_fields(2,1) [OF that(1)]]
    obtain batches where scan: "scan (ie_services I) st ''t'' (mc_world s2) = (Inr batches, mc_world s2)"
      and rows: "concat (map batch_rows batches) = batch_rows (inspect_batch n)" unfolding scans_rows_def by blast
    have "sum_list (map b_rows batches) = length (concat (map batch_rows batches))" by (simp add: length_concat o_def)
    also have "\<dots> = unat n" unfolding rows using count by (simp add: inspect_batch_def i64_range_def unat_sint)
    finally show ?thesis using scan by (simp add: on_world_def)
  qed
  have "(\<exists>e. r = Inl e \<and> e \<noteq> NOT_ALL_ROWS) \<or>
    (\<exists>dir st s1 s2. fresh_store I enc s = (Inr (dir, st), s1) \<and> fill_table I st n s1 = (Inr (), s2) \<and>
       act_bind (walk_disk I dir) (\<lambda>ls. act_bind (leave (ie_temp I) dir st) (\<lambda>_. act_ok (sum_list (map line_size ls)))) s2 = (r, s'))"
    using run unfolding write_table_def
  proof (cases rule: act_bindE)
    case (1 e)
    then show ?thesis by (auto simp: NOT_ALL_ROWS_def dest: fresh_store_stops)
  next
    case (2 fresh s1)
    obtain dir st where fresh: "fresh = (dir, st)" by (cases fresh)
    from 2(2) show ?thesis unfolding fresh prod.case
    proof (cases rule: act_bindE)
      case (1 e)
      then show ?thesis by (auto simp: NOT_ALL_ROWS_def dest: fill_table_stops)
    next
      case filled: (2 u s2)
      from 2(1) filled(1) have parts: "fresh_store I enc s = (Inr (dir, st), s1)" "fill_table I st n s1 = (Inr (), s2)"
        by (simp_all add: fresh)
      from scanned [OF parts] obtain batches where "on_world ''scan'' (scan (ie_services I) st ''t'') s2 = (Inr batches, s2)"
        "sum_list (map b_rows batches) = unat n" by blast
      with filled(2) parts show ?thesis by (simp add: act_bind_run act_run)
    qed
  qed
  then consider (early) e where "r = Inl e" "e \<noteq> NOT_ALL_ROWS"
    | (filled) dir st s1 s2 where "fresh_store I enc s = (Inr (dir, st), s1)" "fill_table I st n s1 = (Inr (), s2)"
        "act_bind (walk_disk I dir) (\<lambda>ls. act_bind (leave (ie_temp I) dir st) (\<lambda>_. act_ok (sum_list (map line_size ls)))) s2 = (r, s')"
    by blast
  note cases = this
  show "r \<noteq> Inl NOT_ALL_ROWS"
    by (cases rule: cases) (auto simp: NOT_ALL_ROWS_def walk_disk_def leave_def act_run elim!: act_bindE)
  assume "r = Inr amount"
  then show "\<exists>dir ps d. files_below (te_files (ie_temp I) d) dir ps \<and>
       amount = sum_list (map line_size (sort (map (object_line (te_files (ie_temp I) d) dir) ps))) \<and>
       w_disk (mc_world s') = te_drop (ie_temp I) dir d \<and> os_owner (mc_locks s') (le_file (ie_locks I) (path_join dir LOCK_FILE)) = None"
  proof (cases rule: cases)
    case (filled dir st s1 s2)
    from fresh_store_fields(3) [OF filled(1)] obtain l os where l: "lock_acquire (ie_locks I) dir os = (Inr l, mc_locks s1)"
      "st_write_lock st = Some l" by blast
    have locks: "mc_locks s2 = mc_locks s1" using filled(2) by (auto simp: fill_table_def act_bind_Inr on_part act_pure_iff)
    from filled(3) \<open>r = Inr amount\<close> obtain ls where ls: "walk (te_files (ie_temp I) (w_disk (mc_world s2))) dir = Some ls"
      and amount: "amount = sum_list (map line_size ls)" and s': "snd (leave (ie_temp I) dir st s2) = s'"
      by (auto simp: act_bind_Inr walk_disk_def act_pure_iff act_run)
    from ls obtain ps where "files_below (te_files (ie_temp I) (w_disk (mc_world s2))) dir ps"
      "ls = sort (map (object_line (te_files (ie_temp I) (w_disk (mc_world s2))) dir) ps)" by (auto simp: walk_iff)
    moreover have "w_disk (mc_world s') = te_drop (ie_temp I) dir (w_disk (mc_world s2))" using s' by (auto simp: leave_def)
    moreover have "os_owner (mc_locks s') (le_file (ie_locks I) (path_join dir LOCK_FILE)) = None"
      using scope_leaves_free [OF l(1)] s' l(2) locks by (auto simp: leave_def)
    ultimately show ?thesis using amount by blast
  qed simp
qed

end
