(* ===== verification/Measure_Encoding.thy ===== *)
theory Measure_Encoding
  imports Harness
begin

text \<open>
  \<open>euledb-storage/examples/measure_encoding.rs\<close>: the program behind the choice of the default compression. It
  writes one corpus under every encoding setting and prints how many bytes of data files each takes. The
  format's own writing call is the \<open>l_write\<close> of the services, without a session.
\<close>

section \<open>The corpus\<close>

definition templates :: "string list" where
  "templates =
     [''Der Erste Senat des Bundesverfassungsgerichts hat entschieden, dass die Vorschrift mit dem Grundgesetz unvereinbar ist'',
      ''Le Conseil constitutionnel a jug'' @ [CHR 0xC3, CHR 0xA9] @ '' que la disposition contest'' @ [CHR 0xC3, CHR 0xA9]
        @ ''e m'' @ [CHR 0xC3, CHR 0xA9] @ ''conna'' @ [CHR 0xC3, CHR 0xAE] @ ''t le droit au respect de la vie priv''
        @ [CHR 0xC3, CHR 0xA9] @ ''e'',
      ''Trybuna'' @ [CHR 0xC5, CHR 0x82] @ '' orzek'' @ [CHR 0xC5, CHR 0x82] @ '', '' @ [CHR 0xC5, CHR 0xBC]
        @ ''e przepis narusza zasad'' @ [CHR 0xC4, CHR 0x99] @ '' proporcjonalno'' @ [CHR 0xC5, CHR 0x9B] @ ''ci wynikaj''
        @ [CHR 0xC4, CHR 0x85] @ ''c'' @ [CHR 0xC4, CHR 0x85] @ '' z Konstytucji Rzeczypospolitej'',
      ''De Hoge Raad heeft geoordeeld dat de bepaling in strijd is met het recht op eerbiediging van de persoonlijke levenssfeer'']"

definition languages :: "string list" where "languages = [''de'', ''fr'', ''pl'', ''nl'']"

definition measured_body :: "nat \<Rightarrow> string" where
  "measured_body row = templates ! (row mod length templates) @ '' (Rn. '' @ show_nat row @ '')''"

definition corpus_columns :: "nat \<Rightarrow> i64 list \<times> string list \<times> string list" where
  "corpus_columns rows =
     (map (\<lambda>row. 4218 + word_of_nat row) [0..<rows], map measured_body [0..<rows],
      map (\<lambda>row. languages ! (row mod length templates)) [0..<rows])"

section \<open>Settings\<close>

definition UTF8 :: data_type where "UTF8 = OtherType ''Utf8''"

text \<open>Pairs collected into a map: of equal keys the last one counts.\<close>

definition encoding_meta :: "(string \<times> string) list \<Rightarrow> string \<Rightarrow> string option" where
  "encoding_meta pairs = map_of (rev pairs)"

definition schema_with :: "(string \<times> (string \<Rightarrow> string option)) list \<Rightarrow> data_type schema" where
  "schema_with settings =
     \<lparr>s_fields = map (\<lambda>name.
        \<lparr>f_name = name, f_type = (if name = ''id'' then Int64 else UTF8), f_nullable = False,
         f_metadata = (case find (\<lambda>(field_name, _). field_name = name) settings of Some (_, meta) \<Rightarrow> meta | None \<Rightarrow> Map.empty)\<rparr>)
        [''id'', ''body'', ''language''],
      s_metadata = Map.empty\<rparr>"

section \<open>The bytes of the data files\<close>

text \<open>
  The inner function \<open>walk\<close>, over what is left of the entries of one folder: it calls itself on a folder and
  adds the length of a file whose extension is \<open>lance\<close>.
\<close>

partial_function (option) data_walk :: "dir_env \<Rightarrow> os_path \<Rightarrow> string list \<Rightarrow> u64 \<Rightarrow> u64 option" where
  "data_walk F dir names out =
     (case names of
        [] \<Rightarrow> Some out
      | n # ns \<Rightarrow>
          let p = path_join dir n in
          if de_is_dir F p then Option.bind (data_walk F p (entry_names F p) out) (data_walk F dir ns)
          else if path_extension p = Some ''lance'' then data_walk F dir ns (out + (case de_len F p of None \<Rightarrow> 0 | Some len \<Rightarrow> len))
          else data_walk F dir ns out)"

definition data_bytes :: "dir_env \<Rightarrow> os_path \<Rightarrow> u64 option" where
  "data_bytes F start = data_walk F start (entry_names F start) 0"

definition data_length :: "dir_env \<Rightarrow> os_path \<Rightarrow> u64" where
  "data_length F p = (if path_extension p = Some ''lance'' then (case de_len F p of None \<Rightarrow> 0 | Some len \<Rightarrow> len) else 0)"

lemma data_walk_listed: "listing F dir ns ps \<Longrightarrow> data_walk F dir ns out = Some (out + sum_list (map (data_length F) ps))"
  by (induction arbitrary: out rule: listing.induct) (subst data_walk.simps, simp add: Let_def data_length_def add.assoc)+

lemma data_walk_ends: "data_walk F dir ns out = Some amount \<Longrightarrow> \<exists>ps. listing F dir ns ps"
proof (induction rule: data_walk.raw_induct [rotated 1, consumes 1])
  case (1 loop F dir ns out amount)
  show ?case
  proof (cases ns)
    case (Cons n rest)
    with 1(2) show ?thesis
      by (auto simp: Let_def bind_eq_Some_conv listing_Cons dest!: 1(1) split: if_splits)
  qed (auto intro: listing.none)
qed

lemma data_bytes_iff: "data_bytes F start = Some amount \<longleftrightarrow> (\<exists>ps. files_below F start ps \<and> amount = sum_list (map (data_length F) ps))"
  unfolding data_bytes_def using data_walk_ends data_walk_listed [of F start "entry_names F start" _ 0] by fastforce

lemma data_bytes_reordered:
  assumes "reordered F G"
  shows "data_bytes G start = data_bytes F start"
proof -
  have "data_bytes G' start = Some n" if "reordered F' G'" "data_bytes F' start = Some n" for F' G' n
  proof -
    from that(2) obtain ps where "files_below F' start ps" and n: "n = sum_list (map (data_length F') ps)"
      by (auto simp: data_bytes_iff)
    from files_reordered [OF that(1) this(1)] obtain qs where qs: "files_below G' start qs" "mset qs = mset ps" by blast
    have "data_length G' = data_length F'" using that(1) by (simp add: fun_eq_iff data_length_def reordered_def)
    with qs(2) have "sum_list (map (data_length G') qs) = n" unfolding n by (metis mset_map sum_mset_sum_list)
    with qs(1) show ?thesis by (auto simp: data_bytes_iff)
  qed
  from this [OF assms] this [OF reordered_sym [OF assms]] show ?thesis by (metis option.exhaust)
qed

section \<open>The program\<close>

text \<open>One write into a new directory, and what it takes.\<close>

definition write_once ::
  "('w, 'ds, 'sc, 'ub) lance \<Rightarrow> 'w temp_env \<Rightarrow> data_type schema \<Rightarrow> nat \<Rightarrow> ('w, halt, u64) act" where
  "write_once L T s rows =
     act_bind (\<lambda>d. let (r, d1) = te_new T d in (expecting ''temp dir'' r, d1)) (\<lambda>dir.
     let (ids, bodies, langs) = corpus_columns rows in
     act_bind (act_of (expecting ''batch'' (l_batch L s [I64Column ids, TextColumn bodies, TextColumn langs]))) (\<lambda>b.
     act_bind (\<lambda>d. let (r, d1) = l_write L s [b] (path_join dir ''t.lance'') Create None d in (expecting ''write'' r, d1)) (\<lambda>_.
     act_bind (act_read (\<lambda>d. or_endless (data_bytes (te_files T d) dir))) (\<lambda>amount d.
     (Inr amount, te_drop T dir d)))))"

text \<open>Three writes in order of size: the smallest, and how far the largest is above it.\<close>

definition spread_line :: "string \<Rightarrow> u64 \<Rightarrow> u64 \<Rightarrow> string" where
  "spread_line label smallest largest =
     ''  '' @ pad_right 44 label @ '' '' @ pad_left 9 (show_u64 smallest) @ '' bytes  ('' @
     (if smallest = largest then ''stable'' else ''+'' @ show_u64 (largest - smallest)) @ '')''"

definition write_and_measure ::
  "('w, 'ds, 'sc, 'ub) lance \<Rightarrow> 'w temp_env \<Rightarrow> string \<Rightarrow> data_type schema \<Rightarrow> nat \<Rightarrow> ('w, halt, string \<times> u64) act" where
  "write_and_measure L T label s rows =
     act_bind (act_map (\<lambda>_. write_once L T s rows) [0..<3]) (\<lambda>runs.
     let sizes = sort runs in act_ok (spread_line label (sizes ! 0) (sizes ! 2), sizes ! 0))"

definition zstd_meta :: "string \<Rightarrow> string \<Rightarrow> string option" where
  "zstd_meta level = encoding_meta [(''lance-encoding:compression'', ''zstd''), (''lance-encoding:compression-level'', level)]"

definition method_meta :: "string \<Rightarrow> string \<Rightarrow> string option" where
  "method_meta m = encoding_meta [(''lance-encoding:compression'', m)]"

text \<open>The settings measured, each with its label.\<close>

definition measured_settings :: "(string \<times> data_type schema) list" where
  "measured_settings =
     [(''default (no field metadata)'', schema_with []),
      (''compression=none on both string columns'', schema_with [(''body'', method_meta ''none''), (''language'', method_meta ''none'')])]
     @ map (\<lambda>level. (''zstd level '' @ level @ '' on every column'',
          schema_with [(''id'', zstd_meta level), (''body'', zstd_meta level), (''language'', zstd_meta level)]))
        [''1'', ''3'', ''9'', ''19'']
     @ [(''fsst forced on both string columns'', schema_with [(''body'', method_meta ''fsst''), (''language'', method_meta ''fsst'')])]
     @ map (\<lambda>level. (''zstd '' @ level @ '' on STRING columns only'',
          schema_with [(''body'', zstd_meta level), (''language'', zstd_meta level)]))
        [''1'', ''9'', ''19'']
     @ [(''default again (noise check)'', schema_with []),
        (''zstd 3 on id only, strings left to lance'', schema_with [(''id'', zstd_meta ''3'')])]"

definition MEASURED_ROWS :: nat where "MEASURED_ROWS = 20000"

definition measure_header :: "nat \<Rightarrow> string" where
  "measure_header rows =
     [CHR 0x0A] @ ''=== '' @ show_nat rows @ '' rows, '' @ show_nat (sum_list (map length (fst (snd (corpus_columns rows)))))
       @ '' bytes of raw body text ===''"

text \<open>What the program prints, line by line.\<close>

definition measure_main :: "('w, 'ds, 'sc, 'ub) lance \<Rightarrow> 'w temp_env \<Rightarrow> ('w, halt, string list) act" where
  "measure_main L T =
     act_bind (act_map (\<lambda>(label, s). write_and_measure L T label s MEASURED_ROWS) measured_settings) (\<lambda>measured.
     act_ok (measure_header MEASURED_ROWS # map fst measured))"

section \<open>What is measured\<close>

lemma corpus_columns_length:
  "length (fst (corpus_columns n)) = n" "length (fst (snd (corpus_columns n))) = n" "length (snd (snd (corpus_columns n))) = n"
  by (simp_all add: corpus_columns_def)

text \<open>
  The settings of the library: the schema measured for a level on every column is the one that a table
  compressed at that level is stored under, and the plain one is what its owner declared.
\<close>

lemma zstd_meta_library: "zstd_meta (show_nat (unat level)) = compression_metadata (Zstd level)"
  by (rule ext) (simp add: zstd_meta_def encoding_meta_def COMPRESSION_KEY_def LEVEL_KEY_def)

lemma method_meta_library: "method_meta ''none'' = compression_metadata Uncompressed"
  by (rule ext) (simp add: method_meta_def encoding_meta_def COMPRESSION_KEY_def)

lemma measured_zstd:
  "schema_with [(''id'', zstd_meta (show_nat (unat level))), (''body'', zstd_meta (show_nat (unat level))),
      (''language'', zstd_meta (show_nat (unat level)))] = applied_to (Zstd level) (schema_with [])"
  by (simp add: zstd_meta_library schema_with_def applied_to_def del: compression_metadata.simps)

lemma measured_default: "(''zstd level 1 on every column'', applied_to compression_default (schema_with [])) \<in> set measured_settings"
proof -
  have "show_nat (unat ZSTD_DEFAULT) = ''1''" by code_simp
  with measured_zstd [of ZSTD_DEFAULT] show ?thesis by (simp add: measured_settings_def compression_default_def)
qed

text \<open>A line is marked stable exactly if the three writes took the same.\<close>

lemma measured_line:
  assumes "write_and_measure L T label s rows d = (Inr (line, least), d')"
  obtains a b c where "act_map (\<lambda>_. write_once L T s rows) [0..<3] d = (Inr [a, b, c], d')" and "least = min a (min b c)"
    and "line = spread_line label (min a (min b c)) (max a (max b c))"
proof -
  from assms obtain runs where runs: "act_map (\<lambda>_. write_once L T s rows) [0..<3] d = (Inr runs, d')"
    and res: "line = spread_line label (sort runs ! 0) (sort runs ! 2)" "least = sort runs ! 0"
    by (auto simp: write_and_measure_def act_bind_Inr act_pure_iff Let_def)
  from act_map_Inr [OF runs] have len: "length runs = 3" by simp
  then obtain a b c where abc: "runs = [a, b, c]"
    by (auto simp: numeral_3_eq_3 length_Suc_conv)
  have "sort runs ! 0 = min a (min b c)" "sort runs ! 2 = max a (max b c)"
    by (simp_all add: abc insort_key_def min_def max_def) auto
  with that [of a b c] runs abc res show thesis by simp
qed

section \<open>Property\<close>


text \<open>A directory with a file in it and a file in a folder, and calls that show a folder in every folder.\<close>

definition demo_tree :: dir_env where
  "demo_tree =
     \<lparr>de_read_dir = (\<lambda>p. if p = ''/db'' then Some [Some ''t.lance'', None, Some ''.lock''] else if p = ''/db/t.lance'' then Some [Some ''a.lance''] else None),
      de_is_dir = (\<lambda>p. p = ''/db'' \<or> p = ''/db/t.lance''), de_read = (\<lambda>p. if p = ''/db/.lock'' then None else Some (ascii ''EULE-'')),
      de_len = (\<lambda>p. Some (if p = ''/db/.lock'' then 0 else 5))\<rparr>"

definition demo_deep :: dir_env where
  "demo_deep = \<lparr>de_read_dir = (\<lambda>_. Some [Some ''l'']), de_is_dir = (\<lambda>_. True), de_read = (\<lambda>_. None), de_len = (\<lambda>_. None)\<rparr>"


end
